(* ===== verification/Prelude.thy ===== *)
theory Prelude
  imports Main "HOL-Library.Word"
begin

unbundle bit_operations_syntax

text \<open>
  Shared vocabulary of the xv6 development: the C integer types, the outcome of a kernel
  operation (a value and a new state, a panic, leaving the processor, or running out of
  fuel), sequencing of operations, the byte-addressed memory with its 32- and 64-bit
  accesses, and the facts about words, pages and memory that the components use.
\<close>

section \<open>C types\<close>

text \<open>\<open>src/kernel/types.h\<close>.\<close>

type_synonym uint8 = "8 word"
type_synonym uint16 = "16 word"
type_synonym uint32 = "32 word"
type_synonym uint64 = "64 word"
type_synonym memory = "uint64 \<Rightarrow> uint8"

section \<open>Outcomes\<close>

text \<open>
  A kernel operation maps a state to an outcome. \<open>Ret x s\<close>: it returned \<open>x\<close>.
  \<open>Panic msg\<close>: it called \<open>panic(msg)\<close>, which never returns. \<open>Wait s\<close>: the
  kernel thread stopped running in state \<open>s\<close>, either spinning on a word that only
  another hart or a device changes, or switched out by \<open>sched()\<close>. \<open>NoFuel\<close>: a
  recursion that follows pointers in memory went deeper than the bound given to the model.
\<close>

datatype ('a, 's) outcome = Ret 'a 's | Panic string | Wait 's | NoFuel

fun bnd :: "('a, 's) outcome \<Rightarrow> ('a \<Rightarrow> 's \<Rightarrow> ('b, 's) outcome) \<Rightarrow> ('b, 's) outcome" where
  "bnd (Ret x s) f = f x s"
| "bnd (Panic e) f = Panic e"
| "bnd (Wait s) f = Wait s"
| "bnd NoFuel f = NoFuel"

named_theorems kop_simps \<open>evaluation of kernel operations\<close>
named_theorems word_facts \<open>alignment and page arithmetic on words\<close>
named_theorems mem_facts \<open>reads over writes\<close>

lemma bnd_cong [fundef_cong]:
  assumes "m = m'" and "\<And>x s. m' = Ret x s \<Longrightarrow> f x s = g x s"
  shows "bnd m f = bnd m' g"
  using assms by (cases m') auto

lemma bnd_eq_Ret:
  "bnd m f = Ret y t \<longleftrightarrow> (\<exists>x s. m = Ret x s \<and> f x s = Ret y t)"
  by (cases m) auto

lemma bnd_RetE:
  assumes "bnd m f = Ret y t"
  obtains x s where "m = Ret x s" and "f x s = Ret y t"
  using assms by (auto simp: bnd_eq_Ret)

lemma bnd_assoc: "bnd (bnd m f) g = bnd m (\<lambda>x s. bnd (f x s) g)"
  by (cases m) auto

text \<open>A counted loop: \<open>k\<close> iterations of the body, for \<open>i\<close>, \<open>i + 1\<close>, and so on.\<close>

primrec forn :: "nat \<Rightarrow> nat \<Rightarrow> (nat \<Rightarrow> 's \<Rightarrow> (unit, 's) outcome) \<Rightarrow> 's \<Rightarrow> (unit, 's) outcome" where
  "forn 0 i body s = Ret () s"
| "forn (Suc k) i body s = bnd (body i s) (\<lambda>_ s. forn k (Suc i) body s)"

text \<open>The state an operation left behind when it returned.\<close>

fun returns :: "('a, 's) outcome \<Rightarrow> bool" where
  "returns (Ret x s) = True"
| "returns _ = False"

section \<open>Memory accesses\<close>

text \<open>Little-endian loads and stores, as the RISC-V \<open>ld/sd/lw/sw\<close> instructions perform
  them for the C types \<open>uint64\<close> and \<open>uint32\<close>.\<close>

definition load64 :: "memory \<Rightarrow> uint64 \<Rightarrow> uint64" where
  "load64 m a = ucast (m a) OR push_bit 8 (ucast (m (a + 1))) OR
     push_bit 16 (ucast (m (a + 2))) OR push_bit 24 (ucast (m (a + 3))) OR
     push_bit 32 (ucast (m (a + 4))) OR push_bit 40 (ucast (m (a + 5))) OR
     push_bit 48 (ucast (m (a + 6))) OR push_bit 56 (ucast (m (a + 7)))"

definition store64 :: "memory \<Rightarrow> uint64 \<Rightarrow> uint64 \<Rightarrow> memory" where
  "store64 m a v = m(a := ucast v, a + 1 := ucast (drop_bit 8 v),
     a + 2 := ucast (drop_bit 16 v), a + 3 := ucast (drop_bit 24 v),
     a + 4 := ucast (drop_bit 32 v), a + 5 := ucast (drop_bit 40 v),
     a + 6 := ucast (drop_bit 48 v), a + 7 := ucast (drop_bit 56 v))"

definition load32 :: "memory \<Rightarrow> uint64 \<Rightarrow> uint32" where
  "load32 m a = ucast (m a) OR push_bit 8 (ucast (m (a + 1))) OR
     push_bit 16 (ucast (m (a + 2))) OR push_bit 24 (ucast (m (a + 3)))"

definition store32 :: "memory \<Rightarrow> uint64 \<Rightarrow> uint32 \<Rightarrow> memory" where
  "store32 m a v = m(a := ucast v, a + 1 := ucast (drop_bit 8 v),
     a + 2 := ucast (drop_bit 16 v), a + 3 := ucast (drop_bit 24 v))"

text \<open>The byte range \<open>[a, a + n)\<close>, as a list.\<close>

definition bytes_at :: "memory \<Rightarrow> uint64 \<Rightarrow> nat \<Rightarrow> uint8 list" where
  "bytes_at m a n = map (\<lambda>i. m (a + of_nat i)) [0..<n]"

section \<open>Word arithmetic\<close>

lemma add_aligned_or:
  fixes a b :: "'a::len word"
  assumes "take_bit n a = 0" and "take_bit n b = b"
  shows "a + b = a OR b"
proof (rule disjunctive_add_eq_or)
  show "a AND b = 0"
  proof (rule bit_word_eqI)
    fix k
    have "\<not> (k < n \<and> bit a k)"
      using assms(1) by (metis bit_0_eq bit_take_bit_iff bot_apply bot_bool_def)
    moreover have "bit b k \<Longrightarrow> k < n"
      using assms(2) by (metis bit_take_bit_iff)
    ultimately show "bit (a AND b) k = bit (0::'a word) k"
      by (auto simp: bit_simps)
  qed
qed

lemma drop_bit_add_aligned:
  fixes a b :: "'a::len word"
  assumes "take_bit n a = 0" and "take_bit n b = b"
  shows "drop_bit n (a + b) = drop_bit n a"
proof -
  have "drop_bit n b = 0"
    using assms(2) by (metis drop_bit_take_bit diff_self_eq_0 take_bit_0)
  then show ?thesis
    using add_aligned_or [OF assms] by (simp add: drop_bit_or)
qed

lemma take_bit_add_aligned:
  fixes a b :: "'a::len word"
  assumes "take_bit n a = 0" and "take_bit n b = b"
  shows "take_bit n (a + b) = b"
  using add_aligned_or [OF assms] assms by (simp add: take_bit_or)

lemma take_bit_of_small:
  fixes b :: "'a::len word"
  assumes "unat b < 2 ^ n"
  shows "take_bit n b = b"
  using assms by (metis take_bit_nat_eq_self_iff unsigned_take_bit_eq unsigned_word_eqI)

lemma drop_bit_inj_aligned:
  fixes a b :: "'a::len word"
  assumes "drop_bit n a = drop_bit n b" and "take_bit n a = take_bit n b"
  shows "a = b"
  by (metis assms bits_ident)

lemma word_split: "(x :: 'a::len word) = push_bit n (drop_bit n x) + take_bit n x"
  by (simp add: bits_ident)

lemma in_block:
  fixes a x :: "'a::len word"
  assumes "take_bit n a = 0" and "n < LENGTH('a)"
  shows "unat (x - a) < 2 ^ n \<longleftrightarrow> drop_bit n x = drop_bit n a"
proof
  assume "unat (x - a) < 2 ^ n"
  then have "take_bit n (x - a) = x - a" by (rule take_bit_of_small)
  from drop_bit_add_aligned [OF assms(1) this] show "drop_bit n x = drop_bit n a" by simp
next
  assume eq: "drop_bit n x = drop_bit n a"
  have "x - a = take_bit n x"
    using word_split [of x n] word_split [of a n] assms(1) eq
    by (metis add.right_neutral add_diff_cancel_left')
  moreover have "unat (take_bit n x) < 2 ^ n"
    by (metis take_bit_nat_less_exp unsigned_take_bit_eq)
  ultimately show "unat (x - a) < 2 ^ n" by simp
qed

lemma eq_add_of_nat:
  fixes a d :: uint64
  assumes "i < 2 ^ 64"
  shows "a = d + of_nat i \<longleftrightarrow> unat (a - d) = i"
proof
  assume "a = d + of_nat i"
  then show "unat (a - d) = i" using assms by (simp add: unat_of_nat)
next
  assume "unat (a - d) = i"
  then have "of_nat i = a - d" by auto
  then show "a = d + of_nat i" by simp
qed

lemma unat_ucast_32_64 [simp]: "unat (ucast (n :: uint32) :: uint64) = unat n"
proof -
  have "unat n < 2 ^ LENGTH(32)" by (rule unsigned_less)
  then have "unat n < 2 ^ 64" by simp
  then show ?thesis by (simp add: unsigned_ucast_eq take_bit_nat_eq_self)
qed

section \<open>Reads over writes\<close>

lemma bit8_big [simp]: "8 \<le> n \<Longrightarrow> \<not> bit (b :: 8 word) n"
  using bit_imp_le_length [of b n] by auto

lemma byte_index_cases:
  fixes k :: nat
  assumes "k < 64"
  obtains j where "j \<in> {0, 1, 2, 3, 4, 5, 6, 7}" and "k div 8 = j" and "k mod 8 = k - 8 * j" and "8 * j \<le> k" and "k < 8 * j + 8"
proof (rule that)
  show "k div 8 \<in> {0, 1, 2, 3, 4, 5, 6, 7}"
    using assms by simp linarith
qed (simp_all add: minus_mult_div_eq_mod)

lemma bit_load64:
  assumes "k < 64"
  shows "bit (load64 m a) k = bit (m (a + of_nat (k div 8))) (k mod 8)"
  using assms
  by (rule byte_index_cases)
    (elim insertE emptyE; simp add: load64_def bit_or_iff bit_push_bit_iff bit_unsigned_iff less_diff_conv2)

lemma bit_store64_byte:
  assumes "k < 64"
  shows "bit (store64 m a v (a + of_nat (k div 8))) (k mod 8) = bit v k"
  using assms
  by (rule byte_index_cases)
    (elim insertE emptyE; simp add: store64_def bit_drop_bit_eq bit_unsigned_iff less_diff_conv2)

lemma load64_store64_same [simp]: "load64 (store64 m a v) a = v"
  by (rule bit_word_eqI) (simp add: bit_load64 bit_store64_byte)

lemma load64_cong:
  assumes "\<And>x. unat (x - a) < 8 \<Longrightarrow> m x = m' x"
  shows "load64 m a = load64 m' a"
  unfolding load64_def using assms by simp

lemma store64_other: "\<not> unat (x - a) < 8 \<Longrightarrow> store64 m a v x = m x"
  unfolding store64_def by auto

lemma load64_store64_other:
  assumes "take_bit 3 a = 0" and "take_bit 3 b = 0" and "a \<noteq> b"
  shows "load64 (store64 m a v) b = load64 m b"
proof (rule load64_cong)
  fix x assume "unat (x - b) < 8"
  then have "drop_bit 3 x = drop_bit 3 b"
    using in_block [OF assms(2)] by simp
  then have "drop_bit 3 x \<noteq> drop_bit 3 a"
    using assms drop_bit_inj_aligned [of 3 a b] by auto
  then show "store64 m a v x = m x"
    using in_block [OF assms(1)] by (simp add: store64_other)
qed

lemma load64_store64_page:
  assumes "drop_bit 12 a \<noteq> drop_bit 12 b" and "take_bit 3 a = 0" and "take_bit 3 b = 0"
  shows "load64 (store64 m a v) b = load64 m b"
  using assms by (auto intro: load64_store64_other)

lemma store64_twice [simp]: "store64 (store64 m a v) a w = store64 m a w"
  unfolding store64_def by (rule ext) auto

lemma length_bytes_at [simp]: "length (bytes_at m a n) = n"
  by (simp add: bytes_at_def)

lemma nth_bytes_at [simp]: "i < n \<Longrightarrow> bytes_at m a n ! i = m (a + of_nat i)"
  by (simp add: bytes_at_def)

lemma bytes_at_cong:
  assumes "\<And>i. i < n \<Longrightarrow> m (a + of_nat i) = m' (a' + of_nat i)"
  shows "bytes_at m a n = bytes_at m' a' n"
  using assms by (simp add: bytes_at_def)

end
