(* ===== verification/Riscv.thy ===== *)
theory Riscv
  imports Prelude
begin

text \<open>
  The constants and macros of \<open>src/kernel/riscv.h\<close>, \<open>src/kernel/memlayout.h\<close> and
  \<open>src/kernel/param.h\<close>, and the arithmetic of Sv39 addresses and page-table entries: the
  entry of a page gives back the page, and an address below \<open>MAXVA\<close> is determined by its
  three 9-bit indices and its offset.
\<close>

section \<open>Parameters\<close>

definition NPROC :: nat where [simp]: "NPROC = 64"
definition NCPU :: nat where [simp]: "NCPU = 8"
definition NOFILE :: nat where [simp]: "NOFILE = 16"
definition NFILE :: nat where [simp]: "NFILE = 100"
definition NINODE :: nat where [simp]: "NINODE = 50"
definition NDEV :: int where [simp]: "NDEV = 10"
definition ROOTDEV :: uint32 where [simp]: "ROOTDEV = 1"
definition MAXARG :: nat where [simp]: "MAXARG = 32"
definition MAXOPBLOCKS :: nat where [simp]: "MAXOPBLOCKS = 10"
definition LOGSIZE :: nat where [simp]: "LOGSIZE = MAXOPBLOCKS * 3"
definition NBUF :: nat where [simp]: "NBUF = MAXOPBLOCKS * 3"
definition FSSIZE :: nat where [simp]: "FSSIZE = 2000"
definition MAXPATH :: nat where [simp]: "MAXPATH = 128"

section \<open>Status register bits and pages\<close>

definition SSTATUS_SPP :: uint64 where "SSTATUS_SPP = push_bit 8 1"
definition SSTATUS_SPIE :: uint64 where "SSTATUS_SPIE = push_bit 5 1"
definition SSTATUS_SIE :: uint64 where "SSTATUS_SIE = push_bit 1 1"

definition PGSIZE :: uint64 where [simp]: "PGSIZE = 4096"

definition PGROUNDUP :: "uint64 \<Rightarrow> uint64" where
  "PGROUNDUP sz = (sz + PGSIZE - 1) AND NOT (PGSIZE - 1)"

definition PGROUNDDOWN :: "uint64 \<Rightarrow> uint64" where
  "PGROUNDDOWN a = a AND NOT (PGSIZE - 1)"

section \<open>Page-table entries\<close>

definition PTE_V :: uint64 where "PTE_V = push_bit 0 1"
definition PTE_R :: uint64 where "PTE_R = push_bit 1 1"
definition PTE_W :: uint64 where "PTE_W = push_bit 2 1"
definition PTE_X :: uint64 where "PTE_X = push_bit 3 1"
definition PTE_U :: uint64 where "PTE_U = push_bit 4 1"
definition PTE_A :: uint64 where "PTE_A = push_bit 6 1"

definition PA2PTE :: "uint64 \<Rightarrow> uint64" where
  "PA2PTE pa = push_bit 10 (drop_bit 12 pa)"

definition PTE2PA :: "uint64 \<Rightarrow> uint64" where
  "PTE2PA pte = push_bit 12 (drop_bit 10 pte)"

definition PTE_FLAGS :: "uint64 \<Rightarrow> uint64" where
  "PTE_FLAGS pte = pte AND 0x3FF"

definition PXMASK :: uint64 where [simp]: "PXMASK = 0x1FF"

definition PXSHIFT :: "nat \<Rightarrow> nat" where [simp]: "PXSHIFT level = 12 + 9 * level"

definition PX :: "nat \<Rightarrow> uint64 \<Rightarrow> uint64" where
  "PX level va = drop_bit (PXSHIFT level) va AND PXMASK"

definition MAXVA :: uint64 where "MAXVA = push_bit (9 + 9 + 9 + 12 - 1) 1"

definition SATP_SV39 :: uint64 where "SATP_SV39 = push_bit 60 8"

definition MAKE_SATP :: "uint64 \<Rightarrow> uint64" where
  "MAKE_SATP pagetable = SATP_SV39 OR drop_bit 12 pagetable"

section \<open>Memory layout\<close>

definition UART0 :: uint64 where [simp]: "UART0 = 0x10000000"
definition VIRTIO0 :: uint64 where [simp]: "VIRTIO0 = 0x10001000"
definition CLINT :: uint64 where [simp]: "CLINT = 0x2000000"
definition PLIC :: uint64 where [simp]: "PLIC = 0x0c000000"
definition USER_TOP :: uint64 where [simp]: "USER_TOP = 0x80000000"
definition KERNBASE :: uint64 where [simp]: "KERNBASE = 0x80000000"
definition PHYSTOP :: uint64 where [simp]: "PHYSTOP = KERNBASE + 128 * 1024 * 1024"
definition TRAMPOLINE :: uint64 where [simp]: "TRAMPOLINE = MAXVA - PGSIZE"
definition KSTACK :: "nat \<Rightarrow> uint64" where
  "KSTACK p = TRAMPOLINE - of_nat p * 2 * PGSIZE - 3 * PGSIZE"
definition TRAPFRAME :: uint64 where [simp]: "TRAPFRAME = TRAMPOLINE - PGSIZE"
definition USYSCALL :: uint64 where [simp]: "USYSCALL = TRAPFRAME - PGSIZE"

section \<open>Arithmetic of pages and entries\<close>

abbreviation page_aligned :: "uint64 \<Rightarrow> bool" where
  "page_aligned a \<equiv> take_bit 12 a = 0"

abbreviation pgof :: "uint64 \<Rightarrow> uint64" where
  "pgof a \<equiv> drop_bit 12 a"

lemma MAXVA_val [simp]: "MAXVA = 0x4000000000"
  by (simp add: MAXVA_def)

lemmas pte_bits [simp] = PTE_V_def PTE_R_def PTE_W_def PTE_X_def PTE_U_def PTE_A_def

lemma mod_PGSIZE: "(a :: uint64) mod 4096 = take_bit 12 a"
  by (simp add: take_bit_eq_mod)

lemma aligned8_of_page: "page_aligned a \<Longrightarrow> take_bit 3 a = 0"
  using take_bit_take_bit [of 3 12 a] by simp

lemma bit64_big: "64 \<le> n \<Longrightarrow> \<not> bit (w :: uint64) n"
  using bit_imp_le_length [of w n] by auto

lemma PTE2PA_PA2PTE:
  assumes "page_aligned pa" and "drop_bit 10 f = 0"
  shows "PTE2PA (PA2PTE pa OR f) = pa"
proof -
  have "drop_bit 10 (push_bit 10 (drop_bit 12 pa)) = drop_bit 12 pa"
  proof (rule bit_word_eqI)
    fix n
    show "bit (drop_bit 10 (push_bit 10 (drop_bit 12 pa))) n = bit (drop_bit 12 pa) n"
      by (cases "n < 52") (auto simp: bit_simps bit64_big)
  qed
  then have "PTE2PA (PA2PTE pa OR f) = push_bit 12 (drop_bit 12 pa)"
    using assms(2) by (simp add: PTE2PA_def PA2PTE_def)
  also have "\<dots> = pa"
    using word_split [of pa 12] assms(1) by simp
  finally show ?thesis .
qed

lemma low_bits_push: "m \<le> n \<Longrightarrow> take_bit m (push_bit n (w :: uint64)) = 0"
  by (rule bit_word_eqI) (auto simp: bit_simps)

lemma page_aligned_PTE2PA [simp]: "page_aligned (PTE2PA pte)"
  by (simp add: PTE2PA_def low_bits_push)

lemma PTE_FLAGS_take_bit: "PTE_FLAGS pte = take_bit 10 pte"
  by (simp add: PTE_FLAGS_def take_bit_eq_mask mask_eq_exp_minus_1)

lemma PTE_FLAGS_PA2PTE:
  assumes "drop_bit 10 f = 0"
  shows "PTE_FLAGS (PA2PTE pa OR f) = f"
proof -
  have "take_bit 10 f = f"
    using word_split [of f 10] assms by simp
  then show ?thesis
    by (simp add: PTE_FLAGS_take_bit PA2PTE_def low_bits_push)
qed

lemma PX_take_bit: "PX l va = take_bit 9 (drop_bit (12 + 9 * l) va)"
  by (simp add: PX_def take_bit_eq_mask mask_eq_exp_minus_1)

lemma unat_take_bit_less: "unat (take_bit n (w :: 'a::len word)) < 2 ^ n"
  by (metis take_bit_nat_less_exp unsigned_take_bit_eq)

lemma unat_PX: "unat (PX l va) < 512"
  using unat_take_bit_less [of 9 "drop_bit (12 + 9 * l) va"] by (simp add: PX_take_bit)

lemma bit_PX: "bit (PX l va) k \<longleftrightarrow> k < 9 \<and> bit va (12 + 9 * l + k)"
  by (auto simp: PX_take_bit bit_simps)

lemma less_exp_high_bits:
  fixes va :: uint64
  assumes "unat va < 2 ^ n" and "n \<le> k"
  shows "\<not> bit va k"
  using take_bit_of_small [OF assms(1)] assms(2) by (metis bit_take_bit_iff leD)

text \<open>An address below \<open>MAXVA\<close> is determined, up to its page, by its three indices.\<close>

lemma PX_inj:
  assumes "va < MAXVA" and "va' < MAXVA"
    and "PX 2 va = PX 2 va'" and "PX 1 va = PX 1 va'" and "PX 0 va = PX 0 va'"
  shows "pgof va = pgof va'"
proof (rule bit_word_eqI)
  fix k assume "k < LENGTH(64)"
  have hi: "\<And>w j. w < MAXVA \<Longrightarrow> 38 \<le> j \<Longrightarrow> \<not> bit w j"
    by (rule less_exp_high_bits [where n = 38]) (auto simp: word_less_nat_alt)
  have px: "\<And>l j. l \<le> 2 \<Longrightarrow> j < 9 \<Longrightarrow> bit va (12 + 9 * l + j) = bit va' (12 + 9 * l + j)"
  proof -
    fix l j :: nat assume "l \<le> 2" and j: "j < 9"
    then consider "l = 0" | "l = 1" | "l = 2" by linarith
    then have "PX l va = PX l va'" using assms(3-5) by cases simp_all
    then have "bit (PX l va) j = bit (PX l va') j" by simp
    then show "bit va (12 + 9 * l + j) = bit va' (12 + 9 * l + j)"
      using j by (simp add: bit_PX)
  qed
  consider "k < 9" | "9 \<le> k \<and> k < 18" | "18 \<le> k \<and> k < 27" | "27 \<le> k" by linarith
  then show "bit (pgof va) k = bit (pgof va') k"
  proof cases
    case 1 then show ?thesis using px [of 0 k] by (simp add: bit_drop_bit_eq)
  next
    case 2 then show ?thesis using px [of 1 "k - 9"] by (simp add: bit_drop_bit_eq less_diff_conv2)
  next
    case 3 then show ?thesis using px [of 2 "k - 18"] by (simp add: bit_drop_bit_eq less_diff_conv2)
  next
    case 4 then show ?thesis using hi assms(1,2) by (simp add: bit_drop_bit_eq)
  qed
qed

lemma PX_same_page: "pgof va = pgof va' \<Longrightarrow> PX l va = PX l va'"
proof (rule bit_word_eqI)
  fix k assume "pgof va = pgof va'"
  then have "bit (pgof va) (9 * l + k) = bit (pgof va') (9 * l + k)" by simp
  then show "bit (PX l va) k = bit (PX l va') k"
    by (simp add: bit_PX bit_drop_bit_eq add.assoc)
qed

text \<open>Entries of a table page.\<close>

lemma mult8_PX:
  "take_bit 12 (8 * PX l va) = 8 * PX l va" "unat (8 * PX l va) = 8 * unat (PX l va)"
proof -
  have "unat (8 * PX l va) = 8 * unat (PX l va)"
    using unat_PX [of l va] by (simp add: unat_word_ariths)
  then show "unat (8 * PX l va) = 8 * unat (PX l va)" .
  then show "take_bit 12 (8 * PX l va) = 8 * PX l va"
    using unat_PX [of l va] by (intro take_bit_of_small) simp
qed

lemma pgof_entry: "page_aligned pt \<Longrightarrow> pgof (pt + 8 * PX l va) = pgof pt"
  by (rule drop_bit_add_aligned [OF _ mult8_PX(1)])

lemma aligned8_mult8: "take_bit 3 (8 * w :: uint64) = 0"
  using low_bits_push [of 3 3 w] by (simp add: push_bit_eq_mult mult.commute)

lemma aligned8_entry: "page_aligned pt \<Longrightarrow> take_bit 3 (pt + 8 * w) = 0"
proof -
  assume "page_aligned pt"
  then have "pt = push_bit 3 (drop_bit 3 pt)"
    using word_split [of pt 3] aligned8_of_page [of pt] by simp
  then have "pt + 8 * w = push_bit 3 (drop_bit 3 pt + w)"
    by (simp add: push_bit_add push_bit_eq_mult [of 3 w] mult.commute)
  then show "take_bit 3 (pt + 8 * w) = 0"
    by (simp add: low_bits_push)
qed

lemma entry_inj:
  assumes "pt + 8 * PX l va = pt + 8 * PX l' va'"
  shows "PX l va = PX l' va'"
proof -
  have "8 * unat (PX l va) = 8 * unat (PX l' va')"
    using assms mult8_PX(2) [of l va] mult8_PX(2) [of l' va'] by simp
  then show ?thesis by (simp add: word_unat_eq_iff)
qed

text \<open>Rounding.\<close>

lemma not_mask12: "a AND - 4096 = push_bit 12 (drop_bit 12 (a :: uint64))"
proof -
  have "a AND NOT (mask 12) = push_bit 12 (drop_bit 12 a)"
    by (rule bit_word_eqI) (auto simp: bit_and_iff bit_not_iff bit_mask_iff bit_push_bit_iff bit_drop_bit_eq)
  then show ?thesis by (simp add: mask_eq_exp_minus_1)
qed

lemma PGROUNDDOWN_eq: "PGROUNDDOWN a = push_bit 12 (pgof a)"
  by (simp add: PGROUNDDOWN_def not_mask12)

lemma page_aligned_PGROUNDDOWN [simp]: "page_aligned (PGROUNDDOWN a)"
  by (simp add: PGROUNDDOWN_eq low_bits_push)

lemma page_aligned_PGROUNDUP [simp]: "page_aligned (PGROUNDUP a)"
  by (simp add: PGROUNDUP_def not_mask12 low_bits_push)

lemma unat_take_bit12: "unat (take_bit 12 (a :: uint64)) = unat a mod 4096"
  by (simp add: take_bit_eq_mod unat_mod)

lemma unat_push_drop: "unat (push_bit 12 (drop_bit 12 a) :: uint64) = unat a div 4096 * 4096"
proof -
  have "push_bit 12 (drop_bit 12 a) = a - take_bit 12 a"
    using word_split [of a 12] by (simp add: eq_diff_eq)
  moreover have "take_bit 12 a \<le> a"
    by (simp add: word_le_nat_alt unat_take_bit12)
  ultimately show ?thesis
    by (simp add: unat_sub unat_take_bit12 minus_mod_eq_div_mult)
qed

lemma unat_PGROUNDDOWN: "unat (PGROUNDDOWN a) = unat a div 4096 * 4096"
  by (simp add: PGROUNDDOWN_eq unat_push_drop)

lemma unat_PGROUNDUP:
  assumes "unat a + 4095 < 2 ^ 64"
  shows "unat (PGROUNDUP a) = (unat a + 4095) div 4096 * 4096"
proof -
  have "unat (a + 4095) = unat a + 4095"
    using assms by (simp add: unat_word_ariths)
  then show ?thesis
    by (simp add: PGROUNDUP_def not_mask12 unat_push_drop add.commute)
qed

lemma page_aligned_unat: "page_aligned a \<longleftrightarrow> unat a mod 4096 = 0"
  by (simp add: unat_take_bit12 [symmetric] unat_eq_zero)


section \<open>Properties\<close>

text \<open>
  C32. A page-table entry built from a page and flags gives both back: for every page-aligned
  address and every flag word below bit 10, \<open>PTE2PA\<close> and \<open>PTE_FLAGS\<close> invert
  \<open>PA2PTE(pa) | flags\<close>.
\<close>

theorem pte_roundtrip:
  assumes "page_aligned pa" "drop_bit 10 f = 0"
  shows "PTE2PA (PA2PTE pa OR f) = pa \<and> PTE_FLAGS (PA2PTE pa OR f) = f"
  using PTE2PA_PA2PTE [OF assms] PTE_FLAGS_PA2PTE [OF assms(2)] by simp

theorem pte_roundtrip_witness:
  "PTE2PA (PA2PTE 0x87654000 OR 0x1f) = 0x87654000 \<and> PTE_FLAGS (PA2PTE 0x87654000 OR 0x1f) = 0x1f"
  using pte_roundtrip [of "0x87654000" "0x1f"] by simp

text \<open>
  C31. The three 9-bit indices of \<open>PX\<close> identify a page: two addresses below \<open>MAXVA\<close> have
  the same indices at all three levels exactly when they lie in the same page.
\<close>

theorem PX_identifies_page:
  assumes "va < MAXVA" "va' < MAXVA"
  shows "(\<forall>l\<in>{0, 1, 2}. PX l va = PX l va') \<longleftrightarrow> PGROUNDDOWN va = PGROUNDDOWN va'"
proof
  assume "\<forall>l\<in>{0, 1, 2}. PX l va = PX l va'"
  then have "pgof va = pgof va'" using assms by (intro PX_inj) auto
  then show "PGROUNDDOWN va = PGROUNDDOWN va'" by (simp add: PGROUNDDOWN_eq)
next
  assume eq: "PGROUNDDOWN va = PGROUNDDOWN va'"
  have "pgof (PGROUNDDOWN a) = pgof a" for a
    unfolding PGROUNDDOWN_eq
    by (rule bit_word_eqI) (auto simp: bit_drop_bit_eq bit_push_bit_iff dest: bit_imp_le_length)
  then have "pgof va = pgof va'" using eq by metis
  then show "\<forall>l\<in>{0, 1, 2}. PX l va = PX l va'" using PX_same_page by blast
qed

theorem PX_identifies_page_witness:
  "(\<forall>l\<in>{0, 1, 2}. PX l 0x1234 = PX l 0x1fff) \<longleftrightarrow> PGROUNDDOWN 0x1234 = PGROUNDDOWN 0x1fff"
  using PX_identifies_page [of "0x1234" "0x1fff"] by simp

end
