(* ===== verification/Spinlock.thy ===== *)
theory Spinlock
  imports Riscv
begin

text \<open>
  Spin locks and interrupt nesting: \<open>src/kernel/spinlock.c\<close>, the per-CPU structure of
  \<open>src/kernel/proc.h\<close>, \<open>cpuid\<close> and \<open>mycpu\<close> of \<open>src/kernel/proc.c\<close> and the
  interrupt accessors of \<open>src/kernel/riscv.h\<close>. The record \<open>machine\<close> is the part of
  the kernel state these functions use; later theories extend it field by field, and the
  operations below apply to every extension. The second half runs the atomic pieces of
  \<open>acquire\<close> and \<open>release\<close> on all harts in any order and shows mutual exclusion.
\<close>

section \<open>Locks, CPUs and harts\<close>

text \<open>One identifier per spin lock object of the kernel. \<open>BufLk\<close> and \<open>InodeLk\<close> are the
  spin locks inside the sleep locks of buffers and in-memory inodes.\<close>

datatype lockid = KmemLock | PidLock | WaitLock | ProcLock nat | FtableLock | ItableLock
  | BcacheLock | LogLock | BufLk nat | InodeLk nat | PipeLock uint64 | ConsLock | UartTxLock
  | TicksLock | VdiskLock | PrLock

record spinlock =
  locked :: bool
  lname :: string
  lcpu :: "nat option"

record cpu =
  cpu_proc :: "nat option"
  noff :: int
  intena :: bool

record machine =
  tp :: nat
  sstatus :: "nat \<Rightarrow> uint64"
  cpus :: "nat \<Rightarrow> cpu"
  locks :: "lockid \<Rightarrow> spinlock"

definition intr_on :: "'x machine_scheme \<Rightarrow> 'x machine_scheme" where
  "intr_on s = s\<lparr>sstatus := (sstatus s)(tp s := sstatus s (tp s) OR SSTATUS_SIE)\<rparr>"

definition intr_off :: "'x machine_scheme \<Rightarrow> 'x machine_scheme" where
  "intr_off s = s\<lparr>sstatus := (sstatus s)(tp s := sstatus s (tp s) AND NOT SSTATUS_SIE)\<rparr>"

definition intr_get :: "'x machine_scheme \<Rightarrow> bool" where
  "intr_get s = (sstatus s (tp s) AND SSTATUS_SIE \<noteq> 0)"

definition cpuid :: "'x machine_scheme \<Rightarrow> nat" where
  "cpuid s = tp s"

definition mycpu :: "'x machine_scheme \<Rightarrow> cpu" where
  "mycpu s = cpus s (cpuid s)"

definition set_mycpu :: "cpu \<Rightarrow> 'x machine_scheme \<Rightarrow> 'x machine_scheme" where
  "set_mycpu c s = s\<lparr>cpus := (cpus s)(cpuid s := c)\<rparr>"

definition set_lock :: "lockid \<Rightarrow> spinlock \<Rightarrow> 'x machine_scheme \<Rightarrow> 'x machine_scheme" where
  "set_lock lk v s = s\<lparr>locks := (locks s)(lk := v)\<rparr>"

section \<open>spinlock.c\<close>

definition initlock :: "lockid \<Rightarrow> string \<Rightarrow> 'x machine_scheme \<Rightarrow> 'x machine_scheme" where
  "initlock lk nm s = set_lock lk \<lparr>locked = False, lname = nm, lcpu = None\<rparr> s"

definition holding :: "lockid \<Rightarrow> 'x machine_scheme \<Rightarrow> bool" where
  "holding lk s = (locked (locks s lk) \<and> lcpu (locks s lk) = Some (cpuid s))"

definition push_off :: "'x machine_scheme \<Rightarrow> 'x machine_scheme" where
  "push_off s =
     (let old = intr_get s;
          s = intr_off s;
          s = (if noff (mycpu s) = 0 then set_mycpu ((mycpu s)\<lparr>intena := old\<rparr>) s else s)
      in set_mycpu ((mycpu s)\<lparr>noff := noff (mycpu s) + 1\<rparr>) s)"

definition pop_off :: "'x machine_scheme \<Rightarrow> (unit, 'x machine_scheme) outcome" where
  "pop_off s =
     (if intr_get s then Panic ''pop_off - interruptible''
      else if noff (mycpu s) < 1 then Panic ''pop_off''
      else
        let s = set_mycpu ((mycpu s)\<lparr>noff := noff (mycpu s) - 1\<rparr>) s
        in Ret () (if noff (mycpu s) = 0 \<and> intena (mycpu s) then intr_on s else s))"

text \<open>\<open>acquire\<close> in its atomic pieces: disabling interrupts and the self-deadlock check, one
  iteration of the test-and-set loop, recording the holder.\<close>

definition acquire_enter :: "lockid \<Rightarrow> 'x machine_scheme \<Rightarrow> (unit, 'x machine_scheme) outcome" where
  "acquire_enter lk s =
     (let s = push_off s in if holding lk s then Panic ''acquire'' else Ret () s)"

definition test_and_set :: "lockid \<Rightarrow> 'x machine_scheme \<Rightarrow> bool \<times> 'x machine_scheme" where
  "test_and_set lk s = (locked (locks s lk), set_lock lk ((locks s lk)\<lparr>locked := True\<rparr>) s)"

definition acquire_mark :: "lockid \<Rightarrow> 'x machine_scheme \<Rightarrow> 'x machine_scheme" where
  "acquire_mark lk s = set_lock lk ((locks s lk)\<lparr>lcpu := Some (cpuid s)\<rparr>) s"

text \<open>A hart that finds the lock taken spins until another hart releases it: \<open>Wait\<close>.\<close>

definition acquire :: "lockid \<Rightarrow> 'x machine_scheme \<Rightarrow> (unit, 'x machine_scheme) outcome" where
  "acquire lk s = bnd (acquire_enter lk s) (\<lambda>_ s.
     case test_and_set lk s of
       (True, s) \<Rightarrow> Wait s
     | (False, s) \<Rightarrow> Ret () (acquire_mark lk s))"

definition release_enter :: "lockid \<Rightarrow> 'x machine_scheme \<Rightarrow> (unit, 'x machine_scheme) outcome" where
  "release_enter lk s =
     (if \<not> holding lk s then Panic ''release''
      else Ret () (set_lock lk ((locks s lk)\<lparr>lcpu := None\<rparr>) s))"

definition lock_release :: "lockid \<Rightarrow> 'x machine_scheme \<Rightarrow> 'x machine_scheme" where
  "lock_release lk s = set_lock lk ((locks s lk)\<lparr>locked := False\<rparr>) s"

definition release :: "lockid \<Rightarrow> 'x machine_scheme \<Rightarrow> (unit, 'x machine_scheme) outcome" where
  "release lk s = bnd (release_enter lk s) (\<lambda>_ s. pop_off (lock_release lk s))"

section \<open>One hart: balanced critical sections\<close>

text \<open>\<open>hart_ok\<close>: on the running hart the nesting count is not negative and interrupts are
  off whenever it is positive. \<open>lock_free\<close>: nobody holds the lock.\<close>

definition hart_ok :: "'x machine_scheme \<Rightarrow> bool" where
  "hart_ok s \<longleftrightarrow> 0 \<le> noff (mycpu s) \<and> (0 < noff (mycpu s) \<longrightarrow> \<not> intr_get s)"

definition lock_free :: "lockid \<Rightarrow> 'x machine_scheme \<Rightarrow> bool" where
  "lock_free lk s \<longleftrightarrow> \<not> locked (locks s lk) \<and> lcpu (locks s lk) = None"

text \<open>What a balanced \<open>push_off\<close>/\<open>pop_off\<close> pair leaves behind: only the saved interrupt
  state of an outermost pair.\<close>

definition relax :: "'x machine_scheme \<Rightarrow> 'x machine_scheme" where
  "relax s = (if noff (mycpu s) = 0 then set_mycpu ((mycpu s)\<lparr>intena := intr_get s\<rparr>) s else s)"

definition held :: "lockid \<Rightarrow> 'x machine_scheme \<Rightarrow> 'x machine_scheme" where
  "held lk s = set_lock lk ((locks s lk)\<lparr>locked := True, lcpu := Some (tp s)\<rparr>) (push_off s)"

text \<open>States that agree on the machine up to the saved interrupt state of the running hart.\<close>

definition mframe :: "'x machine_scheme \<Rightarrow> 'y machine_scheme \<Rightarrow> bool" where
  "mframe s t \<longleftrightarrow> tp t = tp s \<and> sstatus t = sstatus s \<and> locks t = locks s \<and>
     (\<forall>h. noff (cpus t h) = noff (cpus s h) \<and> cpu_proc (cpus t h) = cpu_proc (cpus s h))"

lemmas machine_defs = intr_on_def intr_off_def intr_get_def cpuid_def mycpu_def set_mycpu_def
  set_lock_def

lemma sie_facts [simp]:
  "(x AND NOT SSTATUS_SIE) AND SSTATUS_SIE = 0"
  "(x OR SSTATUS_SIE) AND SSTATUS_SIE \<noteq> 0"
proof -
  show "(x AND NOT SSTATUS_SIE) AND SSTATUS_SIE = 0"
    by (rule bit_word_eqI) (auto simp: bit_simps SSTATUS_SIE_def)
  have "bit ((x OR SSTATUS_SIE) AND SSTATUS_SIE) 1"
    by (simp add: bit_simps SSTATUS_SIE_def)
  then show "(x OR SSTATUS_SIE) AND SSTATUS_SIE \<noteq> 0" by (metis bit_0_eq bot_apply bot_bool_def)
qed

lemma sie_restore:
  "x AND SSTATUS_SIE = 0 \<Longrightarrow> x AND NOT SSTATUS_SIE = x"
  "x AND SSTATUS_SIE \<noteq> 0 \<Longrightarrow> (x AND NOT SSTATUS_SIE) OR SSTATUS_SIE = x"
proof -
  assume 0: "x AND SSTATUS_SIE = 0"
  show "x AND NOT SSTATUS_SIE = x"
    using arg_cong [OF 0, of "\<lambda>w. bit w 1"]
    by (intro bit_word_eqI) (auto simp: bit_simps SSTATUS_SIE_def)
next
  assume 1: "x AND SSTATUS_SIE \<noteq> 0"
  have "bit x 1"
  proof (rule ccontr)
    assume "\<not> bit x 1"
    then have "x AND SSTATUS_SIE = 0"
      by (intro bit_word_eqI) (auto simp: bit_simps SSTATUS_SIE_def)
    with 1 show False by simp
  qed
  then show "(x AND NOT SSTATUS_SIE) OR SSTATUS_SIE = x"
    by (intro bit_word_eqI) (auto simp: bit_simps SSTATUS_SIE_def)
qed

lemma push_off_proj [simp]:
  "tp (push_off s) = tp s" "locks (push_off s) = locks s"
  "\<not> intr_get (push_off s)" "machine.more (push_off s) = machine.more s"
  "noff (mycpu (push_off s)) = noff (mycpu s) + 1"
  by (auto simp: push_off_def Let_def machine_defs)

lemma held_proj [simp]:
  "tp (held lk s) = tp s" "machine.more (held lk s) = machine.more s"
  "holding lk (held lk s)" "\<not> intr_get (held lk s)"
  "noff (mycpu (held lk s)) = noff (mycpu s) + 1"
  using push_off_proj(3,5) [of s]
  by (simp_all add: held_def holding_def set_lock_def cpuid_def intr_get_def mycpu_def)

lemma acquire_eq [kop_simps]: "lock_free lk s \<Longrightarrow> acquire lk s = Ret () (held lk s)"
  by (auto simp: acquire_def acquire_enter_def lock_free_def held_def holding_def Let_def
      test_and_set_def acquire_mark_def set_lock_def cpuid_def)

lemma acquire_busy:
  "locked (locks s lk) \<Longrightarrow> lcpu (locks s lk) \<noteq> Some (tp s) \<Longrightarrow> \<exists>t. acquire lk s = Wait t"
  by (simp add: acquire_def acquire_enter_def holding_def Let_def test_and_set_def cpuid_def)

lemma acquire_self:
  "holding lk s \<Longrightarrow> acquire lk s = Panic ''acquire''"
  by (simp add: acquire_def acquire_enter_def holding_def Let_def cpuid_def)

text \<open>The state after releasing a lock taken in state \<open>s\<close>, when the critical section ended
  in \<open>u\<close> and changed nothing of the machine.\<close>

definition unheld :: "'y machine_scheme \<Rightarrow> 'x machine_scheme \<Rightarrow> 'x machine_scheme" where
  "unheld s u = u\<lparr>sstatus := sstatus s, cpus := cpus (relax s), locks := locks s\<rparr>"

lemma release_held:
  assumes ok: "hart_ok s" and free: "lock_free lk s"
    and u: "tp u = tp s" "sstatus u = sstatus (held lk s)" "cpus u = cpus (held lk s)"
      "locks u = locks (held lk s)"
  shows "release lk u = Ret () (unheld s u)"
proof -
  let ?c = "cpus s (tp s)"
  have lk: "locks u = (locks s)(lk := (locks s lk)\<lparr>locked := True, lcpu := Some (tp s)\<rparr>)"
    by (simp add: u(4) held_def set_lock_def)
  have st: "sstatus u = (sstatus s)(tp s := sstatus s (tp s) AND NOT SSTATUS_SIE)"
    by (simp add: u(2) held_def set_lock_def push_off_def Let_def machine_defs)
  have cp: "cpus u = (cpus s)(tp s := ?c\<lparr>noff := noff ?c + 1,
      intena := (if noff ?c = 0 then intr_get s else intena ?c)\<rparr>)"
    by (auto simp: u(3) held_def set_lock_def push_off_def Let_def machine_defs)
  have lk0: "(locks s)(lk := (locks s lk)\<lparr>lcpu := None, locked := False\<rparr>) = locks s"
    using free by (auto simp: lock_free_def)
  have n: "0 \<le> noff ?c" and off: "0 < noff ?c \<Longrightarrow> sstatus s (tp s) AND SSTATUS_SIE = 0"
    using ok by (auto simp: hart_ok_def mycpu_def cpuid_def intr_get_def)
  show ?thesis
    using n off sie_restore [of "sstatus s (tp s)"]
    by (cases "noff ?c = 0"; cases "intr_get s")
      (auto simp: release_def release_enter_def lock_release_def pop_off_def Let_def holding_def
        machine_defs lk st cp u(1) unheld_def relax_def lk0 fun_upd_def [symmetric]
        intro!: machine.equality)
qed

lemma mframe_refl [simp, intro]: "mframe s s"
  by (simp add: mframe_def)

lemma mframe_trans [trans]: "mframe s t \<Longrightarrow> mframe t u \<Longrightarrow> mframe s u"
  by (simp add: mframe_def)

lemma mframe_hart:
  assumes "mframe s t"
  shows "hart_ok t = hart_ok s" "lock_free lk t = lock_free lk s" "tp t = tp s"
    "locks t = locks s" "cpu_proc (mycpu t) = cpu_proc (mycpu s)" "intr_get t = intr_get s"
  using assms by (auto simp: mframe_def hart_ok_def lock_free_def mycpu_def cpuid_def intr_get_def)

lemma relax_cpus:
  "noff (cpus (relax s) h) = noff (cpus s h)" "cpu_proc (cpus (relax s) h) = cpu_proc (cpus s h)"
  by (simp_all add: relax_def machine_defs)

lemma mframe_unheld: "tp u = tp s \<Longrightarrow> mframe s (unheld s u)"
  by (simp add: mframe_def unheld_def relax_cpus)

lemma unheld_proj [simp]:
  "tp (unheld s u) = tp u" "machine.more (unheld s u) = machine.more u"
  by (simp_all add: unheld_def)

lemma push_pop_off:
  assumes "hart_ok s"
  shows "pop_off (push_off s) = Ret () (relax s)"
proof -
  have "0 \<le> noff (cpus s (tp s))"
    "0 < noff (cpus s (tp s)) \<Longrightarrow> sstatus s (tp s) AND SSTATUS_SIE = 0"
    using assms by (auto simp: hart_ok_def mycpu_def cpuid_def intr_get_def)
  then show ?thesis
    using sie_restore [of "sstatus s (tp s)"]
    by (cases "noff (cpus s (tp s)) = 0"; cases "intr_get s")
      (auto simp: pop_off_def push_off_def Let_def machine_defs relax_def intro!: machine.equality)
qed

lemma mframe_relax: "mframe s (relax s)"
  using mframe_unheld [of s s] by (simp add: mframe_def relax_cpus) (simp add: relax_def machine_defs)

section \<open>All harts: mutual exclusion\<close>

text \<open>
  Every hart runs the pieces of \<open>acquire\<close> and \<open>release\<close> in program order; pieces of
  different harts interleave arbitrarily. \<open>phase\<close> is where a hart is: outside both
  functions, in the test-and-set loop, between a successful test-and-set and
  \<open>lk->cpu = mycpu()\<close>, or between \<open>lk->cpu = 0\<close> and clearing \<open>lk->locked\<close>.
  \<open>crit\<close> records, per hart, the locks whose \<open>acquire\<close> returned and whose
  \<open>release\<close> has not started.
\<close>

datatype phase = Running | Spinning lockid | Marking lockid | Clearing lockid

record smp =
  phase :: "nat \<Rightarrow> phase"
  crit :: "nat \<Rightarrow> lockid set"
  mach :: machine

definition on_hart :: "nat \<Rightarrow> machine \<Rightarrow> machine" where
  "on_hart h m = m\<lparr>tp := h\<rparr>"

definition smp_boot :: "machine \<Rightarrow> bool" where
  "smp_boot m \<longleftrightarrow> (\<forall>lk. lock_free lk m) \<and> (\<forall>h. noff (cpus m h) = 0)"

inductive smp_step :: "smp \<Rightarrow> smp \<Rightarrow> bool" where
  enter: "phase \<sigma> h = Running \<Longrightarrow> acquire_enter lk (on_hart h (mach \<sigma>)) = Ret () m \<Longrightarrow>
     smp_step \<sigma> (\<sigma>\<lparr>phase := (phase \<sigma>)(h := Spinning lk), mach := m\<rparr>)"
| spin: "phase \<sigma> h = Spinning lk \<Longrightarrow> test_and_set lk (on_hart h (mach \<sigma>)) = (True, m) \<Longrightarrow>
     smp_step \<sigma> (\<sigma>\<lparr>mach := m\<rparr>)"
| win: "phase \<sigma> h = Spinning lk \<Longrightarrow> test_and_set lk (on_hart h (mach \<sigma>)) = (False, m) \<Longrightarrow>
     smp_step \<sigma> (\<sigma>\<lparr>phase := (phase \<sigma>)(h := Marking lk), mach := m\<rparr>)"
| mark: "phase \<sigma> h = Marking lk \<Longrightarrow>
     smp_step \<sigma> (\<sigma>\<lparr>phase := (phase \<sigma>)(h := Running), crit := (crit \<sigma>)(h := insert lk (crit \<sigma> h)),
       mach := acquire_mark lk (on_hart h (mach \<sigma>))\<rparr>)"
| leave: "phase \<sigma> h = Running \<Longrightarrow> release_enter lk (on_hart h (mach \<sigma>)) = Ret () m \<Longrightarrow>
     smp_step \<sigma> (\<sigma>\<lparr>phase := (phase \<sigma>)(h := Clearing lk), crit := (crit \<sigma>)(h := crit \<sigma> h - {lk}),
       mach := m\<rparr>)"
| clear: "phase \<sigma> h = Clearing lk \<Longrightarrow>
     pop_off (lock_release lk (on_hart h (mach \<sigma>))) = Ret () m \<Longrightarrow>
     smp_step \<sigma> (\<sigma>\<lparr>phase := (phase \<sigma>)(h := Running), mach := m\<rparr>)"
| enable: "phase \<sigma> h = Running \<Longrightarrow> crit \<sigma> h = {} \<Longrightarrow>
     smp_step \<sigma> (\<sigma>\<lparr>mach := intr_on (on_hart h (mach \<sigma>))\<rparr>)"

inductive smp_reachable :: "smp \<Rightarrow> bool" where
  boot: "smp_boot m \<Longrightarrow> smp_reachable \<lparr>phase = (\<lambda>_. Running), crit = (\<lambda>_. {}), mach = m\<rparr>"
| step: "smp_reachable \<sigma> \<Longrightarrow> smp_step \<sigma> \<tau> \<Longrightarrow> smp_reachable \<tau>"

text \<open>A hart owns a lock from its successful test-and-set to the clearing of \<open>locked\<close>.\<close>

definition owns :: "smp \<Rightarrow> nat \<Rightarrow> lockid \<Rightarrow> bool" where
  "owns \<sigma> h lk \<longleftrightarrow> lk \<in> crit \<sigma> h \<or> phase \<sigma> h = Marking lk \<or> phase \<sigma> h = Clearing lk"

definition depth :: "smp \<Rightarrow> nat \<Rightarrow> int" where
  "depth \<sigma> h = int (card (crit \<sigma> h)) + (if phase \<sigma> h = Running then 0 else 1)"

definition smp_inv :: "smp \<Rightarrow> bool" where
  "smp_inv \<sigma> \<longleftrightarrow>
     (\<forall>h h' lk. owns \<sigma> h lk \<longrightarrow> owns \<sigma> h' lk \<longrightarrow> h = h') \<and>
     (\<forall>lk. locked (locks (mach \<sigma>) lk) \<longleftrightarrow> (\<exists>h. owns \<sigma> h lk)) \<and>
     (\<forall>h lk. lcpu (locks (mach \<sigma>) lk) = Some h \<longleftrightarrow> lk \<in> crit \<sigma> h) \<and>
     (\<forall>h lk. phase \<sigma> h = Marking lk \<or> phase \<sigma> h = Clearing lk \<longrightarrow> lk \<notin> crit \<sigma> h) \<and>
     (\<forall>h. finite (crit \<sigma> h)) \<and>
     (\<forall>h. noff (cpus (mach \<sigma>) h) = depth \<sigma> h) \<and>
     (\<forall>h. 0 < depth \<sigma> h \<longrightarrow> sstatus (mach \<sigma>) h AND SSTATUS_SIE = 0)"

lemma on_hart_proj [simp]:
  "tp (on_hart h m) = h" "locks (on_hart h m) = locks m" "cpus (on_hart h m) = cpus m"
  "sstatus (on_hart h m) = sstatus m"
  by (simp_all add: on_hart_def)

lemma push_off_effect:
  "noff (cpus (push_off s) h) = noff (cpus s h) + (if h = tp s then 1 else 0)"
  "sstatus (push_off s) = (sstatus s)(tp s := sstatus s (tp s) AND NOT SSTATUS_SIE)"
  by (auto simp: push_off_def Let_def machine_defs)

lemma enter_effect:
  "acquire_enter lk (on_hart h m) = Ret () m' \<longleftrightarrow>
     \<not> (locked (locks m lk) \<and> lcpu (locks m lk) = Some h) \<and> m' = push_off (on_hart h m)"
  by (auto simp: acquire_enter_def Let_def holding_def cpuid_def)

lemma leave_effect:
  "release_enter lk (on_hart h m) = Ret () m' \<longleftrightarrow>
     locked (locks m lk) \<and> lcpu (locks m lk) = Some h \<and>
     m' = set_lock lk ((locks m lk)\<lparr>lcpu := None\<rparr>) (on_hart h m)"
  by (auto simp: release_enter_def holding_def cpuid_def)

lemma pop_off_effect:
  assumes "pop_off s = Ret () t"
  shows "locks t = locks s" "noff (cpus t h) = noff (cpus s h) - (if h = tp s then 1 else 0)"
    "h \<noteq> tp s \<or> noff (cpus t h) \<noteq> 0 \<Longrightarrow> sstatus t h = sstatus s h"
    "1 \<le> noff (cpus s (tp s))" "sstatus s (tp s) AND SSTATUS_SIE = 0"
  using assms by (auto simp: pop_off_def Let_def machine_defs split: if_splits)

lemma smp_inv_boot:
  "smp_boot m \<Longrightarrow> smp_inv \<lparr>phase = (\<lambda>_. Running), crit = (\<lambda>_. {}), mach = m\<rparr>"
  by (simp add: smp_boot_def smp_inv_def owns_def depth_def lock_free_def)

lemma smp_inv_enter:
  assumes "smp_inv \<sigma>" "phase \<sigma> h = Running" "acquire_enter lk (on_hart h (mach \<sigma>)) = Ret () m"
  shows "smp_inv (\<sigma>\<lparr>phase := (phase \<sigma>)(h := Spinning lk), mach := m\<rparr>)"
proof -
  let ?t = "\<sigma>\<lparr>phase := (phase \<sigma>)(h := Spinning lk), mach := m\<rparr>"
  have m: "m = push_off (on_hart h (mach \<sigma>))" using assms(3) by (simp add: enter_effect)
  have owns: "owns ?t = owns \<sigma>" using assms(2) by (auto simp: owns_def fun_eq_iff)
  have depth: "depth ?t = (depth \<sigma>)(h := depth \<sigma> h + 1)"
    using assms(2) by (auto simp: depth_def fun_eq_iff)
  show ?thesis
    using assms(1,2) unfolding smp_inv_def owns depth
    by (auto simp: m push_off_effect)
qed

lemma smp_inv_win:
  assumes "smp_inv \<sigma>" "phase \<sigma> h = Spinning lk" "test_and_set lk (on_hart h (mach \<sigma>)) = (False, m)"
  shows "smp_inv (\<sigma>\<lparr>phase := (phase \<sigma>)(h := Marking lk), mach := m\<rparr>)"
proof -
  let ?t = "\<sigma>\<lparr>phase := (phase \<sigma>)(h := Marking lk), mach := m\<rparr>"
  have m: "m = set_lock lk ((locks (mach \<sigma>) lk)\<lparr>locked := True\<rparr>) (on_hart h (mach \<sigma>))"
    and free: "\<not> locked (locks (mach \<sigma>) lk)"
    using assms(3) by (auto simp: test_and_set_def)
  have none: "\<not> owns \<sigma> h' lk" for h' using assms(1) free by (auto simp: smp_inv_def)
  have owns: "owns ?t h' l \<longleftrightarrow> owns \<sigma> h' l \<or> h' = h \<and> l = lk" for h' l
    using assms(2) by (auto simp: owns_def)
  have depth: "depth ?t = depth \<sigma>"
    using assms(2) by (auto simp: depth_def fun_eq_iff)
  have "lk \<notin> crit \<sigma> h" using none [of h] by (auto simp: owns_def)
  then show ?thesis
    using assms(1,2) none unfolding smp_inv_def owns depth
    by (auto simp: m set_lock_def)
qed

lemma smp_inv_mark:
  assumes "smp_inv \<sigma>" "phase \<sigma> h = Marking lk"
  shows "smp_inv (\<sigma>\<lparr>phase := (phase \<sigma>)(h := Running), crit := (crit \<sigma>)(h := insert lk (crit \<sigma> h)),
       mach := acquire_mark lk (on_hart h (mach \<sigma>))\<rparr>)"
proof -
  let ?t = "\<sigma>\<lparr>phase := (phase \<sigma>)(h := Running), crit := (crit \<sigma>)(h := insert lk (crit \<sigma> h)),
       mach := acquire_mark lk (on_hart h (mach \<sigma>))\<rparr>"
  have own: "owns \<sigma> h lk" using assms(2) by (simp add: owns_def)
  have out: "lk \<notin> crit \<sigma> h'" for h'
    using assms own unfolding smp_inv_def owns_def by metis
  have owns: "owns ?t = owns \<sigma>" using assms(2) by (auto simp: owns_def fun_eq_iff)
  have "finite (crit \<sigma> h)" using assms(1) by (simp add: smp_inv_def)
  then have depth: "depth ?t = depth \<sigma>"
    using assms(2) out [of h] by (auto simp: depth_def fun_eq_iff)
  show ?thesis
    using assms(1) out unfolding smp_inv_def owns depth
    by (auto simp: acquire_mark_def set_lock_def cpuid_def)
qed

lemma smp_inv_leave:
  assumes "smp_inv \<sigma>" "phase \<sigma> h = Running" "release_enter lk (on_hart h (mach \<sigma>)) = Ret () m"
  shows "smp_inv (\<sigma>\<lparr>phase := (phase \<sigma>)(h := Clearing lk), crit := (crit \<sigma>)(h := crit \<sigma> h - {lk}), mach := m\<rparr>)"
proof -
  let ?t = "\<sigma>\<lparr>phase := (phase \<sigma>)(h := Clearing lk), crit := (crit \<sigma>)(h := crit \<sigma> h - {lk}), mach := m\<rparr>"
  have m: "m = set_lock lk ((locks (mach \<sigma>) lk)\<lparr>lcpu := None\<rparr>) (on_hart h (mach \<sigma>))"
    and cpu: "lcpu (locks (mach \<sigma>) lk) = Some h"
    using assms(3) by (auto simp: leave_effect)
  have mine: "lk \<in> crit \<sigma> h" using assms(1) cpu by (simp add: smp_inv_def)
  have others: "lk \<notin> crit \<sigma> h'" if "h' \<noteq> h" for h'
    using assms(1) mine that unfolding smp_inv_def owns_def by metis
  have owns: "owns ?t = owns \<sigma>" using assms(2) mine by (auto simp: owns_def fun_eq_iff)
  have "finite (crit \<sigma> h)" using assms(1) by (simp add: smp_inv_def)
  then have "0 < card (crit \<sigma> h)" using mine by (auto simp: card_gt_0_iff)
  then have depth: "depth ?t = depth \<sigma>"
    using assms(2) mine by (auto simp: depth_def fun_eq_iff card_Diff_singleton of_nat_diff)
  show ?thesis
    using assms(1) others unfolding smp_inv_def owns depth
    by (auto simp: m set_lock_def)
qed

lemma smp_inv_clear:
  assumes "smp_inv \<sigma>" "phase \<sigma> h = Clearing lk"
    "pop_off (lock_release lk (on_hart h (mach \<sigma>))) = Ret () m"
  shows "smp_inv (\<sigma>\<lparr>phase := (phase \<sigma>)(h := Running), mach := m\<rparr>)"
proof -
  let ?t = "\<sigma>\<lparr>phase := (phase \<sigma>)(h := Running), mach := m\<rparr>"
  note eff = pop_off_effect [OF assms(3)]
  have own: "owns \<sigma> h lk" using assms(2) by (simp add: owns_def)
  have owns: "owns ?t h' l \<longleftrightarrow> owns \<sigma> h' l \<and> l \<noteq> lk" for h' l
    using assms(1,2) own unfolding smp_inv_def owns_def
    by (cases "h' = h") auto
  have depth: "depth ?t = (depth \<sigma>)(h := depth \<sigma> h - 1)"
    using assms(2) by (auto simp: depth_def fun_eq_iff)
  show ?thesis
    using assms(1) unfolding smp_inv_def owns depth
    by (auto simp: eff lock_release_def set_lock_def)
qed

lemma smp_inv_step: "smp_step \<sigma> \<tau> \<Longrightarrow> smp_inv \<sigma> \<Longrightarrow> smp_inv \<tau>"
proof (induction rule: smp_step.induct)
  case (spin \<sigma> h lk m)
  then have "m = on_hart h (mach \<sigma>)"
    by (auto simp: test_and_set_def set_lock_def on_hart_def intro!: machine.equality)
  with spin.prems show ?case by (simp add: smp_inv_def owns_def depth_def)
next
  case (enable \<sigma> h)
  then show ?case by (simp add: smp_inv_def owns_def depth_def intr_on_def)
qed (simp_all add: smp_inv_enter smp_inv_win smp_inv_mark smp_inv_leave smp_inv_clear)

lemma smp_reachable_inv: "smp_reachable \<sigma> \<Longrightarrow> smp_inv \<sigma>"
  by (induction rule: smp_reachable.induct) (auto intro: smp_inv_boot smp_inv_step)

text \<open>The boot state: hart 0, interrupts off, every lock free.\<close>

definition boot_machine :: machine where
  "boot_machine = \<lparr>tp = 0, sstatus = (\<lambda>_. 0),
     cpus = (\<lambda>_. \<lparr>cpu_proc = None, noff = 0, intena = False\<rparr>),
     locks = (\<lambda>_. \<lparr>locked = False, lname = [], lcpu = None\<rparr>)\<rparr>"

lemma smp_boot_machine: "smp_boot boot_machine"
  by (simp add: smp_boot_def boot_machine_def lock_free_def)

text \<open>A run in which hart 1 takes \<open>kmem.lock\<close>.\<close>

lemma smp_reachable_held: "\<exists>\<sigma>. smp_reachable \<sigma> \<and> KmemLock \<in> crit \<sigma> 1 \<and> phase \<sigma> 1 = Running"
proof -
  let ?a = "\<lparr>phase = (\<lambda>_. Running), crit = (\<lambda>_. {}), mach = boot_machine\<rparr>"
  let ?b = "?a\<lparr>phase := (phase ?a)(1 := Spinning KmemLock), mach := push_off (on_hart 1 boot_machine)\<rparr>"
  let ?m = "set_lock KmemLock ((locks (mach ?b) KmemLock)\<lparr>locked := True\<rparr>) (on_hart 1 (mach ?b))"
  let ?c = "?b\<lparr>phase := (phase ?b)(1 := Marking KmemLock), mach := ?m\<rparr>"
  let ?d = "?c\<lparr>phase := (phase ?c)(1 := Running), crit := (crit ?c)(1 := insert KmemLock (crit ?c 1)),
       mach := acquire_mark KmemLock (on_hart 1 (mach ?c))\<rparr>"
  have a: "smp_reachable ?a" by (rule smp_reachable.boot [OF smp_boot_machine])
  have "smp_step ?a ?b" by (rule smp_step.enter) (simp_all add: enter_effect boot_machine_def)
  with a have b: "smp_reachable ?b" by (rule smp_reachable.step)
  have "smp_step ?b ?c"
    by (rule smp_step.win) (simp_all add: test_and_set_def boot_machine_def)
  with b have c: "smp_reachable ?c" by (rule smp_reachable.step)
  have "smp_step ?c ?d" by (rule smp_step.mark) simp
  with c have "smp_reachable ?d" by (rule smp_reachable.step)
  then show ?thesis by (intro exI [of _ ?d]) simp
qed

text \<open>
  C4. Mutual exclusion and accuracy of \<open>holding\<close>, for any number of harts interleaving the
  atomic pieces of \<open>acquire\<close> and \<open>release\<close>: at most one hart is between the return of
  its \<open>acquire(lk)\<close> and its call of \<open>release(lk)\<close>; on a hart outside both functions,
  \<open>holding(lk)\<close> answers exactly whether that hart is; interrupts are off on a hart as long as
  it holds, waits for or is releasing a lock.
\<close>

theorem spinlock_mutual_exclusion:
  assumes "smp_reachable \<sigma>"
  shows "(lk \<in> crit \<sigma> h \<and> lk \<in> crit \<sigma> h' \<longrightarrow> h = h') \<and>
    holding lk (on_hart h (mach \<sigma>)) = (lk \<in> crit \<sigma> h) \<and>
    (crit \<sigma> h \<noteq> {} \<or> phase \<sigma> h \<noteq> Running \<longrightarrow> \<not> intr_get (on_hart h (mach \<sigma>)))"
proof (intro conjI impI)
  note inv = smp_reachable_inv [OF assms, unfolded smp_inv_def]
  show "h = h'" if "lk \<in> crit \<sigma> h \<and> lk \<in> crit \<sigma> h'"
    using inv that unfolding owns_def by metis
  show "holding lk (on_hart h (mach \<sigma>)) = (lk \<in> crit \<sigma> h)"
    using inv by (auto simp: holding_def cpuid_def owns_def)
  show "\<not> intr_get (on_hart h (mach \<sigma>))" if "crit \<sigma> h \<noteq> {} \<or> phase \<sigma> h \<noteq> Running"
  proof -
    have "0 < depth \<sigma> h"
      using inv that by (auto simp: depth_def card_gt_0_iff)
    then show ?thesis using inv by (simp add: intr_get_def)
  qed
qed

theorem spinlock_mutual_exclusion_witness:
  "\<exists>\<sigma>. smp_reachable \<sigma> \<and> KmemLock \<in> crit \<sigma> 1 \<and> (KmemLock \<in> crit \<sigma> 0 \<longrightarrow> (1::nat) = 0) \<and>
     holding KmemLock (on_hart 1 (mach \<sigma>)) \<and> \<not> intr_get (on_hart 1 (mach \<sigma>))"
proof -
  obtain \<sigma> where s: "smp_reachable \<sigma>" "KmemLock \<in> crit \<sigma> 1"
    using smp_reachable_held by blast
  show ?thesis
    using s spinlock_mutual_exclusion [OF s(1), of KmemLock 1 0] by (intro exI [of _ \<sigma>]) auto
qed

text \<open>
  C26. The panics of \<open>spinlock.c\<close> are unreachable for well-nested use: \<open>acquire\<close> of a lock
  the hart does not hold, \<open>release\<close> of one it holds, and the \<open>pop_off\<close> at the end of
  \<open>release\<close> all return, whatever the other harts do.
\<close>

theorem spinlock_no_panic:
  assumes "smp_reachable \<sigma>"
  shows "(lk \<notin> crit \<sigma> h \<longrightarrow> returns (acquire_enter lk (on_hart h (mach \<sigma>)))) \<and>
    (lk \<in> crit \<sigma> h \<longrightarrow> returns (release_enter lk (on_hart h (mach \<sigma>)))) \<and>
    (phase \<sigma> h = Clearing lk \<longrightarrow> returns (pop_off (lock_release lk (on_hart h (mach \<sigma>)))))"
proof (intro conjI impI)
  note inv = smp_reachable_inv [OF assms, unfolded smp_inv_def]
  have hold: "holding lk (on_hart h (mach \<sigma>)) = (lk \<in> crit \<sigma> h)"
    using inv by (auto simp: holding_def cpuid_def owns_def)
  show "returns (acquire_enter lk (on_hart h (mach \<sigma>)))" if "lk \<notin> crit \<sigma> h"
    using hold that by (simp add: acquire_enter_def Let_def holding_def cpuid_def)
  show "returns (release_enter lk (on_hart h (mach \<sigma>)))" if "lk \<in> crit \<sigma> h"
    using hold that by (simp add: release_enter_def)
  show "returns (pop_off (lock_release lk (on_hart h (mach \<sigma>))))" if "phase \<sigma> h = Clearing lk"
  proof -
    have "0 < depth \<sigma> h" using that by (simp add: depth_def)
    then show ?thesis
      using inv by (simp add: pop_off_def lock_release_def machine_defs Let_def)
  qed
qed

theorem spinlock_no_panic_witness:
  "\<exists>\<sigma>. smp_reachable \<sigma> \<and> returns (release_enter KmemLock (on_hart 1 (mach \<sigma>))) \<and>
     returns (acquire_enter PidLock (on_hart 1 boot_machine))"
proof -
  obtain \<sigma> where s: "smp_reachable \<sigma>" "KmemLock \<in> crit \<sigma> 1"
    using smp_reachable_held by blast
  have "smp_reachable \<lparr>phase = (\<lambda>_. Running), crit = (\<lambda>_. {}), mach = boot_machine\<rparr>"
    by (rule smp_reachable.boot [OF smp_boot_machine])
  from spinlock_no_panic [OF this, of PidLock 1] spinlock_no_panic [OF s(1), of KmemLock 1] s
  show ?thesis by (intro exI [of _ \<sigma>]) auto
qed

end
