(* ===== verification/Kstring.thy ===== *)
theory Kstring
  imports Riscv
begin

text \<open>
  \<open>src/kernel/string.c\<close>. \<open>memset\<close>, \<open>memcmp\<close> and \<open>memmove\<close> run on the byte
  memory; the string routines run on byte lists, which stand for the bytes of a C array from
  a pointer on (reading past the end of the list reads the terminating NUL). Each loop is
  related to a closed form: the memory after \<open>memset\<close> and \<open>memmove\<close>, overlapping
  ranges included, the padded copy of \<open>strncpy\<close>, the bounded copy of \<open>safestrcpy\<close>.
\<close>

section \<open>Memory routines\<close>

function memset_loop :: "memory \<Rightarrow> uint64 \<Rightarrow> uint8 \<Rightarrow> nat \<Rightarrow> nat \<Rightarrow> memory" where
  "memset_loop m dst c i n =
     (if i < n then memset_loop (m(dst + of_nat i := c)) dst c (Suc i) n else m)"
  by pat_completeness auto
termination
  by (relation "measure (\<lambda>(m, dst, c, i, n). n - i)") auto

declare memset_loop.simps [simp del]

definition memset :: "memory \<Rightarrow> uint64 \<Rightarrow> uint32 \<Rightarrow> uint32 \<Rightarrow> memory" where
  "memset m dst c n = memset_loop m dst (ucast c) 0 (unat n)"

fun memcmp_loop :: "memory \<Rightarrow> uint64 \<Rightarrow> uint64 \<Rightarrow> nat \<Rightarrow> int" where
  "memcmp_loop m s1 s2 0 = 0"
| "memcmp_loop m s1 s2 (Suc n) =
     (if m s1 \<noteq> m s2 then uint (m s1) - uint (m s2)
      else memcmp_loop m (s1 + 1) (s2 + 1) n)"

definition memcmp :: "memory \<Rightarrow> uint64 \<Rightarrow> uint64 \<Rightarrow> uint32 \<Rightarrow> int" where
  "memcmp m v1 v2 n = memcmp_loop m v1 v2 (unat n)"

fun copy_up :: "memory \<Rightarrow> uint64 \<Rightarrow> uint64 \<Rightarrow> nat \<Rightarrow> memory" where
  "copy_up m d s 0 = m"
| "copy_up m d s (Suc n) = copy_up (m(d := m s)) (d + 1) (s + 1) n"

fun copy_down :: "memory \<Rightarrow> uint64 \<Rightarrow> uint64 \<Rightarrow> nat \<Rightarrow> memory" where
  "copy_down m d s 0 = m"
| "copy_down m d s (Suc n) = copy_down (m(d - 1 := m (s - 1))) (d - 1) (s - 1) n"

definition memmove :: "memory \<Rightarrow> uint64 \<Rightarrow> uint64 \<Rightarrow> uint32 \<Rightarrow> memory" where
  "memmove m dst src n =
     (if n = 0 then m
      else if src < dst \<and> src + ucast n > dst
        then copy_down m (dst + ucast n) (src + ucast n) (unat n)
        else copy_up m dst src (unat n))"

section \<open>String routines\<close>

fun chd :: "uint8 list \<Rightarrow> uint8" where
  "chd [] = 0"
| "chd (c # cs) = c"

fun strncmp :: "uint8 list \<Rightarrow> uint8 list \<Rightarrow> nat \<Rightarrow> int" where
  "strncmp p q 0 = 0"
| "strncmp p q (Suc n) =
     (if chd p \<noteq> 0 \<and> chd p = chd q then strncmp (tl p) (tl q) n
      else uint (chd p) - uint (chd q))"

fun zero_fill :: "uint8 list \<Rightarrow> nat \<Rightarrow> nat \<Rightarrow> uint8 list" where
  "zero_fill s i 0 = s"
| "zero_fill s i (Suc n) = zero_fill (s[i := 0]) (Suc i) n"

fun strncpy_loop :: "uint8 list \<Rightarrow> nat \<Rightarrow> uint8 list \<Rightarrow> nat \<Rightarrow> uint8 list" where
  "strncpy_loop s i t 0 = s"
| "strncpy_loop s i t (Suc n) =
     (if chd t \<noteq> 0 then strncpy_loop (s[i := chd t]) (Suc i) (tl t) n
      else zero_fill (s[i := chd t]) (Suc i) n)"

definition strncpy :: "uint8 list \<Rightarrow> uint8 list \<Rightarrow> nat \<Rightarrow> uint8 list" where
  "strncpy s t n = strncpy_loop s 0 t n"

fun safestrcpy_loop :: "uint8 list \<Rightarrow> nat \<Rightarrow> uint8 list \<Rightarrow> nat \<Rightarrow> uint8 list" where
  "safestrcpy_loop s i t 0 = s[i := 0]"
| "safestrcpy_loop s i t (Suc n) =
     (if chd t \<noteq> 0 then safestrcpy_loop (s[i := chd t]) (Suc i) (tl t) n
      else s[i := chd t, Suc i := 0])"

definition safestrcpy :: "uint8 list \<Rightarrow> uint8 list \<Rightarrow> nat \<Rightarrow> uint8 list" where
  "safestrcpy s t n = (if n = 0 then s else safestrcpy_loop s 0 t (n - 1))"

fun strlen :: "uint8 list \<Rightarrow> nat" where
  "strlen [] = 0"
| "strlen (c # cs) = (if c \<noteq> 0 then Suc (strlen cs) else 0)"

text \<open>The characters before the first NUL.\<close>

definition cstr :: "uint8 list \<Rightarrow> uint8 list" where
  "cstr s = takeWhile (\<lambda>c. c \<noteq> 0) s"

definition memcpy :: "memory \<Rightarrow> uint64 \<Rightarrow> uint64 \<Rightarrow> uint32 \<Rightarrow> memory" where
  "memcpy m dst src n = memmove m dst src n"

text \<open>Kernel objects outside the allocated pages are not part of the byte memory. Copying one of
  them into memory writes its bytes; for a source in memory this is \<open>memmove\<close>, as
  \<open>memmove_put_bytes\<close> below shows.\<close>

definition put_bytes :: "memory \<Rightarrow> uint64 \<Rightarrow> uint8 list \<Rightarrow> memory" where
  "put_bytes m dst bs = (\<lambda>a. if unat (a - dst) < length bs then bs ! unat (a - dst) else m a)"

section \<open>Closed forms\<close>

lemma memset_loop_eq:
  assumes "n \<le> 2 ^ 64"
  shows "memset_loop m dst c i n =
    (\<lambda>a. if i \<le> unat (a - dst) \<and> unat (a - dst) < n then c else m a)"
  using assms
proof (induction m dst c i n rule: memset_loop.induct)
  case (1 m dst c i n)
  show ?case
  proof (cases "i < n")
    case True
    have here: "(a = dst + of_nat i) = (unat (a - dst) = i)" for a
      using True "1.prems" by (intro eq_add_of_nat) simp
    have IH: "memset_loop (m(dst + of_nat i := c)) dst c (Suc i) n =
        (\<lambda>a. if Suc i \<le> unat (a - dst) \<and> unat (a - dst) < n then c else (m(dst + of_nat i := c)) a)"
      using True "1.prems" by (rule "1.IH")
    show ?thesis
      using True by (subst memset_loop.simps) (auto simp: IH here fun_eq_iff)
  next
    case False
    then show ?thesis by (subst memset_loop.simps) (auto simp: fun_eq_iff)
  qed
qed

lemma memset_eq [mem_facts]:
  "memset m dst c n = (\<lambda>a. if unat (a - dst) < unat n then ucast c else m a)"
proof -
  have "unat n < 2 ^ LENGTH(32)" by (rule unsigned_less)
  then have "unat n \<le> 2 ^ 64" by simp
  then show ?thesis by (simp add: memset_def memset_loop_eq)
qed


lemma copy_up_eq:
  assumes "n \<le> 2 ^ 64" and "\<And>i j. i < j \<Longrightarrow> j < n \<Longrightarrow> d + of_nat i \<noteq> s + of_nat j"
  shows "copy_up m d s n = (\<lambda>a. if unat (a - d) < n then m (s + (a - d)) else m a)"
  using assms
proof (induction m d s n rule: copy_up.induct)
  case (1 m d s)
  then show ?case by simp
next
  case (2 m d s n)
  have IH: "copy_up (m(d := m s)) (d + 1) (s + 1) n =
      (\<lambda>a. if unat (a - (d + 1)) < n then (m(d := m s)) (s + 1 + (a - (d + 1))) else (m(d := m s)) a)"
  proof (rule "2.IH")
    show "n \<le> 2 ^ 64" using "2.prems"(1) by simp
    fix i j assume "i < j" "j < n"
    then show "d + 1 + of_nat i \<noteq> s + 1 + of_nat j"
      using "2.prems"(2) [of "Suc i" "Suc j"] by (simp add: algebra_simps)
  qed
  show ?case
  proof (rule ext)
    fix a
    show "copy_up m d s (Suc n) a = (if unat (a - d) < Suc n then m (s + (a - d)) else m a)"
    proof (cases "a = d")
      case True
      moreover have "\<not> unat (a - (d + 1)) < n"
        using True "2.prems"(1) by (simp add: unsigned_minus_1_eq_mask mask_eq_exp_minus_1)
      ultimately show ?thesis by (simp add: IH)
    next
      case False
      then have "a - d \<noteq> 0" by simp
      then have pred: "unat (a - (d + 1)) = unat (a - d) - 1" "0 < unat (a - d)"
        by (simp_all add: unat_minus_one diff_diff_eq [symmetric] unat_gt_0)
      have "s + (a - d) \<noteq> d" if "unat (a - d) < Suc n"
        using "2.prems"(2) [of 0 "unat (a - d)"] that pred by auto
      with False pred show ?thesis by (auto simp: IH)
    qed
  qed
qed

lemma copy_down_eq:
  assumes "n \<le> 2 ^ 64" and "\<And>i j. i < j \<Longrightarrow> j < n \<Longrightarrow> d + of_nat j \<noteq> s + of_nat i"
  shows "copy_down m (d + of_nat n) (s + of_nat n) n =
    (\<lambda>a. if unat (a - d) < n then m (s + (a - d)) else m a)"
  using assms
proof (induction n arbitrary: m)
  case 0
  then show ?case by simp
next
  case (Suc n)
  let ?m = "m(d + of_nat n := m (s + of_nat n))"
  have IH: "copy_down ?m (d + of_nat n) (s + of_nat n) n =
      (\<lambda>a. if unat (a - d) < n then ?m (s + (a - d)) else ?m a)"
    using Suc.prems by (intro Suc.IH) auto
  have here: "(a = d + of_nat n) = (unat (a - d) = n)" for a
    using Suc.prems(1) by (intro eq_add_of_nat) simp
  have keep: "s + (a - d) \<noteq> d + of_nat n" if "unat (a - d) < n" for a
    using Suc.prems(2) [of "unat (a - d)" n] that by auto
  show ?case
    by (rule ext) (use keep in \<open>auto simp: IH here less_Suc_eq algebra_simps\<close>)
qed

lemma memmove_eq:
  assumes "unat src + unat n < 2 ^ 64" and "unat dst + unat n \<le> 2 ^ 64"
  shows "memmove m dst src n =
    (\<lambda>a. if unat (a - dst) < unat n then m (src + (a - dst)) else m a)"
proof -
  have "unat n < 2 ^ LENGTH(32)" by (rule unsigned_less)
  then have n: "unat n \<le> 2 ^ 64" by simp
  have src_n: "unat (src + ucast n) = unat src + unat n"
    using assms(1) by (simp add: unat_word_ariths)
  have lt: "(src < dst \<and> src + ucast n > dst) = (unat src < unat dst \<and> unat dst < unat src + unat n)"
    by (simp add: word_less_nat_alt src_n)
  have at: "unat (src + of_nat j) = unat src + j" "unat (dst + of_nat j) = unat dst + j"
    if "j < unat n" for j
    using that assms by (simp_all add: unat_word_ariths unat_of_nat)
  show ?thesis
  proof (cases "unat src < unat dst \<and> unat dst < unat src + unat n")
    case True
    have "copy_down m (dst + of_nat (unat n)) (src + of_nat (unat n)) (unat n) =
      (\<lambda>a. if unat (a - dst) < unat n then m (src + (a - dst)) else m a)"
    proof (rule copy_down_eq [OF n])
      fix i j assume "i < j" "j < unat n"
      then show "dst + of_nat j \<noteq> src + of_nat i"
        using True at [of i] at [of j] by (auto simp: word_unat_eq_iff)
    qed
    with True show ?thesis by (auto simp: memmove_def lt)
  next
    case False
    have "copy_up m dst src (unat n) =
      (\<lambda>a. if unat (a - dst) < unat n then m (src + (a - dst)) else m a)"
    proof (rule copy_up_eq [OF n])
      fix i j assume "i < j" "j < unat n"
      then show "dst + of_nat i \<noteq> src + of_nat j"
        using False at [of i] at [of j] by (auto simp: word_unat_eq_iff)
    qed
    with False show ?thesis by (auto simp: memmove_def lt)
  qed
qed

lemma memmove_put_bytes:
  assumes "unat src + unat n < 2 ^ 64" and "unat dst + unat n \<le> 2 ^ 64"
  shows "memmove m dst src n = put_bytes m dst (bytes_at m src (unat n))"
  by (auto simp: memmove_eq [OF assms] put_bytes_def fun_eq_iff)

lemma memcmp_loop_zero:
  "memcmp_loop m s1 s2 n = 0 \<longleftrightarrow> (\<forall>i < n. m (s1 + of_nat i) = m (s2 + of_nat i))"
proof (induction m s1 s2 n rule: memcmp_loop.induct)
  case (2 m s1 s2 n)
  have "m s1 \<noteq> m s2 \<Longrightarrow> uint (m s1) \<noteq> uint (m s2)" by (simp add: word_uint_eq_iff)
  with 2 show ?case by (simp add: All_less_Suc2 algebra_simps)
qed simp

section \<open>Strings\<close>

lemma cstr_simps [simp]:
  "cstr [] = []" "cstr (c # cs) = (if c = 0 then [] else c # cstr cs)"
  by (simp_all add: cstr_def)

lemma strlen_cstr: "strlen s = length (cstr s)"
  by (induction s) auto

lemma cstr_chd: "cstr p = (if chd p = 0 then [] else chd p # cstr (tl p))"
  by (cases p) auto

lemma strncmp_zero: "strncmp p q n = 0 \<longleftrightarrow> take n (cstr p) = take n (cstr q)"
proof (induction p q n rule: strncmp.induct)
  case (2 p q n)
  have "uint (chd p) = uint (chd q) \<longleftrightarrow> chd p = chd q" by (simp add: word_uint_eq_iff)
  with 2 show ?case
    by (simp only: cstr_chd [of p] cstr_chd [of q]) auto
qed simp

lemma zero_fill_eq:
  "i + n \<le> length s \<Longrightarrow> zero_fill s i n = take i s @ replicate n 0 @ drop (i + n) s"
proof (induction s i n rule: zero_fill.induct)
  case (2 s i n)
  then have "zero_fill (s[i := 0]) (Suc i) n =
      take (Suc i) (s[i := 0]) @ replicate n 0 @ drop (Suc i + n) (s[i := 0])"
    by simp
  with 2 show ?case by (simp add: take_Suc_conv_app_nth)
qed simp

lemma strncpy_loop_eq:
  "i + n \<le> length s \<Longrightarrow> strncpy_loop s i t n =
     take i s @ take n (cstr t) @ replicate (n - length (cstr t)) 0 @ drop (i + n) s"
proof (induction s i t n rule: strncpy_loop.induct)
  case (2 s i t n)
  show ?case
  proof (cases "chd t = 0")
    case True
    then have "cstr t = []" by (subst cstr_chd) simp
    with True 2 show ?thesis by (simp add: zero_fill_eq take_Suc_conv_app_nth)
  next
    case False
    then have "cstr t = chd t # cstr (tl t)" by (subst cstr_chd) simp
    with False 2 show ?thesis by (simp add: take_Suc_conv_app_nth)
  qed
qed simp

lemma strncpy_eq:
  "n \<le> length s \<Longrightarrow> strncpy s t n =
     take n (cstr t) @ replicate (n - length (cstr t)) 0 @ drop n s"
  by (simp add: strncpy_def strncpy_loop_eq)

lemma cstr_no_nul: "0 \<notin> set (cstr s)"
  by (auto simp: cstr_def dest: set_takeWhileD)

lemma cstr_append_nul: "0 \<notin> set xs \<Longrightarrow> cstr (xs @ 0 # ys) = xs"
  by (induction xs) auto

lemma cstr_id: "0 \<notin> set xs \<Longrightarrow> cstr xs = xs"
  by (induction xs) auto

lemma take_cstr_strncpy:
  assumes "length s = n"
  shows "take n (cstr (strncpy s t n)) = take n (cstr t)"
proof (cases "n \<le> length (cstr t)")
  case True
  have "0 \<notin> set (take n (cstr t))"
    using cstr_no_nul [of t] by (meson in_set_takeD)
  with True assms show ?thesis by (simp add: strncpy_eq cstr_id)
next
  case False
  then obtain k where "n - length (cstr t) = Suc k"
    by (metis Suc_diff_Suc not_less)
  with False assms cstr_no_nul [of t] show ?thesis
    by (simp add: strncpy_eq cstr_append_nul)
qed

lemma safestrcpy_loop_eq:
  "i + n < length s \<Longrightarrow> cstr (drop i (safestrcpy_loop s i t n)) = take n (cstr t)
     \<and> take i (safestrcpy_loop s i t n) = take i s \<and> length (safestrcpy_loop s i t n) = length s"
proof (induction s i t n rule: safestrcpy_loop.induct)
  case (1 s i t)
  then show ?case by (simp add: Cons_nth_drop_Suc [symmetric])
next
  case (2 s i t n)
  show ?case
  proof (cases "chd t = 0")
    case True
    then have "cstr t = []" by (subst cstr_chd) simp
    with True 2 show ?thesis by (simp add: Cons_nth_drop_Suc [symmetric])
  next
    case False
    let ?r = "safestrcpy_loop (s[i := chd t]) (Suc i) (tl t) n"
    have IH: "cstr (drop (Suc i) ?r) = take n (cstr (tl t))" "take (Suc i) ?r = take (Suc i) (s[i := chd t])"
      "length ?r = length s"
      using "2.IH" False "2.prems" by simp_all
    have "?r ! i = chd t"
      using arg_cong [OF IH(2), of "\<lambda>l. l ! i"] "2.prems" by simp
    then have "drop i ?r = chd t # drop (Suc i) ?r"
      using IH(3) "2.prems" by (simp add: Cons_nth_drop_Suc [symmetric])
    moreover have "cstr t = chd t # cstr (tl t)" using False by (subst cstr_chd) simp
    moreover have "take i ?r = take i s"
      using arg_cong [OF IH(2), of "take i"] by (simp add: min_def)
    ultimately show ?thesis using False IH by simp
  qed
qed


section \<open>Properties\<close>

text \<open>
  C29. \<open>memmove\<close> of a range that does not run past the end of the address space copies it
  exactly, overlapping ranges in either direction included: afterwards every destination byte
  holds what the source byte held before, and no other byte has changed. \<open>memcmp\<close> then
  finds the ranges equal when they do not overlap.
\<close>

theorem memmove_copies:
  assumes "unat src + unat n < 2 ^ 64" "unat dst + unat n \<le> 2 ^ 64"
  shows "(\<forall>i<unat n. memmove m dst src n (dst + of_nat i) = m (src + of_nat i)) \<and>
    (\<forall>a. \<not> unat (a - dst) < unat n \<longrightarrow> memmove m dst src n a = m a) \<and>
    ((\<forall>i<unat n. \<not> unat (src + of_nat i - dst) < unat n) \<longrightarrow>
       memcmp (memmove m dst src n) dst src n = 0)"
proof -
  have "unat n < 2 ^ LENGTH(32)" by (rule unsigned_less)
  then have n: "unat n < 2 ^ 64" by simp
  have u: "unat (of_nat i :: uint64) = i" if "i < unat n" for i
    using that n by (simp add: unat_of_nat)
  show ?thesis
    by (auto simp: memmove_eq [OF assms] memcmp_def memcmp_loop_zero u)
qed

theorem memmove_copies_witness:
  "memmove (\<lambda>a. ucast a) 0x1002 0x1000 4 (0x1002 + of_nat 3) = ucast (0x1000 + of_nat 3 :: uint64)"
proof -
  have "(3 :: nat) < unat (4 :: uint32)" by simp
  then show ?thesis using memmove_copies [of "0x1000" 4 "0x1002" "\<lambda>a. ucast a"] by (simp del: of_nat_numeral)
qed



end
