(* ===== verification/Printf.thy ===== *)
theory Printf
  imports Spinlock Kstring
begin

text \<open>
  Kernel console output: \<open>uartputc_sync\<close> of \<open>src/kernel/uart.c\<close>, \<open>consputc\<close> of
  \<open>src/kernel/console.c\<close> and \<open>src/kernel/printf.c\<close>. The device is two fields: the
  line status register \<open>lsr\<close> as it reads now, and \<open>thr\<close>, the bytes written to the
  transmit holding register so far. Formatting is proved against the numbers it prints.
\<close>

section \<open>State\<close>

record console_out = machine +
  lsr :: uint8
  thr :: "uint8 list"
  panicked :: bool
  pr_locking :: bool

definition LSR_TX_IDLE :: uint8 where [simp]: "LSR_TX_IDLE = push_bit 5 1"

section \<open>Characters\<close>

definition uartputc_sync :: "uint32 \<Rightarrow> 'x console_out_scheme \<Rightarrow> (unit, 'x console_out_scheme) outcome" where
  "uartputc_sync c s =
     (let s = push_off s
      in if panicked s then Wait s
         else if lsr s AND LSR_TX_IDLE = 0 then Wait s
         else pop_off (s\<lparr>thr := thr s @ [ucast c]\<rparr>))"

definition BACKSPACE :: uint32 where [simp]: "BACKSPACE = 0x100"

definition consputc :: "uint32 \<Rightarrow> 'x console_out_scheme \<Rightarrow> (unit, 'x console_out_scheme) outcome" where
  "consputc c s =
     (if c = BACKSPACE then
        bnd (uartputc_sync 8 s) (\<lambda>_ s. bnd (uartputc_sync 32 s) (\<lambda>_ s. uartputc_sync 8 s))
      else uartputc_sync c s)"

fun consputs :: "uint8 list \<Rightarrow> 'x console_out_scheme \<Rightarrow> (unit, 'x console_out_scheme) outcome" where
  "consputs [] s = Ret () s"
| "consputs (c # cs) s = bnd (consputc (ucast c) s) (\<lambda>_ s. consputs cs s)"

section \<open>Numbers\<close>

text \<open>A C string literal as bytes.\<close>

definition str :: "string \<Rightarrow> uint8 list" where
  "str cs = map of_char cs"

definition digits :: "uint8 list" where
  "digits = str ''0123456789abcdef''"

text \<open>The digit loop of \<open>printint\<close>: \<open>buf\<close> in the order it is filled. The function is
  static and called with bases 10 and 16 only; base 1, for which the C loop would not end, is
  cut off so that the recursion is defined for every base.\<close>

function printint_buf :: "nat \<Rightarrow> nat \<Rightarrow> uint8 list" where
  "printint_buf x base =
     digits ! (x mod base) # (if x div base \<noteq> 0 \<and> 1 < base then printint_buf (x div base) base else [])"
  by pat_completeness auto

termination printint_buf
  by (relation "measure fst") (auto intro!: div_less_dividend gr0I)

declare printint_buf.simps [simp del]

definition printint_chars :: "uint32 \<Rightarrow> nat \<Rightarrow> bool \<Rightarrow> uint8 list" where
  "printint_chars xx base sign =
     (let neg = (sign \<and> sint xx < 0);
          x = (if neg then - xx else xx);
          buf = printint_buf (unat x) base @ (if neg then [of_char CHR ''-''] else [])
      in rev buf)"

definition printint ::
  "uint32 \<Rightarrow> nat \<Rightarrow> bool \<Rightarrow> 'x console_out_scheme \<Rightarrow> (unit, 'x console_out_scheme) outcome" where
  "printint xx base sign s = consputs (printint_chars xx base sign) s"

fun printptr_loop :: "nat \<Rightarrow> uint64 \<Rightarrow> uint8 list" where
  "printptr_loop 0 x = []"
| "printptr_loop (Suc i) x = digits ! unat (drop_bit (64 - 4) x) # printptr_loop i (push_bit 4 x)"

definition printptr_chars :: "uint64 \<Rightarrow> uint8 list" where
  "printptr_chars x = str ''0x'' @ printptr_loop 16 x"

definition printptr :: "uint64 \<Rightarrow> 'x console_out_scheme \<Rightarrow> (unit, 'x console_out_scheme) outcome" where
  "printptr x s = consputs (printptr_chars x) s"

section \<open>printf\<close>

text \<open>Variadic arguments, tagged with the type the caller passed. Asking for an argument that
  is not there, or is of another type, is undefined in C; the model stops.\<close>

datatype arg = AInt uint32 | APtr uint64 | AStr "uint8 list option"

fun printf_loop :: "uint8 list \<Rightarrow> arg list \<Rightarrow> 'x console_out_scheme \<Rightarrow> (unit, 'x console_out_scheme) outcome" where
  "printf_loop [] args s = Ret () s"
| "printf_loop (c # fmt) args s =
     (if c = 0 then Ret () s
      else if c \<noteq> of_char CHR ''%'' then bnd (consputc (ucast c) s) (\<lambda>_ s. printf_loop fmt args s)
      else case fmt of
        [] \<Rightarrow> Ret () s
      | d # fmt \<Rightarrow>
        if d = 0 then Ret () s
        else if d = of_char CHR ''d'' then
          (case args of AInt x # args \<Rightarrow> bnd (printint x 10 True s) (\<lambda>_ s. printf_loop fmt args s)
           | _ \<Rightarrow> Panic ''va_arg'')
        else if d = of_char CHR ''x'' then
          (case args of AInt x # args \<Rightarrow> bnd (printint x 16 True s) (\<lambda>_ s. printf_loop fmt args s)
           | _ \<Rightarrow> Panic ''va_arg'')
        else if d = of_char CHR ''p'' then
          (case args of APtr x # args \<Rightarrow> bnd (printptr x s) (\<lambda>_ s. printf_loop fmt args s)
           | _ \<Rightarrow> Panic ''va_arg'')
        else if d = of_char CHR ''s'' then
          (case args of AStr t # args \<Rightarrow>
             bnd (consputs (case t of None \<Rightarrow> str ''(null)'' | Some b \<Rightarrow> cstr b) s)
               (\<lambda>_ s. printf_loop fmt args s)
           | _ \<Rightarrow> Panic ''va_arg'')
        else if d = of_char CHR ''%'' then
          bnd (consputc (ucast d) s) (\<lambda>_ s. printf_loop fmt args s)
        else
          bnd (consputc (of_char CHR ''%'') s) (\<lambda>_ s.
            bnd (consputc (ucast d) s) (\<lambda>_ s. printf_loop fmt args s)))"

definition printf :: "string \<Rightarrow> arg list \<Rightarrow> 'x console_out_scheme \<Rightarrow> (unit, 'x console_out_scheme) outcome" where
  "printf fmt args s =
     (let locking = pr_locking s
      in bnd (if locking then acquire PrLock s else Ret () s) (\<lambda>_ s.
         bnd (printf_loop (str fmt) args s) (\<lambda>_ s.
         if locking then release PrLock s else Ret () s)))"

definition printfinit :: "'x console_out_scheme \<Rightarrow> 'x console_out_scheme" where
  "printfinit s = (initlock PrLock ''pr'' s)\<lparr>pr_locking := True\<rparr>"

text \<open>\<open>panic\<close>: what it does before it spins forever. Elsewhere in the development a call
  \<open>panic(m)\<close> is the outcome \<open>Panic m\<close>.\<close>

definition panic_output :: "string \<Rightarrow> 'x console_out_scheme \<Rightarrow> (unit, 'x console_out_scheme) outcome" where
  "panic_output msg s =
     bnd (printf ''panic: '' [] (s\<lparr>pr_locking := False\<rparr>)) (\<lambda>_ s.
     bnd (printf msg [] s) (\<lambda>_ s.
     bnd (printf [CHR 10] [] s) (\<lambda>_ s. Wait (s\<lparr>panicked := True\<rparr>))))"

section \<open>Output is exactly the formatted text\<close>

text \<open>The console can transmit and the hart is in a sane interrupt state.\<close>

definition tx_ready :: "'x console_out_scheme \<Rightarrow> bool" where
  "tx_ready s \<longleftrightarrow> \<not> panicked s \<and> lsr s AND LSR_TX_IDLE \<noteq> 0 \<and> hart_ok s"

text \<open>The state after transmitting \<open>cs\<close>.\<close>

definition sent :: "uint8 list \<Rightarrow> 'x console_out_scheme \<Rightarrow> 'x console_out_scheme" where
  "sent cs s = (if cs = [] then s else (relax s)\<lparr>thr := thr s @ cs\<rparr>)"

lemma push_off_console [simp]:
  "panicked (push_off s) = panicked s" "lsr (push_off s) = lsr s" "thr (push_off s) = thr s"
  "pr_locking (push_off s) = pr_locking s"
  by (simp_all add: push_off_def Let_def machine_defs)

lemma relax_console [simp]:
  "panicked (relax s) = panicked s" "lsr (relax s) = lsr s" "thr (relax s) = thr s"
  "pr_locking (relax s) = pr_locking s"
  by (simp_all add: relax_def machine_defs)

lemma relax_thr: "relax (s\<lparr>thr := x\<rparr>) = (relax s)\<lparr>thr := x\<rparr>"
  by (simp add: relax_def machine_defs)

lemma relax_idem [simp]: "relax (relax s) = relax s"
  by (simp add: relax_def machine_defs)

lemma pop_off_thr:
  "pop_off s = Ret () t \<Longrightarrow> pop_off (s\<lparr>thr := x\<rparr>) = Ret () (t\<lparr>thr := x\<rparr>)"
  by (auto simp: pop_off_def Let_def machine_defs split: if_splits)

lemma hart_ok_relax [simp]: "hart_ok (relax s) = hart_ok s"
  using mframe_hart(1) [OF mframe_relax] .

lemma hart_ok_thr [simp]: "hart_ok (s\<lparr>thr := x\<rparr>) = hart_ok s"
  by (simp add: hart_ok_def machine_defs)

lemma tx_ready_sent [simp]: "tx_ready (sent cs s) = tx_ready s"
  by (simp add: tx_ready_def sent_def)

lemma sent_sent [simp]: "sent ds (sent cs s) = sent (cs @ ds) s"
  by (auto simp: sent_def relax_thr)

lemma sent_Nil [simp]: "sent [] s = s"
  by (simp add: sent_def)

lemma uartputc_sync_ready:
  "tx_ready s \<Longrightarrow> uartputc_sync c s = Ret () (sent [ucast c] s)"
  by (simp add: uartputc_sync_def tx_ready_def Let_def sent_def push_pop_off pop_off_thr)

lemma ucast_8_32_8 [simp]: "ucast (ucast (c :: uint8) :: uint32) = c"
  by (rule bit_word_eqI) (simp add: bit_simps)

lemma consputc_ready:
  "tx_ready s \<Longrightarrow> consputc (ucast (c :: uint8)) s = Ret () (sent [c] s)"
proof -
  have "ucast c \<noteq> (0x100 :: uint32)"
  proof
    assume "ucast c = (0x100 :: uint32)"
    then have "unat (ucast c :: uint32) = 256" by simp
    moreover have "unat c < 2 ^ LENGTH(8)" by (rule unsigned_less)
    ultimately show False by (simp add: unsigned_ucast_eq take_bit_eq_mod)
  qed
  then show "tx_ready s \<Longrightarrow> ?thesis" by (simp add: consputc_def uartputc_sync_ready)
qed

lemma consputs_ready: "tx_ready s \<Longrightarrow> consputs cs s = Ret () (sent cs s)"
  by (induction cs arbitrary: s) (simp_all add: consputc_ready)

text \<open>What \<open>printf\<close> means to print: the text of one directive with the arguments left,
  and of a whole format; \<open>None\<close> where the arguments do not fit the format.\<close>

definition directive :: "uint8 \<Rightarrow> arg list \<Rightarrow> (uint8 list \<times> arg list) option" where
  "directive d args =
     (if d \<notin> {of_char CHR ''d'', of_char CHR ''x'', of_char CHR ''p'', of_char CHR ''s''} then
        Some (if d = of_char CHR ''%'' then [d] else [of_char CHR ''%'', d], args)
      else case args of
        AInt x # args \<Rightarrow>
          if d = of_char CHR ''d'' then Some (printint_chars x 10 True, args)
          else if d = of_char CHR ''x'' then Some (printint_chars x 16 True, args)
          else None
      | APtr x # args \<Rightarrow>
          if d = of_char CHR ''p'' then Some (printptr_chars x, args) else None
      | AStr t # args \<Rightarrow>
          if d = of_char CHR ''s''
          then Some (case t of None \<Rightarrow> str ''(null)'' | Some b \<Rightarrow> cstr b, args)
          else None
      | [] \<Rightarrow> None)"

fun format :: "uint8 list \<Rightarrow> arg list \<Rightarrow> uint8 list option" where
  "format [] args = Some []"
| "format (c # fmt) args =
     (if c = 0 then Some []
      else if c \<noteq> of_char CHR ''%'' then map_option ((#) c) (format fmt args)
      else case fmt of
        [] \<Rightarrow> Some []
      | d # fmt \<Rightarrow>
        if d = 0 then Some []
        else case directive d args of
          None \<Rightarrow> None
        | Some (out, args) \<Rightarrow> map_option (append out) (format fmt args))"

lemma consputc_percent:
  "tx_ready s \<Longrightarrow> consputc 37 s = Ret () (sent [37] s)"
  using consputc_ready [of s 37] by simp

lemma printf_directive:
  assumes "tx_ready s" "d \<noteq> 0" "directive d args = Some (out, args')"
  shows "printf_loop (of_char CHR ''%'' # d # fmt) args s = printf_loop fmt args' (sent out s)"
  using assms
  by (auto simp: directive_def printint_def printptr_def consputs_ready consputc_ready consputc_percent
      split: if_splits list.splits arg.splits)

lemma printf_loop_format:
  "tx_ready s \<Longrightarrow> format fmt args = Some out \<Longrightarrow> printf_loop fmt args s = Ret () (sent out s)"
proof (induction fmt arbitrary: args s out rule: length_induct)
  case (1 fmt)
  note IH = "1.IH" [rule_format]
  show ?case
  proof (cases fmt)
    case Nil
    with 1 show ?thesis by simp
  next
    case (Cons c fs)
    show ?thesis
    proof (cases "c = 0 \<or> c \<noteq> of_char CHR ''%''")
      case True
      then show ?thesis
        using "1.prems" IH [of fs _ args] by (auto simp: Cons consputc_ready split: if_splits)
    next
      case False
      then have c: "c = of_char CHR ''%''" by simp
      show ?thesis
      proof (cases fs)
        case Nil
        then show ?thesis using "1.prems" by (simp add: Cons c)
      next
        case (Cons d gs)
        show ?thesis
        proof (cases "d = 0")
          case True
          then show ?thesis using "1.prems" by (simp add: Cons \<open>fmt = c # fs\<close> c)
        next
          case False
          then show ?thesis
            using "1.prems" printf_directive [of s d args _ _ gs] IH [of gs]
            by (auto simp: Cons \<open>fmt = c # fs\<close> c simp del: printf_loop.simps(2) split: option.splits)
        qed
      qed
    qed
  qed
qed


section \<open>Digits\<close>

text \<open>The value of a digit character and of a numeral, most significant digit first.\<close>

lemma takeWhile_nth_neq:
  "distinct xs \<Longrightarrow> n < length xs \<Longrightarrow> length (takeWhile (\<lambda>d. d \<noteq> xs ! n) xs) = n"
proof (induction xs arbitrary: n)
  case (Cons x xs)
  then show ?case by (cases n) (auto simp: nth_mem)
qed simp

definition digit_val :: "uint8 \<Rightarrow> nat" where
  "digit_val c = (if c \<in> set digits then length (takeWhile (\<lambda>d. d \<noteq> c) digits) else 0)"

definition numeral_val :: "nat \<Rightarrow> uint8 list \<Rightarrow> nat" where
  "numeral_val base cs = foldl (\<lambda>v c. v * base + digit_val c) 0 cs"

definition signed_val :: "nat \<Rightarrow> uint8 list \<Rightarrow> int" where
  "signed_val base cs =
     (case cs of
        [] \<Rightarrow> 0
      | c # ds \<Rightarrow> if c = of_char CHR ''-'' then - int (numeral_val base ds) else int (numeral_val base cs))"

lemma digits_eq: "digits = [48, 49, 50, 51, 52, 53, 54, 55, 56, 57, 97, 98, 99, 100, 101, 102]"
  by (simp add: digits_def str_def)

lemma digits_length [simp]: "length digits = 16"
  by (simp add: digits_eq)

lemma distinct_digits: "distinct digits"
  by (simp add: digits_eq)

lemma digit_val_nth: "n < 16 \<Longrightarrow> digit_val (digits ! n) = n"
  using distinct_digits
  by (simp add: digit_val_def takeWhile_nth_neq)

lemma digits_not_minus: "n < 16 \<Longrightarrow> digits ! n \<noteq> of_char CHR ''-''"
  using nth_mem [of n digits] by (auto simp: digits_eq)

lemma numeral_val_append:
  "numeral_val base (cs @ [c]) = numeral_val base cs * base + digit_val c"
  by (simp add: numeral_val_def)

lemma printint_buf_val:
  "1 < base \<Longrightarrow> base \<le> 16 \<Longrightarrow> numeral_val base (rev (printint_buf x base)) = x"
proof (induction x base rule: printint_buf.induct)
  case (1 x base)
  have "x mod base < 16" using 1(2,3) mod_less_divisor [of base x] by linarith
  then show ?case
    using 1 by (subst printint_buf.simps)
      (auto simp: numeral_val_append digit_val_nth div_mult_mod_eq div_eq_0_iff, auto simp: numeral_val_def)
qed

lemma printint_buf_length:
  "1 < base \<Longrightarrow> x < base ^ Suc k \<Longrightarrow> length (printint_buf x base) \<le> Suc k"
proof (induction k arbitrary: x)
  case 0
  then show ?case by (subst printint_buf.simps) simp
next
  case (Suc k)
  have "x div base < base ^ Suc k"
    using Suc.prems by (intro less_mult_imp_div_less) (simp add: mult.commute)
  with Suc show ?case by (subst printint_buf.simps) simp
qed

lemma printint_buf_digits:
  "1 < base \<Longrightarrow> base \<le> 16 \<Longrightarrow> set (printint_buf x base) \<subseteq> set digits"
proof (induction x base rule: printint_buf.induct)
  case (1 x base)
  have "x mod base < 16" using 1(2,3) mod_less_divisor [of base x] by linarith
  then have "digits ! (x mod base) \<in> set digits" by (intro nth_mem) (simp add: digits_eq)
  with 1 show ?case by (subst printint_buf.simps) auto
qed

lemma sint_range32: "- (2 ^ 31) \<le> sint (x :: uint32)" "sint x < 2 ^ 31"
  using sint_ge [of x] sint_lt [of x] by simp_all

lemma unat_neg_sint:
  assumes "sint (x :: uint32) < 0"
  shows "int (unat (- x)) = - sint x"
proof -
  have "uint x = take_bit 32 (sint x)" by (simp add: uint_sint)
  then have "uint (- x) = take_bit 32 (- take_bit 32 (sint x))"
    by (simp add: uint_word_arith_bintrs)
  also have "\<dots> = take_bit 32 (- sint x)" by (rule take_bit_minus)
  also have "\<dots> = - sint x"
    using assms sint_range32 [of x] by (simp add: take_bit_int_eq_self_iff)
  finally show ?thesis by simp
qed

lemma unat_sint:
  assumes "0 \<le> sint (x :: uint32)"
  shows "sint x = int (unat x)"
proof -
  have "uint x = take_bit 32 (sint x)" by (simp add: uint_sint)
  also have "\<dots> = sint x"
    using assms sint_range32 [of x] by (simp add: take_bit_int_eq_self_iff)
  finally show ?thesis by simp
qed

text \<open>
  C28. \<open>printint\<close> prints the number: for base 10 and 16 the characters, read as a signed
  numeral in that base, give back the argument (as \<open>int\<close> when \<open>sign\<close>, as \<open>uint\<close>
  otherwise), also for the most negative \<open>int\<close>; and they always fit the 16-byte buffer.
\<close>

theorem printint_correct:
  assumes "base = 10 \<or> base = 16"
  shows "signed_val base (printint_chars xx base sign) = (if sign then sint xx else uint xx) \<and>
    length (printint_chars xx base sign) \<le> 16"
proof -
  have base: "1 < base" "base \<le> 16" using assms by auto
  define neg where "neg = (sign \<and> sint xx < 0)"
  define x where "x = (if neg then - xx else xx)"
  have "unat x < 2 ^ LENGTH(32)" by (rule unsigned_less)
  then have len: "length (printint_buf (unat x) base) \<le> Suc 9"
    using assms by (intro printint_buf_length [OF base(1)]) auto
  obtain c ds where buf: "rev (printint_buf (unat x) base) = c # ds"
    by (cases "rev (printint_buf (unat x) base)") (auto simp: printint_buf.simps [of "unat x" base])
  have "set (rev (printint_buf (unat x) base)) \<subseteq> set digits"
    using printint_buf_digits [OF base] by simp
  then have c: "c \<noteq> of_char CHR ''-''" unfolding buf by (auto simp: digits_eq)
  have val: "numeral_val base (c # ds) = unat x"
    using printint_buf_val [OF base, of "unat x"] by (simp only: buf)
  have chars: "printint_chars xx base sign = (if neg then [of_char CHR ''-''] else []) @ c # ds"
    by (simp add: printint_chars_def Let_def neg_def [symmetric] x_def [symmetric] buf)
  have "length (c # ds) \<le> 10" using len by (simp flip: buf)
  then have "length (printint_chars xx base sign) \<le> 16" by (simp add: chars)
  moreover have "signed_val base (printint_chars xx base sign) = (if neg then - int (unat x) else int (unat x))"
    using c by (simp add: chars signed_val_def val)
  moreover have "(if neg then - int (unat x) else int (unat x)) = (if sign then sint xx else uint xx)"
    using unat_neg_sint [of xx] unat_sint [of xx] by (auto simp: neg_def x_def simp del: uint_nat)
  ultimately show ?thesis by simp
qed

theorem printint_correct_witness:
  "signed_val 10 (printint_chars 0x80000000 10 True) = - 2147483648 \<and>
   length (printint_chars 0x80000000 10 True) \<le> 16"
  using printint_correct [of 10 "0x80000000" True] by simp


section \<open>The lock around printf\<close>

lemma held_console [simp]:
  "panicked (held lk s) = panicked s" "lsr (held lk s) = lsr s" "thr (held lk s) = thr s"
  "pr_locking (held lk s) = pr_locking s"
  by (simp_all add: held_def set_lock_def)

lemma hart_ok_held: "hart_ok s \<Longrightarrow> hart_ok (held lk s)"
  by (simp add: hart_ok_def)

lemma relax_held: "hart_ok s \<Longrightarrow> relax (held lk s) = held lk s"
  by (simp add: relax_def hart_ok_def)

lemma unheld_console [simp]:
  "panicked (unheld s u) = panicked u" "lsr (unheld s u) = lsr u" "thr (unheld s u) = thr u"
  "pr_locking (unheld s u) = pr_locking u"
  by (simp_all add: unheld_def)

text \<open>
  C27. When the console can transmit and \<open>pr.lock\<close> is free, \<open>printf\<close> returns, having
  appended exactly the formatted text to what was transmitted, and has given back the lock,
  the interrupt state and the nesting count it found.
\<close>

theorem printf_prints:
  assumes "tx_ready s" "lock_free PrLock s" "format (str fmt) args = Some out"
  shows "\<exists>t. printf fmt args s = Ret () t \<and> thr t = thr s @ out \<and> mframe s t \<and>
    panicked t = panicked s \<and> lsr t = lsr s \<and> pr_locking t = pr_locking s"
proof (cases "pr_locking s")
  case True
  let ?h = "held PrLock s"
  let ?u = "?h\<lparr>thr := thr s @ out\<rparr>"
  have ok: "hart_ok s" using assms(1) by (simp add: tx_ready_def)
  have "tx_ready ?h" using assms(1) by (simp add: tx_ready_def hart_ok_held)
  then have "printf_loop (str fmt) args ?h = Ret () (sent out ?h)"
    by (rule printf_loop_format [OF _ assms(3)])
  moreover have "sent out ?h = ?u" using ok by (simp add: sent_def relax_held)
  moreover have "release PrLock ?u = Ret () (unheld s ?u)"
    by (rule release_held [OF ok assms(2)]) simp_all
  ultimately show ?thesis
    using True assms(2) mframe_unheld [of ?u s] by (simp add: printf_def acquire_eq)
next
  case False
  have "mframe s (sent out s)" using mframe_relax [of s] by (simp add: sent_def mframe_def)
  then show ?thesis
    using False printf_loop_format [OF assms(1,3)] by (simp add: printf_def sent_def)
qed

definition boot_console :: console_out where
  "boot_console = machine.extend boot_machine \<lparr>lsr = 0x20, thr = [], panicked = False, pr_locking = True\<rparr>"

theorem printf_prints_witness:
  "\<exists>t. printf ''%d%%'' [AInt 7] boot_console = Ret () t \<and> thr t = str ''7%''"
proof -
  have "printint_chars 7 10 True = str ''7''"
    by (simp add: printint_chars_def printint_buf.simps digits_eq str_def)
  then have "format (str ''%d%%'') [AInt 7] = Some (str ''7%'')"
    by (simp add: str_def directive_def)
  moreover have "tx_ready boot_console" "lock_free PrLock boot_console" "thr boot_console = []"
    by (simp_all add: tx_ready_def boot_console_def boot_machine_def machine.defs hart_ok_def lock_free_def
        machine_defs)
  ultimately show ?thesis using printf_prints [of boot_console "''%d%%''" "[AInt 7]"] by auto
qed

end
