(* ===== verification/Kalloc.thy ===== *)
theory Kalloc
  imports Printf
begin

text \<open>
  The physical page allocator \<open>src/kernel/kalloc.c\<close>. The free list is threaded through the
  free pages themselves, so its nodes are 64-bit loads from memory. \<open>fl\<close> reads the list off
  memory as a list of page addresses and \<open>page_inv\<close> says that it is well formed and disjoint
  from the pages in use. The locale \<open>page_allocator\<close> is the contract the virtual memory
  code relies on.
\<close>

section \<open>State\<close>

text \<open>Addresses fixed by the linker script and the assembly files.\<close>

record symbols =
  sym_end :: uint64
  sym_etext :: uint64
  sym_trampoline :: uint64
  sym_uservec :: uint64
  sym_userret :: uint64
  sym_usertrap :: uint64
  sym_kernelvec :: uint64
  sym_forkret :: uint64

record kmem_state = console_out +
  mem :: memory
  syms :: symbols
  freelist :: uint64

section \<open>kalloc.c\<close>

definition kfree :: "uint64 \<Rightarrow> 'x kmem_state_scheme \<Rightarrow> (unit, 'x kmem_state_scheme) outcome" where
  "kfree pa s =
     (if pa mod PGSIZE \<noteq> 0 \<or> pa < sym_end (syms s) \<or> pa \<ge> PHYSTOP then Panic ''kfree''
      else
        let s = s\<lparr>mem := memset (mem s) pa 1 4096\<rparr>
        in bnd (acquire KmemLock s) (\<lambda>_ s.
           let s = s\<lparr>mem := store64 (mem s) pa (freelist s)\<rparr>;
               s = s\<lparr>freelist := pa\<rparr>
           in release KmemLock s))"

definition kalloc :: "'x kmem_state_scheme \<Rightarrow> (uint64, 'x kmem_state_scheme) outcome" where
  "kalloc s =
     bnd (acquire KmemLock s) (\<lambda>_ s.
     let r = freelist s;
         s = (if r \<noteq> 0 then s\<lparr>freelist := load64 (mem s) r\<rparr> else s)
     in bnd (release KmemLock s) (\<lambda>_ s.
        Ret r (if r \<noteq> 0 then s\<lparr>mem := memset (mem s) r 5 4096\<rparr> else s)))"

lemma kfree_bounds: "kfree pa s = Ret x t \<Longrightarrow> page_aligned pa \<and> sym_end (syms s) \<le> pa \<and> pa < PHYSTOP"
  by (auto simp: kfree_def mod_PGSIZE PGSIZE_def split: if_splits)

lemma PHYSTOP_val: "PHYSTOP = 0x88000000"
  by (simp add: PHYSTOP_def KERNBASE_def)

lemma unat_add_page: "a < 0xFFFFFFFFFFFFF000 \<Longrightarrow> unat (a + 4096 :: uint64) = unat a + 4096"
  by (simp add: word_less_nat_alt unat_word_ariths)

function freerange_loop :: "uint64 \<Rightarrow> uint64 \<Rightarrow> 'x kmem_state_scheme \<Rightarrow> (unit, 'x kmem_state_scheme) outcome" where
  "freerange_loop p pa_end s =
     (if p + PGSIZE \<le> pa_end
      then bnd (kfree p s) (\<lambda>_ s. freerange_loop (p + PGSIZE) pa_end s)
      else Ret () s)"
  by pat_completeness auto

termination freerange_loop
proof (relation "measure (\<lambda>(p, pa_end, s). 2 ^ 64 - unat p)", goal_cases)
  case (2 p pa_end s x t)
  then have "p < PHYSTOP" by (auto dest: kfree_bounds)
  then show ?case
    by (simp add: PGSIZE_def PHYSTOP_val unat_add_page word_less_nat_alt)
qed simp

declare freerange_loop.simps [simp del]

definition freerange :: "uint64 \<Rightarrow> uint64 \<Rightarrow> 'x kmem_state_scheme \<Rightarrow> (unit, 'x kmem_state_scheme) outcome" where
  "freerange pa_start pa_end s = freerange_loop (PGROUNDUP pa_start) pa_end s"

definition kinit :: "'x kmem_state_scheme \<Rightarrow> (unit, 'x kmem_state_scheme) outcome" where
  "kinit s =
     (let s = initlock KmemLock ''kmem'' s in freerange (sym_end (syms s)) PHYSTOP s)"

section \<open>Pages\<close>

definition phys_page :: "symbols \<Rightarrow> uint64 \<Rightarrow> bool" where
  "phys_page sy p \<longleftrightarrow> page_aligned p \<and> sym_end sy \<le> p \<and> p < PHYSTOP"

text \<open>\<open>m'\<close> agrees with \<open>m\<close> outside the pages \<open>S\<close>.\<close>

definition same_off :: "uint64 set \<Rightarrow> memory \<Rightarrow> memory \<Rightarrow> bool" where
  "same_off S m m' \<longleftrightarrow> (\<forall>a. pgof a \<notin> pgof ` S \<longrightarrow> m' a = m a)"

lemma same_off_refl [simp, intro]: "same_off S m m"
  by (simp add: same_off_def)

lemma same_off_trans [trans]: "same_off S m m' \<Longrightarrow> same_off S m' m'' \<Longrightarrow> same_off S m m''"
  by (simp add: same_off_def)

lemma same_off_mono: "same_off S m m' \<Longrightarrow> S \<subseteq> T \<Longrightarrow> same_off T m m'"
  by (auto simp: same_off_def)

lemma same_off_join:
  "same_off S m m' \<Longrightarrow> same_off T m' m'' \<Longrightarrow> S \<subseteq> V \<Longrightarrow> T \<subseteq> V \<Longrightarrow> same_off V m m''"
  using same_off_mono [of S m m' V] same_off_mono [of T m' m'' V] same_off_trans [of V m m' m''] by simp

lemma page_eq: "page_aligned p \<Longrightarrow> page_aligned q \<Longrightarrow> pgof p = pgof q \<longleftrightarrow> p = q"
  by (auto intro: drop_bit_inj_aligned)

lemma page_in_image:
  "page_aligned p \<Longrightarrow> \<forall>q\<in>S. page_aligned q \<Longrightarrow> pgof p \<in> pgof ` S \<longleftrightarrow> p \<in> S"
proof
  assume al: "page_aligned p" "\<forall>q\<in>S. page_aligned q" and "pgof p \<in> pgof ` S"
  then obtain q where "q \<in> S" "pgof p = pgof q" by auto
  then show "p \<in> S" using page_eq [of p q] al by simp
qed simp

lemma same_off_memset:
  assumes "page_aligned p" "p \<in> S"
  shows "same_off S m (memset m p c 4096)"
  unfolding same_off_def
proof (intro allI impI)
  fix a assume "pgof a \<notin> pgof ` S"
  then have "pgof a \<noteq> pgof p" using assms(2) by auto
  then show "memset m p c 4096 a = m a"
    using in_block [of 12 p a] assms(1) by (simp add: memset_eq)
qed

lemma pgof_in_word:
  assumes "take_bit 3 b = 0" "unat (x - b) < 8"
  shows "pgof x = pgof (b :: uint64)"
proof -
  have "drop_bit 3 x = drop_bit 3 b" using assms in_block [of 3 b x] by simp
  then have "drop_bit 9 (drop_bit 3 x) = drop_bit 9 (drop_bit 3 b)" by simp
  then show ?thesis by simp
qed

lemma same_off_store64:
  assumes "take_bit 3 a = 0" "pgof a \<in> pgof ` S"
  shows "same_off S m (store64 m a v)"
  unfolding same_off_def
proof (intro allI impI)
  fix x assume "pgof x \<notin> pgof ` S"
  then have "\<not> unat (x - a) < 8" using assms(2) pgof_in_word [OF assms(1), of x] by fastforce
  then show "store64 m a v x = m x" by (rule store64_other)
qed

lemma same_off_load64:
  assumes "same_off S m m'" "take_bit 3 a = 0" "pgof a \<notin> pgof ` S"
  shows "load64 m' a = load64 m a"
proof (rule load64_cong)
  fix x assume "unat (x - a) < 8"
  then have "pgof x = pgof a" by (rule pgof_in_word [OF assms(2)])
  then show "m' x = m x" using assms(1,3) by (simp add: same_off_def)
qed

section \<open>The free list in memory\<close>

primrec fl :: "memory \<Rightarrow> uint64 \<Rightarrow> uint64 list \<Rightarrow> bool" where
  "fl m p [] \<longleftrightarrow> p = 0"
| "fl m p (x # xs) \<longleftrightarrow> p = x \<and> x \<noteq> 0 \<and> fl m (load64 m x) xs"

lemma fl_same_off:
  assumes "same_off S m m'" "\<forall>x\<in>set xs. page_aligned x" "\<forall>x\<in>S. page_aligned x"
    "set xs \<inter> S = {}"
  shows "fl m' p xs = fl m p xs"
  using assms(2,4)
proof (induction xs arbitrary: p)
  case (Cons x xs)
  then have "pgof x \<notin> pgof ` S" using page_in_image [of x S] assms(3) by auto
  with Cons show ?case
    by (simp add: same_off_load64 [OF assms(1)] aligned8_of_page)
qed simp

text \<open>The free list is \<open>fr\<close>, its pages are distinct pages of RAM, none of them among the
  pages \<open>U\<close> in use; the allocator's lock is free and the hart in a sane interrupt state.\<close>

definition page_inv :: "'x kmem_state_scheme \<Rightarrow> uint64 list \<Rightarrow> uint64 set \<Rightarrow> bool" where
  "page_inv s fr U \<longleftrightarrow> 0 < sym_end (syms s) \<and> hart_ok s \<and> lock_free KmemLock s \<and>
     fl (mem s) (freelist s) fr \<and> distinct fr \<and> set fr \<inter> U = {} \<and>
     (\<forall>x \<in> set fr \<union> U. phys_page (syms s) x)"

text \<open>States that differ only in memory, the free list and the saved interrupt state.\<close>

definition kframe :: "'x kmem_state_scheme \<Rightarrow> 'x kmem_state_scheme \<Rightarrow> bool" where
  "kframe s t \<longleftrightarrow> mframe s t \<and> lsr t = lsr s \<and> thr t = thr s \<and> panicked t = panicked s \<and>
     pr_locking t = pr_locking s \<and> syms t = syms s \<and> kmem_state.more t = kmem_state.more s"

lemma kframe_refl [simp, intro]: "kframe s s"
  by (simp add: kframe_def)

lemma kframe_trans [trans]: "kframe s t \<Longrightarrow> kframe t u \<Longrightarrow> kframe s u"
  by (auto simp: kframe_def intro: mframe_trans)

lemma kframe_mem [simp, intro]: "kframe s (s\<lparr>mem := m\<rparr>)"
  by (simp add: kframe_def mframe_def)

lemma page_invD:
  assumes "page_inv s fr U"
  shows "hart_ok s" "lock_free KmemLock s" "fl (mem s) (freelist s) fr" "distinct fr"
    "set fr \<inter> U = {}" "x \<in> set fr \<union> U \<Longrightarrow> phys_page (syms s) x"
    "x \<in> set fr \<union> U \<Longrightarrow> page_aligned x" "x \<in> set fr \<union> U \<Longrightarrow> x \<noteq> 0"
proof -
  show "x \<in> set fr \<union> U \<Longrightarrow> x \<noteq> 0"
    using assms by (auto simp: page_inv_def phys_page_def dest: bspec [where x = x] leD)
qed (use assms in \<open>simp_all add: page_inv_def phys_page_def\<close>)

lemma page_inv_put:
  assumes "page_inv s fr U" "same_off U (mem s) m"
  shows "page_inv (s\<lparr>mem := m\<rparr>) fr U"
proof -
  have "fl m (freelist s) fr"
    using fl_same_off [OF assms(2), of fr] page_invD(3,5,7) [OF assms(1)] by blast
  then show ?thesis
    using assms by (simp add: page_inv_def hart_ok_def lock_free_def machine_defs)
qed

lemma page_inv_forget: "page_inv s fr U \<Longrightarrow> V \<subseteq> U \<Longrightarrow> page_inv s fr V"
  by (auto simp: page_inv_def)

section \<open>The operations on the free list\<close>

lemma held_kmem [simp]:
  "mem (held lk s) = mem s" "syms (held lk s) = syms s" "freelist (held lk s) = freelist s"
  by (simp_all add: held_def set_lock_def push_off_def Let_def machine_defs)

lemma unheld_kmem [simp]:
  "mem (unheld s u) = mem u" "syms (unheld s u) = syms u" "freelist (unheld s u) = freelist u"
  "kmem_state.more (unheld s u) = kmem_state.more u"
  by (simp_all add: unheld_def)

lemma held_more [simp]: "kmem_state.more (held lk s) = kmem_state.more s"
  by (simp add: held_def set_lock_def push_off_def Let_def machine_defs)

text \<open>A critical section of \<open>kmem.lock\<close> that changes only the free list and memory.\<close>

lemma kmem_section:
  assumes "hart_ok s" "lock_free KmemLock s"
    and u: "(held KmemLock s)\<lparr>freelist := freelist u, mem := mem u\<rparr> = u"
  shows "release KmemLock u = Ret () (unheld s u)" "kframe s (unheld s u)"
proof -
  have m: "tp u = tp s" "sstatus u = sstatus (held KmemLock s)" "cpus u = cpus (held KmemLock s)"
    "locks u = locks (held KmemLock s)" "lsr u = lsr s" "thr u = thr s" "panicked u = panicked s"
    "pr_locking u = pr_locking s" "syms u = syms s" "kmem_state.more u = kmem_state.more s"
    by (subst u [symmetric], simp)+
  show "release KmemLock u = Ret () (unheld s u)"
    by (rule release_held [OF assms(1,2)]) (simp_all add: m)
  have "mframe s (unheld s u)" by (rule mframe_unheld) (simp add: m)
  then show "kframe s (unheld s u)" by (simp add: kframe_def m)
qed

lemma page_inv_kframe:
  assumes "kframe s t" "0 < sym_end (syms s)" "hart_ok s" "lock_free KmemLock s"
    "fl (mem t) (freelist t) fr" "distinct fr" "set fr \<inter> U = {}"
    "\<forall>x \<in> set fr \<union> U. phys_page (syms s) x"
  shows "page_inv t fr U"
  using assms mframe_hart(1,2) [of s t] by (simp add: page_inv_def kframe_def)

lemma kalloc_empty:
  assumes "page_inv s [] U"
  shows "\<exists>t. kalloc s = Ret 0 t \<and> kframe s t \<and> mem t = mem s \<and> page_inv t [] U"
proof -
  note inv = page_invD [OF assms]
  let ?t = "unheld s (held KmemLock s)"
  have f: "freelist s = 0" using inv(3) by simp
  note sec = kmem_section [OF inv(1,2), of "held KmemLock s", simplified]
  have "page_inv ?t [] U"
    using assms f by (intro page_inv_kframe [OF sec(2)]) (auto simp: page_inv_def)
  with sec f show ?thesis by (simp add: kalloc_def acquire_eq [OF inv(2)] Let_def)
qed

lemma kalloc_cons:
  assumes "page_inv s (p # fr) U"
  shows "\<exists>t. kalloc s = Ret p t \<and> kframe s t \<and> same_off {p} (mem s) (mem t) \<and>
    page_inv t fr (insert p U)"
proof -
  note inv = page_invD [OF assms]
  let ?h = "(held KmemLock s)\<lparr>freelist := load64 (mem s) p\<rparr>"
  let ?t = "(unheld s ?h)\<lparr>mem := memset (mem s) p 5 4096\<rparr>"
  have p: "page_aligned p" "p \<noteq> 0" "freelist s = p" using inv(3,7,8) by auto
  have sec: "release KmemLock ?h = Ret () (unheld s ?h)" "kframe s (unheld s ?h)"
    by (rule kmem_section [OF inv(1,2)]; simp)+
  have "kalloc s = Ret p ?t"
    using sec(1) p by (simp add: kalloc_def acquire_eq [OF inv(2)] Let_def)
  moreover have frame: "kframe s ?t" using sec(2) kframe_mem by (rule kframe_trans)
  moreover have off: "same_off {p} (mem s) (mem ?t)" using same_off_memset [OF p(1)] by simp
  moreover have "fl (mem ?t) (freelist ?t) fr"
    using inv(3,4,7) fl_same_off [OF off, of fr] p by auto
  then have "page_inv ?t fr (insert p U)"
    using assms by (intro page_inv_kframe [OF frame]) (auto simp: page_inv_def)
  ultimately show ?thesis by blast
qed

lemma kfree_push:
  assumes "page_inv s fr U" "p \<in> U"
  shows "\<exists>t. kfree p s = Ret () t \<and> kframe s t \<and> same_off {p} (mem s) (mem t) \<and>
    page_inv t (p # fr) (U - {p})"
proof -
  note inv = page_invD [OF assms(1)]
  let ?s = "s\<lparr>mem := memset (mem s) p 1 4096\<rparr>"
  let ?m = "store64 (mem ?s) p (freelist s)"
  let ?h = "(held KmemLock ?s)\<lparr>mem := ?m, freelist := p\<rparr>"
  let ?t = "unheld ?s ?h"
  have p: "phys_page (syms s) p" "page_aligned p" "p \<noteq> 0" using inv(6,7,8) assms(2) by auto
  have s: "page_inv ?s fr U"
    by (rule page_inv_put [OF assms(1)]) (rule same_off_memset [OF p(2) assms(2)])
  have sec: "release KmemLock ?h = Ret () ?t" "kframe ?s ?t"
    by (rule kmem_section [OF page_invD(1,2) [OF s]]; simp)+
  have "kfree p s = Ret () ?t"
    using sec(1) p by (simp add: kfree_def acquire_eq [OF page_invD(2) [OF s]] Let_def phys_page_def
        mod_PGSIZE PGSIZE_def not_le not_less)
  moreover have frame: "kframe s ?t" using kframe_mem sec(2) by (rule kframe_trans)
  moreover have off: "same_off {p} (mem s) ?m"
    using same_off_trans [OF same_off_memset [OF p(2)] same_off_store64, of "{p}" p]
    by (simp add: p aligned8_of_page)
  moreover have "fl ?m (freelist s) fr"
    using fl_same_off [OF off, of fr] inv(3,5,7) p(2) assms(2) by auto
  then have "page_inv ?t (p # fr) (U - {p})"
    using assms p(3) by (intro page_inv_kframe [OF frame]) (auto simp: page_inv_def)
  ultimately show ?thesis by auto
qed

section \<open>The allocator's contract\<close>

text \<open>
  What a client of the allocator relies on: \<open>inv s fr U\<close> says that \<open>fr\<close> is the list of
  free pages in \<open>s\<close> and that the client owns the pages \<open>U\<close>. Allocation takes a page from
  the list and gives it to the client, or reports 0 when the list is empty; freeing gives a
  page back; the client may write its own pages.
\<close>

locale page_allocator =
  fixes alloc :: "'s \<Rightarrow> (uint64, 's) outcome"
    and dealloc :: "uint64 \<Rightarrow> 's \<Rightarrow> (unit, 's) outcome"
    and inv :: "'s \<Rightarrow> uint64 list \<Rightarrow> uint64 set \<Rightarrow> bool"
    and frame :: "'s \<Rightarrow> 's \<Rightarrow> bool"
    and contents :: "'s \<Rightarrow> memory"
    and put :: "memory \<Rightarrow> 's \<Rightarrow> 's"
  assumes alloc_empty: "inv s [] U \<Longrightarrow>
      \<exists>t. alloc s = Ret 0 t \<and> frame s t \<and> contents t = contents s \<and> inv t [] U"
    and alloc_cons: "inv s (p # fr) U \<Longrightarrow>
      \<exists>t. alloc s = Ret p t \<and> frame s t \<and> same_off {p} (contents s) (contents t) \<and>
        inv t fr (insert p U)"
    and dealloc_push: "inv s fr U \<Longrightarrow> p \<in> U \<Longrightarrow>
      \<exists>t. dealloc p s = Ret () t \<and> frame s t \<and> same_off {p} (contents s) (contents t) \<and>
        inv t (p # fr) (U - {p})"
    and put_inv: "inv s fr U \<Longrightarrow> same_off U (contents s) m \<Longrightarrow> inv (put m s) fr U"
    and put_contents: "contents (put m s) = m" "frame s (put m s)"
    and frame_trans: "frame s t \<Longrightarrow> frame t u \<Longrightarrow> frame s u"
    and inv_forget: "inv s fr U \<Longrightarrow> V \<subseteq> U \<Longrightarrow> inv s fr V"
    and inv_pages: "inv s fr U \<Longrightarrow> distinct fr \<and> set fr \<inter> U = {} \<and>
      (\<forall>p \<in> set fr \<union> U. page_aligned p \<and> p \<noteq> 0)"
begin

lemma alloc_result:
  assumes "inv s fr U"
  obtains (none) t where "alloc s = Ret 0 t" "frame s t" "contents t = contents s" "inv t [] U" "fr = []"
  | (page) p fr' t where "alloc s = Ret p t" "frame s t" "same_off {p} (contents s) (contents t)"
      "inv t fr' (insert p U)" "fr = p # fr'" "p \<noteq> 0" "p \<notin> U" "page_aligned p"
proof (cases fr)
  case Nil
  with assms alloc_empty that(1) show thesis by blast
next
  case (Cons p fr')
  then have "p \<noteq> 0" "p \<notin> U" "page_aligned p" using inv_pages [OF assms] by auto
  with assms Cons alloc_cons that(2) show thesis by blast
qed

text \<open>A page that is allocated and filled, zeroed for instance.\<close>

lemma alloc_put:
  assumes "inv s fr U" "alloc s = Ret p t" "p \<noteq> 0" "same_off {p} (contents t) m"
  shows "frame s (put m t) \<and> same_off {p} (contents s) m \<and>
    (\<exists>fr'. fr = p # fr' \<and> p \<notin> U \<and> page_aligned p \<and> inv (put m t) fr' (insert p U))"
  using assms(1)
proof (cases rule: alloc_result)
  case (none u)
  then show ?thesis using assms(2,3) by simp
next
  case (page q fr' u)
  then have q: "q = p" "u = t" using assms(2) by simp_all
  have "same_off (insert p U) (contents t) m" using assms(4) by (rule same_off_mono) simp
  then have "inv (put m t) fr' (insert p U)" using page q by (intro put_inv) simp_all
  moreover have "frame s (put m t)" using page q put_contents(2) frame_trans by blast
  moreover have "same_off {p} (contents s) m" using page q same_off_trans assms(4) by blast
  ultimately show ?thesis using page q by simp
qed

text \<open>Allocating and freeing at once restores the free list.\<close>

lemma alloc_dealloc:
  assumes "inv s (p # fr) U"
  shows "\<exists>t. bnd (alloc s) (\<lambda>p s. dealloc p s) = Ret () t \<and> frame s t \<and>
    same_off {p} (contents s) (contents t) \<and> inv t (p # fr) U"
proof -
  obtain t where t: "alloc s = Ret p t" "frame s t" "same_off {p} (contents s) (contents t)"
    "inv t fr (insert p U)" using alloc_cons [OF assms] by blast
  obtain u where u: "dealloc p t = Ret () u" "frame t u" "same_off {p} (contents t) (contents u)"
    "inv u (p # fr) (insert p U - {p})" using dealloc_push [OF t(4), of p] by blast
  have "inv u (p # fr) U" using inv_forget [OF u(4)] inv_pages [OF assms] by auto
  moreover have "frame s u" using t(2) u(2) by (rule frame_trans)
  moreover have "same_off {p} (contents s) (contents u)" using t(3) u(3) by (rule same_off_trans)
  ultimately show ?thesis using t(1) u(1) by simp
qed

end

interpretation ka: page_allocator kalloc kfree page_inv kframe mem "\<lambda>m s. s\<lparr>mem := m\<rparr>"
proof (unfold_locales, goal_cases)
  case (9 s fr U)
  then show ?case using page_invD(4,5,7,8) [OF 9] by blast
qed (auto intro: kalloc_empty kalloc_cons kfree_push page_inv_put kframe_trans page_inv_forget)

section \<open>Filling the free list at boot\<close>

definition pages_from :: "uint64 \<Rightarrow> uint64 set" where
  "pages_from p = {q. page_aligned q \<and> p \<le> q \<and> q < PHYSTOP}"

lemma pages_from_step:
  assumes "page_aligned p" "p < PHYSTOP"
  shows "pages_from p = insert p (pages_from (p + PGSIZE))" "p + PGSIZE \<le> PHYSTOP"
    "page_aligned (p + PGSIZE)" "p \<notin> pages_from (p + PGSIZE)"
proof -
  have u: "unat (p + 4096) = unat p + 4096" using assms(2) by (intro unat_add_page) (simp add: word_less_nat_alt)
  have al: "page_aligned q \<Longrightarrow> unat p < unat q \<Longrightarrow> unat p + 4096 \<le> unat q" for q
    using assms(1) by (auto simp: page_aligned_unat dvd_def mod_eq_0_iff_dvd)
  show "page_aligned (p + PGSIZE)" using assms(1) by (simp add: PGSIZE_def page_aligned_unat u)
  show "p + PGSIZE \<le> PHYSTOP"
    using al [of PHYSTOP] assms by (simp add: PGSIZE_def word_less_nat_alt word_le_nat_alt u)
  show "p \<notin> pages_from (p + PGSIZE)"
    by (simp add: pages_from_def PGSIZE_def word_le_nat_alt u)
  have "p \<le> q \<longleftrightarrow> q = p \<or> p + 4096 \<le> q" if "page_aligned q" for q
    using al [OF that] by (auto simp: word_le_nat_alt u le_less dest: word_unat_eq_iff [THEN iffD2])
  then show "pages_from p = insert p (pages_from (p + PGSIZE))"
    using assms by (auto simp: pages_from_def PGSIZE_def)
qed

lemma freerange_loop_ok:
  "page_inv s fr (pages_from p) \<Longrightarrow> page_aligned p \<Longrightarrow> p \<le> PHYSTOP \<Longrightarrow>
   \<exists>t fr'. freerange_loop p PHYSTOP s = Ret () t \<and> kframe s t \<and> page_inv t fr' {} \<and>
     set fr' = set fr \<union> pages_from p"
proof (induction p PHYSTOP s arbitrary: fr rule: freerange_loop.induct)
  case (1 p s)
  show ?case
  proof (cases "p < PHYSTOP")
    case True
    note st = pages_from_step [OF "1.prems"(2) True]
    obtain t where t: "kfree p s = Ret () t" "kframe s t" "page_inv t (p # fr) (pages_from p - {p})"
      using kfree_push [OF "1.prems"(1), of p] st(1) by auto
    have "page_inv t (p # fr) (pages_from (p + PGSIZE))"
      using t(3) st(1,4) by (simp only: insert_Diff_single) simp
    from "1.hyps" [OF st(2) t(1) this st(3,2)] obtain u fr' where
      "freerange_loop (p + PGSIZE) PHYSTOP t = Ret () u" "kframe t u" "page_inv u fr' {}"
      "set fr' = set (p # fr) \<union> pages_from (p + PGSIZE)" by blast
    then show ?thesis
      using t st by (subst freerange_loop.simps) (auto intro: kframe_trans)
  next
    case False
    then have p: "p = PHYSTOP" using "1.prems"(3) by simp
    then have "pages_from p = {}" by (auto simp: pages_from_def)
    then show ?thesis
      using "1.prems" p by (subst freerange_loop.simps) (auto simp: PGSIZE_def word_le_nat_alt)
  qed
qed

lemma PGROUNDUP_le_iff:
  assumes "page_aligned q" "unat a + 4095 < 2 ^ 64"
  shows "PGROUNDUP a \<le> q \<longleftrightarrow> a \<le> q"
proof -
  obtain k where k: "unat q = k * 4096" using assms(1) by (auto simp: page_aligned_unat)
  have "(unat a + 4095) div 4096 \<le> k \<longleftrightarrow> unat a \<le> k * 4096" by linarith
  then show ?thesis by (simp add: word_le_nat_alt unat_PGROUNDUP [OF assms(2)] k)
qed

text \<open>
  C21. \<open>kinit\<close> returns, for every size of kernel image below \<open>PHYSTOP\<close>, and leaves a
  well-formed free list that holds every whole page between \<open>end\<close> and \<open>PHYSTOP\<close>
  exactly once, with nothing else of the state changed but memory and the lock's name.
\<close>

theorem kinit_frees_all:
  assumes "0 < sym_end (syms s)" "sym_end (syms s) \<le> PHYSTOP" "hart_ok s" "freelist s = 0"
  shows "\<exists>t fr. kinit s = Ret () t \<and> page_inv t fr {} \<and> distinct fr \<and>
    set fr = {p. page_aligned p \<and> sym_end (syms s) \<le> p \<and> p < PHYSTOP} \<and>
    kframe (initlock KmemLock ''kmem'' s) t"
proof -
  let ?s = "initlock KmemLock ''kmem'' s" and ?e = "sym_end (syms s)"
  have s: "hart_ok ?s" "lock_free KmemLock ?s" "syms ?s = syms s" "freelist ?s = freelist s" "mem ?s = mem s"
    using assms(3) by (simp_all add: initlock_def hart_ok_def machine_defs lock_free_def)
  have le: "PGROUNDUP ?e \<le> q \<longleftrightarrow> ?e \<le> q" if "page_aligned q" for q
    using assms(2) by (intro PGROUNDUP_le_iff [OF that]) (simp add: word_le_nat_alt)
  have pages: "pages_from (PGROUNDUP ?e) = {p. page_aligned p \<and> ?e \<le> p \<and> p < PHYSTOP}"
    using le by (auto simp: pages_from_def)
  have "page_inv ?s [] (pages_from (PGROUNDUP ?e))"
    using assms s by (auto simp: page_inv_def pages phys_page_def)
  moreover have "PGROUNDUP ?e \<le> PHYSTOP" using le [of PHYSTOP] assms(2) by (simp add: page_aligned_unat)
  ultimately obtain t fr where "freerange_loop (PGROUNDUP ?e) PHYSTOP ?s = Ret () t" "kframe ?s t"
      "page_inv t fr {}" "set fr = pages_from (PGROUNDUP ?e)"
    using freerange_loop_ok [of ?s "[]"] by fastforce
  then show ?thesis
    using page_invD(4) [of t fr] s(3) pages by (auto simp: kinit_def freerange_def Let_def)
qed

text \<open>A kernel whose image ends at \<open>0x80001000\<close>, before \<open>kinit\<close>, and one with a single
  free page.\<close>

definition boot_syms :: symbols where
  "boot_syms = \<lparr>sym_end = 0x80001000, sym_etext = 0x80000000, sym_trampoline = 0x80000000,
     sym_uservec = 0x80000000, sym_userret = 0x8000009c, sym_usertrap = 0x80000200,
     sym_kernelvec = 0x80000400, sym_forkret = 0x80000600\<rparr>"

definition boot_kmem :: kmem_state where
  "boot_kmem = console_out.extend boot_console \<lparr>mem = (\<lambda>_. 0), syms = boot_syms, freelist = 0\<rparr>"

definition one_page :: kmem_state where
  "one_page = boot_kmem\<lparr>freelist := 0x80002000\<rparr>"

lemma boot_kmem_facts:
  "hart_ok boot_kmem" "lock_free lk boot_kmem" "syms boot_kmem = boot_syms" "mem boot_kmem = (\<lambda>_. 0)"
  "freelist boot_kmem = 0" "tx_ready boot_kmem"
  by (simp_all add: boot_kmem_def boot_console_def boot_machine_def machine.defs console_out.defs
      hart_ok_def lock_free_def machine_defs tx_ready_def)

lemma load64_zero [simp]: "load64 (\<lambda>_. 0) a = 0"
  by (simp add: load64_def)

lemma one_page_inv: "page_inv one_page [0x80002000] {0x80003000}"
  using boot_kmem_facts
  by (simp add: page_inv_def one_page_def phys_page_def boot_syms_def hart_ok_def lock_free_def machine_defs)

theorem kinit_frees_all_witness:
  "\<exists>t fr. kinit boot_kmem = Ret () t \<and> page_inv t fr {} \<and> 0x80001000 \<in> set fr"
proof -
  have "sym_end (syms boot_kmem) = 0x80001000" by (simp add: boot_kmem_facts boot_syms_def)
  then obtain t fr where "kinit boot_kmem = Ret () t" "page_inv t fr {}"
      "set fr = {p. page_aligned p \<and> 0x80001000 \<le> p \<and> p < PHYSTOP}"
    using kinit_frees_all [of boot_kmem] boot_kmem_facts(1,5) by auto
  moreover from this(3) have "0x80001000 \<in> set fr" by simp
  ultimately show ?thesis by blast
qed

text \<open>
  C10. \<open>kalloc\<close> refines taking the head of the free list: it returns that page, no longer
  free, owned by the caller, distinct from every page the caller owned and filled with the
  junk byte 5; it returns 0 exactly when no page is free. Nothing else in memory or in the
  rest of the state changes, and the lock is free again.
\<close>

theorem kalloc_refines:
  assumes "page_inv s fr U"
  shows "\<exists>t. kalloc s = Ret (case fr of [] \<Rightarrow> 0 | p # _ \<Rightarrow> p) t \<and> kframe s t \<and>
    page_inv t (tl fr) (set (take 1 fr) \<union> U) \<and> same_off (set (take 1 fr)) (mem s) (mem t) \<and>
    set (take 1 fr) \<inter> U = {} \<and>
    (fr \<noteq> [] \<longrightarrow> hd fr \<noteq> 0 \<and> (\<forall>a. pgof a = pgof (hd fr) \<longrightarrow> mem t a = 5))"
proof (cases fr)
  case Nil
  then show ?thesis using kalloc_empty [of s U] assms by auto
next
  case (Cons p ps)
  obtain t where t: "kalloc s = Ret p t" "kframe s t" "same_off {p} (mem s) (mem t)"
    "page_inv t ps (insert p U)" using kalloc_cons [of s p ps U] assms Cons by auto
  have p: "page_aligned p" "p \<noteq> 0" "p \<notin> U" using page_invD(5,7,8) [OF assms] Cons by auto
  have "\<exists>u. t = u\<lparr>mem := memset (mem u) p 5 4096\<rparr>"
    using t(1) p(2) by (auto simp: kalloc_def Let_def bnd_eq_Ret split: if_splits)
  then have "mem t a = 5" if "pgof a = pgof p" for a
    using that in_block [of 12 p a] p(1) by (auto simp: memset_eq)
  with t p Cons show ?thesis by auto
qed

theorem kalloc_refines_witness:
  "\<exists>t. kalloc one_page = Ret 0x80002000 t \<and> page_inv t [] {0x80002000, 0x80003000}"
  using kalloc_refines [OF one_page_inv] by (auto simp: insert_commute)

text \<open>
  C22. \<open>kfree\<close> of a page the caller owns puts it at the head of the free list and changes
  only that page; every address that is not a page boundary, lies below \<open>end\<close> or at or above
  \<open>PHYSTOP\<close> is refused with a panic before anything is written.
\<close>

theorem kfree_refines:
  assumes "page_inv s fr U"
  shows "(p \<in> U \<longrightarrow> (\<exists>t. kfree p s = Ret () t \<and> kframe s t \<and> same_off {p} (mem s) (mem t) \<and>
      page_inv t (p # fr) (U - {p}))) \<and>
    (\<not> phys_page (syms s) p \<longrightarrow> kfree p s = Panic ''kfree'')"
  using kfree_push [OF assms]
  by (auto simp: kfree_def phys_page_def mod_PGSIZE PGSIZE_def not_le not_less)

theorem kfree_refines_witness:
  "(\<exists>t. kfree 0x80003000 one_page = Ret () t \<and> page_inv t [0x80003000, 0x80002000] {}) \<and>
   kfree 0x80003001 one_page = Panic ''kfree''"
proof -
  have "\<not> phys_page (syms one_page) 0x80003001"
    by (simp add: phys_page_def take_bit_eq_mod)
  then show ?thesis
    using kfree_refines [OF one_page_inv, where p = "0x80003000"] kfree_refines [OF one_page_inv, where p = "0x80003001"]
    by auto
qed

end
