(* ===== verification/Vm.thy ===== *)
theory Vm
  imports Kalloc
begin

text \<open>
  Page tables and user memory: \<open>src/kernel/vm.c\<close> (and \<open>proc_mapstacks\<close> of
  \<open>src/kernel/proc.c\<close>, which \<open>kvmmake\<close> calls). Page tables live in the byte memory, as
  in the kernel: a page-table entry is a 64-bit load from a page-table page. The pointer-valued
  \<open>walk\<close> returns the physical address of an entry, 0 for a null pointer. The copies from
  user space, which read through the process's kernel page table, are in \<open>Vmcopyin\<close>.
\<close>

text \<open>\<open>mmu\<close> is the address translation of the hardware for a supervisor access: from the
  memory, the value of \<open>satp\<close> and a virtual address to a physical one, or a page fault.\<close>

record vm_state = kmem_state +
  kernel_pagetable :: uint64
  satp :: "nat \<Rightarrow> uint64"
  mmu :: "memory \<Rightarrow> uint64 \<Rightarrow> uint64 \<Rightarrow> uint64 option"

section \<open>Walking a page table\<close>

text \<open>The loop of \<open>walk\<close> from \<open>level\<close> down; page-table pages are created on the way when
  \<open>alloc\<close> is set.\<close>

fun walk_from :: "nat \<Rightarrow> uint64 \<Rightarrow> uint64 \<Rightarrow> bool \<Rightarrow> 'x kmem_state_scheme \<Rightarrow>
    (uint64, 'x kmem_state_scheme) outcome" where
  "walk_from 0 pagetable va alloc s = Ret (pagetable + 8 * PX 0 va) s"
| "walk_from (Suc level) pagetable va alloc s =
     (let pte = pagetable + 8 * PX (Suc level) va
      in if load64 (mem s) pte AND PTE_V \<noteq> 0
         then walk_from level (PTE2PA (load64 (mem s) pte)) va alloc s
         else if \<not> alloc then Ret 0 s
         else bnd (kalloc s) (\<lambda>pagetable s.
           if pagetable = 0 then Ret 0 s
           else
             let s = s\<lparr>mem := memset (mem s) pagetable 0 4096\<rparr>;
                 s = s\<lparr>mem := store64 (mem s) pte (PA2PTE pagetable OR PTE_V)\<rparr>
             in walk_from level pagetable va alloc s))"

definition walk :: "uint64 \<Rightarrow> uint64 \<Rightarrow> bool \<Rightarrow> 'x kmem_state_scheme \<Rightarrow> (uint64, 'x kmem_state_scheme) outcome" where
  "walk pagetable va alloc s =
     (if va \<ge> MAXVA then Panic ''walk'' else walk_from 2 pagetable va alloc s)"

lemma walk_bound: "walk pt va al s = Ret p t \<Longrightarrow> va < MAXVA"
  by (simp add: walk_def split: if_splits)

text \<open>The termination measure of every loop that walks one page after the other.\<close>

lemma next_page_measure:
  "walk pt va al s = Ret p t \<Longrightarrow>
   18446744073709551616 - unat (va + 4096) < 18446744073709551616 - unat va"
proof -
  assume "walk pt va al s = Ret p t"
  then have "unat va < 0x4000000000" using walk_bound by (fastforce simp: word_less_nat_alt)
  then show ?thesis by (simp add: PGSIZE_def unat_word_ariths)
qed

definition walkaddr :: "uint64 \<Rightarrow> uint64 \<Rightarrow> 'x kmem_state_scheme \<Rightarrow> (uint64, 'x kmem_state_scheme) outcome" where
  "walkaddr pagetable va s =
     (if va \<ge> MAXVA then Ret 0 s
      else bnd (walk pagetable va False s) (\<lambda>pte s.
        if pte = 0 then Ret 0 s
        else if load64 (mem s) pte AND PTE_V = 0 then Ret 0 s
        else if load64 (mem s) pte AND PTE_U = 0 then Ret 0 s
        else Ret (PTE2PA (load64 (mem s) pte)) s))"

section \<open>Mapping and unmapping\<close>

function mappages_loop :: "uint64 \<Rightarrow> uint64 \<Rightarrow> uint64 \<Rightarrow> uint64 \<Rightarrow> uint64 \<Rightarrow> 'x kmem_state_scheme \<Rightarrow>
    (int, 'x kmem_state_scheme) outcome" where
  "mappages_loop pagetable a lst pa perm s =
     bnd (walk pagetable a True s) (\<lambda>pte s.
       if pte = 0 then Ret (- 1) s
       else if load64 (mem s) pte AND PTE_V \<noteq> 0 then Panic ''mappages: remap''
       else
         let s = s\<lparr>mem := store64 (mem s) pte (PA2PTE pa OR perm OR PTE_V)\<rparr>
         in if a = lst then Ret 0 s
            else mappages_loop pagetable (a + PGSIZE) lst (pa + PGSIZE) perm s)"
  by pat_completeness auto

termination mappages_loop
  by (relation "measure (\<lambda>(pagetable, a, lst, pa, perm, s). 2 ^ 64 - unat a)")
    (auto intro: next_page_measure)

declare mappages_loop.simps [simp del]

definition mappages :: "uint64 \<Rightarrow> uint64 \<Rightarrow> uint64 \<Rightarrow> uint64 \<Rightarrow> uint64 \<Rightarrow> 'x kmem_state_scheme \<Rightarrow>
    (int, 'x kmem_state_scheme) outcome" where
  "mappages pagetable va sz pa perm s =
     (if va mod PGSIZE \<noteq> 0 then Panic ''mappages: va not aligned''
      else if sz mod PGSIZE \<noteq> 0 then Panic ''mappages: size not aligned''
      else if sz = 0 then Panic ''mappages: size''
      else mappages_loop pagetable va (va + sz - PGSIZE) pa perm s)"

definition kvmmap :: "uint64 \<Rightarrow> uint64 \<Rightarrow> uint64 \<Rightarrow> uint64 \<Rightarrow> uint64 \<Rightarrow> 'x kmem_state_scheme \<Rightarrow>
    (unit, 'x kmem_state_scheme) outcome" where
  "kvmmap kpgtbl va pa sz perm s =
     bnd (mappages kpgtbl va sz pa perm s) (\<lambda>r s. if r \<noteq> 0 then Panic ''kvmmap'' else Ret () s)"

function uvmunmap_loop :: "uint64 \<Rightarrow> uint64 \<Rightarrow> uint64 \<Rightarrow> bool \<Rightarrow> 'x kmem_state_scheme \<Rightarrow>
    (unit, 'x kmem_state_scheme) outcome" where
  "uvmunmap_loop pagetable a limit do_free s =
     (if a < limit then
        bnd (walk pagetable a False s) (\<lambda>pte s.
          if pte = 0 then Panic ''uvmunmap: walk''
          else if load64 (mem s) pte AND PTE_V = 0 then Panic ''uvmunmap: not mapped''
          else if PTE_FLAGS (load64 (mem s) pte) = PTE_V then Panic ''uvmunmap: not a leaf''
          else bnd (if do_free then kfree (PTE2PA (load64 (mem s) pte)) s else Ret () s) (\<lambda>_ s.
            uvmunmap_loop pagetable (a + PGSIZE) limit do_free (s\<lparr>mem := store64 (mem s) pte 0\<rparr>)))
      else Ret () s)"
  by pat_completeness auto

termination uvmunmap_loop
  by (relation "measure (\<lambda>(pagetable, a, limit, do_free, s). 2 ^ 64 - unat a)")
    (auto intro: next_page_measure)

declare uvmunmap_loop.simps [simp del]

definition uvmunmap :: "uint64 \<Rightarrow> uint64 \<Rightarrow> uint64 \<Rightarrow> bool \<Rightarrow> 'x kmem_state_scheme \<Rightarrow>
    (unit, 'x kmem_state_scheme) outcome" where
  "uvmunmap pagetable va npages do_free s =
     (if va mod PGSIZE \<noteq> 0 then Panic ''uvmunmap: not aligned''
      else uvmunmap_loop pagetable va (va + npages * PGSIZE) do_free s)"

section \<open>Kernel page tables\<close>

definition proc_mapstacks :: "uint64 \<Rightarrow> 'x kmem_state_scheme \<Rightarrow> (unit, 'x kmem_state_scheme) outcome" where
  "proc_mapstacks kpgtbl s =
     forn NPROC 0 (\<lambda>i s. bnd (kalloc s) (\<lambda>pa s.
       if pa = 0 then Panic ''kalloc''
       else kvmmap kpgtbl (KSTACK (of_nat i)) pa PGSIZE (PTE_R OR PTE_W) s)) s"

definition kvmmake :: "'x kmem_state_scheme \<Rightarrow> (uint64, 'x kmem_state_scheme) outcome" where
  "kvmmake s =
     (let etext = sym_etext (syms s)
      in bnd (kalloc s) (\<lambda>kpgtbl s.
         let s = s\<lparr>mem := memset (mem s) kpgtbl 0 4096\<rparr>
         in bnd (kvmmap kpgtbl UART0 UART0 PGSIZE (PTE_R OR PTE_W) s) (\<lambda>_ s.
            bnd (kvmmap kpgtbl VIRTIO0 VIRTIO0 PGSIZE (PTE_R OR PTE_W) s) (\<lambda>_ s.
            bnd (kvmmap kpgtbl PLIC PLIC 0x400000 (PTE_R OR PTE_W) s) (\<lambda>_ s.
            bnd (kvmmap kpgtbl KERNBASE KERNBASE (etext - KERNBASE) (PTE_R OR PTE_X) s) (\<lambda>_ s.
            bnd (kvmmap kpgtbl etext etext (PHYSTOP - etext) (PTE_R OR PTE_W) s) (\<lambda>_ s.
            bnd (kvmmap kpgtbl TRAMPOLINE (sym_trampoline (syms s)) PGSIZE (PTE_R OR PTE_X) s) (\<lambda>_ s.
            bnd (proc_mapstacks kpgtbl s) (\<lambda>_ s. Ret kpgtbl s)))))))))"

definition kvminit :: "'x vm_state_scheme \<Rightarrow> (unit, 'x vm_state_scheme) outcome" where
  "kvminit s = bnd (kvmmake s) (\<lambda>p s. Ret () (s\<lparr>kernel_pagetable := p\<rparr>))"

definition w_satp :: "uint64 \<Rightarrow> 'x vm_state_scheme \<Rightarrow> 'x vm_state_scheme" where
  "w_satp x s = s\<lparr>satp := (satp s)(tp s := x)\<rparr>"

definition kvminithart :: "'x vm_state_scheme \<Rightarrow> 'x vm_state_scheme" where
  "kvminithart s = w_satp (MAKE_SATP (kernel_pagetable s)) s"

definition uvmcreate :: "'x kmem_state_scheme \<Rightarrow> (uint64, 'x kmem_state_scheme) outcome" where
  "uvmcreate s = bnd (kalloc s) (\<lambda>pagetable s.
     if pagetable = 0 then Ret 0 s
     else Ret pagetable (s\<lparr>mem := memset (mem s) pagetable 0 4096\<rparr>))"

definition proc_kpagetable_init :: "'x kmem_state_scheme \<Rightarrow> (uint64, 'x kmem_state_scheme) outcome" where
  "proc_kpagetable_init s =
     (let etext = sym_etext (syms s)
      in bnd (uvmcreate s) (\<lambda>kpagetable s.
         if kpagetable = 0 then Ret 0 s
         else
            bnd (kvmmap kpagetable UART0 UART0 PGSIZE (PTE_R OR PTE_W) s) (\<lambda>_ s.
            bnd (kvmmap kpagetable VIRTIO0 VIRTIO0 PGSIZE (PTE_R OR PTE_W) s) (\<lambda>_ s.
            bnd (kvmmap kpagetable CLINT CLINT 0x10000 (PTE_R OR PTE_W) s) (\<lambda>_ s.
            bnd (kvmmap kpagetable PLIC PLIC 0x400000 (PTE_R OR PTE_W) s) (\<lambda>_ s.
            bnd (kvmmap kpagetable KERNBASE KERNBASE (etext - KERNBASE) (PTE_R OR PTE_X) s) (\<lambda>_ s.
            bnd (kvmmap kpagetable etext etext (PHYSTOP - etext) (PTE_R OR PTE_W) s) (\<lambda>_ s.
            bnd (kvmmap kpagetable TRAMPOLINE (sym_trampoline (syms s)) PGSIZE (PTE_R OR PTE_X) s) (\<lambda>_ s.
            Ret kpagetable s)))))))))"

section \<open>User memory\<close>

definition uvmfirst :: "uint64 \<Rightarrow> uint8 list \<Rightarrow> 'x kmem_state_scheme \<Rightarrow> (unit, 'x kmem_state_scheme) outcome" where
  "uvmfirst pagetable src s =
     (if length src \<ge> 4096 then Panic ''uvmfirst: more than a page''
      else bnd (kalloc s) (\<lambda>pg s.
        let s = s\<lparr>mem := memset (mem s) pg 0 4096\<rparr>
        in bnd (mappages pagetable 0 PGSIZE pg (PTE_W OR PTE_R OR PTE_X OR PTE_U) s) (\<lambda>_ s.
           Ret () (s\<lparr>mem := put_bytes (mem s) pg src\<rparr>))))"

text \<open>\<open>npages\<close> is an \<open>int\<close> in the code: the page count is cut to 32 bits and sign-extended
  when it is passed on.\<close>

definition uvmdealloc :: "uint64 \<Rightarrow> uint64 \<Rightarrow> uint64 \<Rightarrow> 'x kmem_state_scheme \<Rightarrow>
    (uint64, 'x kmem_state_scheme) outcome" where
  "uvmdealloc pagetable oldsz newsz s =
     (if newsz \<ge> oldsz then Ret oldsz s
      else bnd (if PGROUNDUP newsz < PGROUNDUP oldsz then
                  let npages = ucast ((PGROUNDUP oldsz - PGROUNDUP newsz) div PGSIZE) :: uint32
                  in uvmunmap pagetable (PGROUNDUP newsz) (scast npages) True s
                else Ret () s) (\<lambda>_ s. Ret newsz s))"

text \<open>The loop of \<open>uvmalloc\<close>; \<open>oldsz\<close> is already rounded up.\<close>

function uvmalloc_loop :: "uint64 \<Rightarrow> uint64 \<Rightarrow> uint64 \<Rightarrow> uint64 \<Rightarrow> uint64 \<Rightarrow> 'x kmem_state_scheme \<Rightarrow>
    (uint64, 'x kmem_state_scheme) outcome" where
  "uvmalloc_loop pagetable a oldsz newsz xperm s =
     (if a < newsz then
        bnd (kalloc s) (\<lambda>pg s.
          if pg = 0 then bnd (uvmdealloc pagetable a oldsz s) (\<lambda>_ s. Ret 0 s)
          else
            let s = s\<lparr>mem := memset (mem s) pg 0 4096\<rparr>
            in bnd (mappages pagetable a PGSIZE pg (PTE_R OR PTE_U OR xperm) s) (\<lambda>r s.
               if r \<noteq> 0 then
                 bnd (kfree pg s) (\<lambda>_ s. bnd (uvmdealloc pagetable a oldsz s) (\<lambda>_ s. Ret 0 s))
               else uvmalloc_loop pagetable (a + PGSIZE) oldsz newsz xperm s))
      else Ret newsz s)"
  by pat_completeness auto

lemma mappages_bound: "mappages pt a sz pa perm s = Ret r t \<Longrightarrow> a < MAXVA"
  by (subst (asm) mappages_def, subst (asm) mappages_loop.simps)
    (auto simp: bnd_eq_Ret dest: walk_bound split: if_splits)

lemma next_page_measure_map:
  "mappages pt va sz pa perm s = Ret r t \<Longrightarrow>
   18446744073709551616 - unat (va + 4096) < 18446744073709551616 - unat va"
proof -
  assume "mappages pt va sz pa perm s = Ret r t"
  then have "unat va < 0x4000000000" using mappages_bound by (fastforce simp: word_less_nat_alt)
  then show ?thesis by (simp add: PGSIZE_def unat_word_ariths)
qed

termination uvmalloc_loop
  by (relation "measure (\<lambda>(pagetable, a, oldsz, newsz, xperm, s). 2 ^ 64 - unat a)")
    (auto intro: next_page_measure_map)

declare uvmalloc_loop.simps [simp del]

definition uvmalloc :: "uint64 \<Rightarrow> uint64 \<Rightarrow> uint64 \<Rightarrow> uint64 \<Rightarrow> 'x kmem_state_scheme \<Rightarrow>
    (uint64, 'x kmem_state_scheme) outcome" where
  "uvmalloc pagetable oldsz newsz xperm s =
     (if newsz < oldsz then Ret oldsz s
      else let oldsz = PGROUNDUP oldsz in uvmalloc_loop pagetable oldsz oldsz newsz xperm s)"

text \<open>\<open>freewalk\<close> recurses on the levels of the table. The first argument bounds the depth:
  a table of \<open>walk\<close> has three levels, so depth 3 is enough, and running out of it shows up as
  \<open>NoFuel\<close>.\<close>

primrec freewalk_depth :: "nat \<Rightarrow> uint64 \<Rightarrow> 'x kmem_state_scheme \<Rightarrow> (unit, 'x kmem_state_scheme) outcome" where
  "freewalk_depth 0 pagetable s = NoFuel"
| "freewalk_depth (Suc d) pagetable s =
     bnd (forn 512 0 (\<lambda>i s.
       let pte = load64 (mem s) (pagetable + 8 * of_nat i)
       in if pte AND PTE_V \<noteq> 0 \<and> pte AND (PTE_R OR PTE_W OR PTE_X) = 0 then
            bnd (freewalk_depth d (PTE2PA pte) s) (\<lambda>_ s.
              Ret () (s\<lparr>mem := store64 (mem s) (pagetable + 8 * of_nat i) 0\<rparr>))
          else if pte AND PTE_V \<noteq> 0 then Panic ''freewalk: leaf''
          else Ret () s) s) (\<lambda>_ s. kfree pagetable s)"

definition freewalk :: "uint64 \<Rightarrow> 'x kmem_state_scheme \<Rightarrow> (unit, 'x kmem_state_scheme) outcome" where
  "freewalk pagetable s = freewalk_depth 3 pagetable s"

definition uvmfree :: "uint64 \<Rightarrow> uint64 \<Rightarrow> 'x kmem_state_scheme \<Rightarrow> (unit, 'x kmem_state_scheme) outcome" where
  "uvmfree pagetable sz s =
     bnd (if sz > 0 then uvmunmap pagetable 0 (PGROUNDUP sz div PGSIZE) True s else Ret () s) (\<lambda>_ s.
     freewalk pagetable s)"

function uvmcopy_loop :: "uint64 \<Rightarrow> uint64 \<Rightarrow> uint64 \<Rightarrow> uint64 \<Rightarrow> 'x kmem_state_scheme \<Rightarrow>
    (int, 'x kmem_state_scheme) outcome" where
  "uvmcopy_loop old new i sz s =
     (if i < sz then
        bnd (walk old i False s) (\<lambda>pte s.
          if pte = 0 then Panic ''uvmcopy: pte should exist''
          else if load64 (mem s) pte AND PTE_V = 0 then Panic ''uvmcopy: page not present''
          else
            let pa = PTE2PA (load64 (mem s) pte);
                flags = PTE_FLAGS (load64 (mem s) pte);
                err = (\<lambda>s. bnd (uvmunmap new 0 (i div PGSIZE) True s) (\<lambda>_ s. Ret (- 1) s))
            in bnd (kalloc s) (\<lambda>pg s.
               if pg = 0 then err s
               else
                 let s = s\<lparr>mem := memmove (mem s) pg pa 4096\<rparr>
                 in bnd (mappages new i PGSIZE pg flags s) (\<lambda>r s.
                    if r \<noteq> 0 then bnd (kfree pg s) (\<lambda>_ s. err s)
                    else uvmcopy_loop old new (i + PGSIZE) sz s)))
      else Ret 0 s)"
  by pat_completeness auto

termination uvmcopy_loop
  by (relation "measure (\<lambda>(old, new, i, sz, s). 2 ^ 64 - unat i)") (auto intro: next_page_measure_map)

declare uvmcopy_loop.simps [simp del]

definition uvmcopy :: "uint64 \<Rightarrow> uint64 \<Rightarrow> uint64 \<Rightarrow> 'x kmem_state_scheme \<Rightarrow> (int, 'x kmem_state_scheme) outcome" where
  "uvmcopy old new sz s = uvmcopy_loop old new 0 sz s"

definition uvmclear :: "uint64 \<Rightarrow> uint64 \<Rightarrow> 'x kmem_state_scheme \<Rightarrow> (unit, 'x kmem_state_scheme) outcome" where
  "uvmclear pagetable va s =
     bnd (walk pagetable va False s) (\<lambda>pte s.
       if pte = 0 then Panic ''uvmclear''
       else Ret () (s\<lparr>mem := store64 (mem s) pte (load64 (mem s) pte AND NOT PTE_U)\<rparr>))"

lemma page_offset: "va - PGROUNDDOWN va = take_bit 12 va"
  using word_split [of va 12] by (simp add: PGROUNDDOWN_eq diff_eq_eq add.commute)

text \<open>\<open>src\<close> is the bytes the kernel pointer of that name points to, \<open>len\<close> their number.\<close>

function copyout :: "uint64 \<Rightarrow> uint64 \<Rightarrow> uint8 list \<Rightarrow> 'x kmem_state_scheme \<Rightarrow>
    (int, 'x kmem_state_scheme) outcome" where
  "copyout pagetable dstva src s =
     (if src \<noteq> [] then
        let va0 = PGROUNDDOWN dstva
        in if va0 \<ge> MAXVA then Ret (- 1) s
           else bnd (walk pagetable va0 False s) (\<lambda>pte s.
             if pte = 0 \<or> load64 (mem s) pte AND PTE_V = 0 \<or> load64 (mem s) pte AND PTE_U = 0 \<or>
               load64 (mem s) pte AND PTE_W = 0
             then Ret (- 1) s
             else
               let pa0 = PTE2PA (load64 (mem s) pte);
                   n = min (4096 - unat (dstva - va0)) (length src);
                   s = s\<lparr>mem := put_bytes (mem s) (pa0 + (dstva - va0)) (take n src)\<rparr>
               in copyout pagetable (va0 + PGSIZE) (drop n src) s)
      else Ret 0 s)"
  by pat_completeness auto

termination copyout
proof (relation "measure (\<lambda>(pagetable, dstva, src, s). length src)", goal_cases)
  case (2 pagetable dstva src s)
  have "unat (dstva - PGROUNDDOWN dstva) < 4096" by (simp add: page_offset unat_take_bit12)
  then show ?case using 2 by auto
qed simp

declare copyout.simps [simp del]

section \<open>Printing and shadowing page tables\<close>

primrec vmprint_depth :: "nat \<Rightarrow> uint64 \<Rightarrow> nat \<Rightarrow> 'x kmem_state_scheme \<Rightarrow> (unit, 'x kmem_state_scheme) outcome" where
  "vmprint_depth 0 pagetable dep s = NoFuel"
| "vmprint_depth (Suc d) pagetable dep s =
     forn 512 0 (\<lambda>i s.
       let pte = load64 (mem s) (pagetable + 8 * of_nat i)
       in if pte AND PTE_V \<noteq> 0 then
            bnd (forn dep 0 (\<lambda>j s. printf ''.. '' [] s) s) (\<lambda>_ s.
            bnd (printf (''%d: pte %p pa %p'' @ [CHR 10]) [AInt (of_nat i), APtr pte, APtr (PTE2PA pte)] s) (\<lambda>_ s.
            if pte AND (PTE_R OR PTE_W OR PTE_X) = 0
            then vmprint_depth d (PTE2PA pte) (dep + 1) s
            else Ret () s))
          else Ret () s) s"

definition vmprint :: "uint64 \<Rightarrow> 'x kmem_state_scheme \<Rightarrow> (unit, 'x kmem_state_scheme) outcome" where
  "vmprint pagetable s =
     bnd (printf (''page table %p'' @ [CHR 10]) [APtr pagetable] s) (\<lambda>_ s. vmprint_depth 3 pagetable 1 s)"

function u2kvmcopy_loop :: "uint64 \<Rightarrow> uint64 \<Rightarrow> uint64 \<Rightarrow> uint64 \<Rightarrow> 'x kmem_state_scheme \<Rightarrow>
    (unit, 'x kmem_state_scheme) outcome" where
  "u2kvmcopy_loop pagetable kpagetable i newsz s =
     (if i < newsz then
        bnd (walk pagetable i False s) (\<lambda>pte_from s.
          if pte_from = 0 then Panic ''u2kvmcopy: src pte does not exist''
          else bnd (walk kpagetable i True s) (\<lambda>pte_to s.
            if pte_to = 0 then Panic ''u2kvmcopy: pte walk failed''
            else
              let pa = PTE2PA (load64 (mem s) pte_from);
                  flags = PTE_FLAGS (load64 (mem s) pte_from) AND NOT PTE_U
              in u2kvmcopy_loop pagetable kpagetable (i + PGSIZE) newsz
                   (s\<lparr>mem := store64 (mem s) pte_to (PA2PTE pa OR flags)\<rparr>)))
      else Ret () s)"
  by pat_completeness auto

termination u2kvmcopy_loop
  by (relation "measure (\<lambda>(pagetable, kpagetable, i, newsz, s). 2 ^ 64 - unat i)")
    (auto intro: next_page_measure)

declare u2kvmcopy_loop.simps [simp del]

definition u2kvmcopy :: "uint64 \<Rightarrow> uint64 \<Rightarrow> uint64 \<Rightarrow> uint64 \<Rightarrow> 'x kmem_state_scheme \<Rightarrow>
    (unit, 'x kmem_state_scheme) outcome" where
  "u2kvmcopy pagetable kpagetable oldsz newsz s =
     (if newsz < oldsz then Ret () s
      else u2kvmcopy_loop pagetable kpagetable (PGROUNDUP oldsz) newsz s)"

definition kvmdealloc :: "uint64 \<Rightarrow> uint64 \<Rightarrow> uint64 \<Rightarrow> 'x kmem_state_scheme \<Rightarrow>
    (unit, 'x kmem_state_scheme) outcome" where
  "kvmdealloc pagetable oldsz newsz s = (if newsz \<ge> oldsz then Ret () s else Ret () s)"

end
