(* ===== verification/Pagetable.thy ===== *)
theory Pagetable
  imports Vm
begin

text \<open>
  Page tables as trees. \<open>tables\<close> is the set of page-table pages below a table, \<open>pt_wf\<close>
  says that they form a tree, \<open>slot\<close> is the address of the last-level entry for a virtual
  address and \<open>leaf\<close> its content, 0 where the tree has no such entry: \<open>leaf\<close> is the
  abstract page table, a function from virtual addresses to entries. The lemmas relate
  \<open>walk\<close> to it, with and without allocation.
\<close>

section \<open>Entries\<close>

lemma idx8:
  assumes "unat (i :: uint64) < 512"
  shows "take_bit 12 (8 * i) = 8 * i" "unat (8 * i) = 8 * unat i"
proof -
  show u: "unat (8 * i) = 8 * unat i" using assms by (simp add: unat_word_ariths)
  show "take_bit 12 (8 * i) = 8 * i" by (rule take_bit_of_small) (use assms u in simp)
qed

lemma pgof_idx: "page_aligned pt \<Longrightarrow> unat i < 512 \<Longrightarrow> pgof (pt + 8 * i) = pgof pt"
  by (rule drop_bit_add_aligned [OF _ idx8(1)])

lemma idx_inj:
  assumes "pt + 8 * i = pt + 8 * j" "unat i < 512" "unat j < 512"
  shows "i = (j :: uint64)"
proof -
  have "unat (8 * i) = unat (8 * j)" using assms(1) by simp
  then show ?thesis using idx8(2) assms(2,3) by (simp add: word_unat_eq_iff)
qed

lemma entry_same_off:
  assumes "same_off S m m'" "page_aligned pt" "\<forall>q\<in>S. page_aligned q" "pt \<notin> S" "unat i < 512"
  shows "load64 m' (pt + 8 * i) = load64 m (pt + 8 * i)"
  using assms page_in_image [of pt S]
  by (intro same_off_load64 [OF assms(1)]) (auto simp: aligned8_entry pgof_idx)

lemma load64_zero_page:
  assumes "page_aligned p" "\<forall>a. pgof a = pgof p \<longrightarrow> m a = 0" "unat i < 512"
  shows "load64 m (p + 8 * i) = 0"
proof -
  have "load64 m (p + 8 * i) = load64 (\<lambda>_. 0) (p + 8 * i)"
  proof (rule load64_cong)
    fix x assume "unat (x - (p + 8 * i)) < 8"
    then have "pgof x = pgof (p + 8 * i)" by (rule pgof_in_word [OF aligned8_entry [OF assms(1)]])
    then show "m x = 0" using assms(2) pgof_idx [OF assms(1,3)] by simp
  qed
  then show ?thesis by simp
qed

lemma or_valid [simp]: "(x OR 1) AND 1 = (1 :: uint64)"
  by (rule bit_word_eqI) (auto simp: bit_simps)

lemma and_low_flags: "x AND 14 = PTE_FLAGS x AND 14"
  by (simp add: PTE_FLAGS_def and.assoc)

section \<open>Page tables as trees\<close>

abbreviation valid :: "uint64 \<Rightarrow> bool" where
  "valid pte \<equiv> pte AND 1 \<noteq> 0"

abbreviation ent :: "memory \<Rightarrow> uint64 \<Rightarrow> uint64 \<Rightarrow> uint64" where
  "ent m pt i \<equiv> load64 m (pt + 8 * i)"

abbreviation child :: "memory \<Rightarrow> uint64 \<Rightarrow> uint64 \<Rightarrow> uint64" where
  "child m pt i \<equiv> PTE2PA (ent m pt i)"

primrec tables :: "memory \<Rightarrow> nat \<Rightarrow> uint64 \<Rightarrow> uint64 set" where
  "tables m 0 pt = {pt}"
| "tables m (Suc l) pt = insert pt (\<Union>i\<in>{i. unat i < 512 \<and> valid (ent m pt i)}.
     tables m l (child m pt i))"

primrec pt_wf :: "memory \<Rightarrow> nat \<Rightarrow> uint64 \<Rightarrow> bool" where
  "pt_wf m 0 pt \<longleftrightarrow> page_aligned pt \<and> pt \<noteq> 0"
| "pt_wf m (Suc l) pt \<longleftrightarrow> page_aligned pt \<and> pt \<noteq> 0 \<and>
     (\<forall>i. unat i < 512 \<longrightarrow> valid (ent m pt i) \<longrightarrow>
        ent m pt i AND (PTE_R OR PTE_W OR PTE_X) = 0 \<and>
        pt_wf m l (child m pt i) \<and>
        pt \<notin> tables m l (child m pt i)) \<and>
     (\<forall>i j. unat i < 512 \<longrightarrow> unat j < 512 \<longrightarrow> i \<noteq> j \<longrightarrow>
        valid (ent m pt i) \<longrightarrow> valid (ent m pt j) \<longrightarrow>
        tables m l (child m pt i) \<inter> tables m l (child m pt j) = {})"

primrec slot :: "memory \<Rightarrow> nat \<Rightarrow> uint64 \<Rightarrow> uint64 \<Rightarrow> uint64" where
  "slot m 0 pt va = pt + 8 * PX 0 va"
| "slot m (Suc l) pt va =
     (let e = ent m pt (PX (Suc l) va) in if valid e then slot m l (PTE2PA e) va else 0)"

primrec leaf :: "memory \<Rightarrow> nat \<Rightarrow> uint64 \<Rightarrow> uint64 \<Rightarrow> uint64" where
  "leaf m 0 pt va = load64 m (pt + 8 * PX 0 va)"
| "leaf m (Suc l) pt va =
     (let e = ent m pt (PX (Suc l) va) in if valid e then leaf m l (PTE2PA e) va else 0)"

lemma pt_wf_root: "pt_wf m l pt \<Longrightarrow> page_aligned pt \<and> pt \<noteq> 0 \<and> pt \<in> tables m l pt"
  by (cases l) auto

lemma pt_wf_tables: "pt_wf m l pt \<Longrightarrow> q \<in> tables m l pt \<Longrightarrow> page_aligned q \<and> q \<noteq> 0"
  by (induction l arbitrary: pt) auto

lemma pt_wf_child:
  assumes "pt_wf m (Suc l) pt" "unat i < 512" "valid (ent m pt i)"
  shows "pt_wf m l (child m pt i)"
    "pt \<notin> tables m l (child m pt i)"
    "tables m l (child m pt i) \<subseteq> tables m (Suc l) pt"
  using assms by auto

lemma slot_in_tables:
  "pt_wf m l pt \<Longrightarrow> slot m l pt va \<noteq> 0 \<Longrightarrow>
   \<exists>q \<in> tables m l pt. slot m l pt va = q + 8 * PX 0 va \<and> page_aligned q"
proof (induction l arbitrary: pt)
  case (Suc l)
  then have v: "valid (ent m pt (PX (Suc l) va))" by (auto simp: Let_def split: if_splits)
  from Suc.IH [OF pt_wf_child(1) [OF Suc.prems(1) unat_PX v]] Suc.prems(2) v
    pt_wf_child(3) [OF Suc.prems(1) unat_PX v]
  show ?case by (auto simp: Let_def)
qed auto

lemma entry_nonzero:
  assumes "page_aligned pt" "pt \<noteq> 0" "unat i < 512"
  shows "pt + 8 * i \<noteq> 0"
proof
  assume "pt + 8 * i = 0"
  then have "pgof pt = pgof 0" using pgof_idx [OF assms(1,3)] by simp
  then show False using page_eq [of pt 0] assms by simp
qed

lemma leaf_slot:
  "pt_wf m l pt \<Longrightarrow> leaf m l pt va = (if slot m l pt va = 0 then 0 else load64 m (slot m l pt va))"
proof (induction l arbitrary: pt)
  case 0
  then show ?case using entry_nonzero [of pt, OF _ _ unat_PX] by simp
next
  case (Suc l)
  show ?case
    using Suc.IH [OF pt_wf_child(1) [OF Suc.prems unat_PX [of "Suc l" va]]] by (simp add: Let_def)
qed

section \<open>Changing a table\<close>

text \<open>Memory that changes elsewhere only.\<close>

lemma pt_frame:
  assumes "same_off S m m'" "\<forall>q\<in>S. page_aligned q" "pt_wf m l pt" "tables m l pt \<inter> S = {}"
  shows "tables m' l pt = tables m l pt \<and> pt_wf m' l pt \<and>
    slot m' l pt va = slot m l pt va \<and> leaf m' l pt va = leaf m l pt va"
  using assms(3,4)
proof (induction l arbitrary: pt)
  case 0
  then show ?case using entry_same_off [OF assms(1) _ assms(2) _ unat_PX, of pt] by simp
next
  case (Suc l)
  have e: "ent m' pt i = ent m pt i" if "unat i < 512" for i
    using Suc.prems that by (intro entry_same_off [OF assms(1) _ assms(2)]) auto
  have IH: "tables m' l (child m pt i) = tables m l (child m pt i) \<and>
      pt_wf m' l (child m pt i) \<and>
      slot m' l (child m pt i) va = slot m l (child m pt i) va \<and>
      leaf m' l (child m pt i) va = leaf m l (child m pt i) va"
    if "unat i < 512" "valid (ent m pt i)" for i
    using pt_wf_child [OF Suc.prems(1) that] Suc.prems(2) by (intro Suc.IH) auto
  have "tables m' (Suc l) pt = tables m (Suc l) pt" using e IH by auto
  moreover have "pt_wf m' (Suc l) pt" using Suc.prems(1) e IH by auto
  ultimately show ?case using e IH unat_PX [of "Suc l" va] by (auto simp: Let_def)
qed

text \<open>Memory that changes below one entry, possibly adding new page-table pages there.\<close>

lemma pt_child_change:
  assumes wf: "pt_wf m (Suc l) pt" and i: "unat i < 512" "valid (ent m pt i)"
    and c: "c = child m pt i"
    and off: "same_off (tables m l c \<union> N) m m'" and N: "\<forall>q\<in>N. page_aligned q" "N \<inter> tables m (Suc l) pt = {}"
    and c': "pt_wf m' l c" "tables m' l c = tables m l c \<union> N"
  shows "pt_wf m' (Suc l) pt" "tables m' (Suc l) pt = tables m (Suc l) pt \<union> N"
    "leaf m' (Suc l) pt va = (if PX (Suc l) va = i then leaf m' l c va else leaf m (Suc l) pt va)"
    "slot m' (Suc l) pt va = (if PX (Suc l) va = i then slot m' l c va else slot m (Suc l) pt va)"
proof -
  note ch = pt_wf_child [OF wf i, folded c]
  have al: "\<forall>q\<in>tables m l c \<union> N. page_aligned q" using N(1) pt_wf_tables [OF ch(1)] by auto
  have e: "ent m' pt j = ent m pt j" if "unat j < 512" for j
    using that wf ch(2) N(2) pt_wf_root [OF wf]
    by (intro entry_same_off [OF off _ al]) auto
  have other: "tables m' l (child m pt j) = tables m l (child m pt j) \<and>
      pt_wf m' l (child m pt j) \<and>
      slot m' l (child m pt j) va = slot m l (child m pt j) va \<and>
      leaf m' l (child m pt j) va = leaf m l (child m pt j) va"
    if j: "unat j < 512" "j \<noteq> i" "valid (ent m pt j)" for j
  proof (rule pt_frame [OF off al pt_wf_child(1) [OF wf j(1,3)]])
    have "tables m l c \<inter> tables m l (child m pt j) = {}"
      using wf i j unfolding c by simp
    then show "tables m l (child m pt j) \<inter> (tables m l c \<union> N) = {}"
      using N(2) pt_wf_child(3) [OF wf j(1,3)] by blast
  qed
  have tab: "tables m' l (child m pt j) =
      tables m l (child m pt j) \<union> (if j = i then N else {})"
    if "unat j < 512" "valid (ent m pt j)" for j
    using other [OF that(1) _ that(2)] c'(2) c by auto
  have sub: "N \<inter> tables m l (child m pt j) = {}"
    if "unat j < 512" "valid (ent m pt j)" for j
    using N(2) pt_wf_child(3) [OF wf that] by blast
  show "tables m' (Suc l) pt = tables m (Suc l) pt \<union> N"
  proof -
    have "(\<Union>j\<in>{j. unat j < 512 \<and> valid (ent m' pt j)}. tables m' l (child m' pt j)) =
      (\<Union>j\<in>{j. unat j < 512 \<and> valid (ent m pt j)}.
        tables m l (child m pt j) \<union> (if j = i then N else {}))"
      by (rule SUP_cong) (auto simp: e tab)
    also have "\<dots> = (\<Union>j\<in>{j. unat j < 512 \<and> valid (ent m pt j)}.
        tables m l (child m pt j)) \<union> N"
      using i by (auto split: if_splits)
    finally show ?thesis by simp
  qed
  show "pt_wf m' (Suc l) pt"
  proof -
    have "pt_wf m' l (child m pt j)" if "unat j < 512" "valid (ent m pt j)" for j
      using other [OF that(1) _ that(2)] c'(1) c by (cases "j = i") auto
    moreover have "pt \<notin> N" using N(2) by auto
    ultimately show ?thesis
      using wf sub by (simp add: e tab Int_Un_distrib Int_Un_distrib2) (simp add: Int_commute)
  qed
  show "leaf m' (Suc l) pt va = (if PX (Suc l) va = i then leaf m' l c va else leaf m (Suc l) pt va)"
    using other [OF unat_PX [of "Suc l" va]] i c by (auto simp: Let_def e unat_PX)
  show "slot m' (Suc l) pt va = (if PX (Suc l) va = i then slot m' l c va else slot m (Suc l) pt va)"
    using other [OF unat_PX [of "Suc l" va]] i c by (auto simp: Let_def e unat_PX)
qed

text \<open>A zeroed page is an empty table at every level.\<close>

lemma zero_table:
  assumes "page_aligned q" "q \<noteq> 0" "\<forall>a. pgof a = pgof q \<longrightarrow> m a = 0"
  shows "tables m l q = {q} \<and> pt_wf m l q \<and> leaf m l q va = 0"
  using assms load64_zero_page [OF assms(1,3)] by (cases l) (auto simp: Let_def unat_PX)

text \<open>Installing a zeroed page in an invalid entry.\<close>

lemma pt_grow_entry:
  assumes wf: "pt_wf m (Suc l) pt" and i: "unat i < 512" "\<not> valid (ent m pt i)"
    and q: "page_aligned q" "q \<noteq> 0" "q \<notin> tables m (Suc l) pt"
    and m1: "same_off {q} m m1" "\<forall>a. pgof a = pgof q \<longrightarrow> m1 a = 0"
  defines "m' \<equiv> store64 m1 (pt + 8 * i) (PA2PTE q OR PTE_V)"
  shows "ent m' pt i = PA2PTE q OR PTE_V" "valid (ent m' pt i)"
    "child m' pt i = q"
    "pt_wf m' (Suc l) pt" "tables m' (Suc l) pt = insert q (tables m (Suc l) pt)"
    "leaf m' (Suc l) pt va = leaf m (Suc l) pt va" "same_off {pt, q} m m'" "tables m' l q = {q}"
proof -
  have pt: "page_aligned pt" "pt \<noteq> q" using pt_wf_root [OF wf] q(3) by auto
  have "drop_bit 10 (1 :: uint64) = 0" by simp
  note pa = PTE2PA_PA2PTE [OF q(1) this]
  show ent: "ent m' pt i = PA2PTE q OR PTE_V" by (simp add: m'_def)
  show v: "valid (ent m' pt i)" by (simp add: ent)
  have nl: "ent m' pt i AND (PTE_R OR PTE_W OR PTE_X) = 0"
    using PTE_FLAGS_PA2PTE [of 1 q] and_low_flags [of "ent m' pt i"] by (simp add: ent)
  show ch: "child m' pt i = q" using pa by (simp add: ent)
  have e: "ent m' pt j = ent m pt j" if "unat j < 512" "j \<noteq> i" for j
  proof -
    have "pt + 8 * i \<noteq> pt + 8 * j" using idx_inj i(1) that by blast
    then have "ent m' pt j = ent m1 pt j"
      by (simp add: m'_def load64_store64_other aligned8_entry pt(1))
    also have "\<dots> = ent m pt j"
      using that pt q(1) by (intro entry_same_off [OF m1(1)]) auto
    finally show ?thesis .
  qed
  have st: "same_off {pt} m1 m'"
    unfolding m'_def using pt(1) i(1) by (intro same_off_store64) (auto simp: aligned8_entry pgof_idx)
  show off: "same_off {pt, q} m m'"
    using same_off_mono [OF m1(1), of "{pt, q}"] same_off_mono [OF st, of "{pt, q}"] same_off_trans by blast
  have z: "\<forall>a. pgof a = pgof q \<longrightarrow> m' a = 0"
    using m1(2) st page_eq [OF pt(1) q(1)] pt(2) by (auto simp: same_off_def)
  have new: "tables m' l q = {q}" "pt_wf m' l q" "leaf m' l q va = 0"
    using zero_table [OF q(1,2) z] by auto
  then show "tables m' l q = {q}" by simp
  have other: "tables m' l (child m pt j) = tables m l (child m pt j) \<and> pt_wf m' l (child m pt j) \<and>
      slot m' l (child m pt j) va = slot m l (child m pt j) va \<and>
      leaf m' l (child m pt j) va = leaf m l (child m pt j) va"
    if "unat j < 512" "valid (ent m pt j)" for j
    using pt_wf_child [OF wf that] q pt by (intro pt_frame [OF off]) auto
  have split: "valid (ent m' pt j) \<longleftrightarrow> j = i \<or> valid (ent m pt j)" if "unat j < 512" for j
    using e [OF that] v by (cases "j = i") auto
  then have idx: "{j. unat j < 512 \<and> valid (ent m' pt j)} = insert i {j. unat j < 512 \<and> valid (ent m pt j)}"
    using i(1) by auto
  have chj: "child m' pt j = child m pt j" "j \<noteq> i" if "unat j < 512" "valid (ent m pt j)" for j
    using e [OF that(1)] i(2) that(2) by (cases "j = i"; simp)+
  have "(\<Union>j\<in>{j. unat j < 512 \<and> valid (ent m pt j)}. tables m' l (child m' pt j)) =
      (\<Union>j\<in>{j. unat j < 512 \<and> valid (ent m pt j)}. tables m l (child m pt j))"
    by (rule SUP_cong) (auto simp: chj other)
  then show tab: "tables m' (Suc l) pt = insert q (tables m (Suc l) pt)"
    using new(1) ch by (simp add: idx insert_commute)
  have sub: "q \<notin> tables m l (child m pt j)" if "unat j < 512" "valid (ent m pt j)" for j
    using pt_wf_child(3) [OF wf that] q(3) by blast
  have c: "tables m' l (child m' pt j) = (if j = i then {q} else tables m l (child m pt j)) \<and>
      pt_wf m' l (child m' pt j) \<and> pt \<notin> tables m' l (child m' pt j) \<and> ent m' pt j AND 14 = 0"
    if "unat j < 512" "j = i \<or> valid (ent m pt j)" for j
    using that new ch nl e [OF that(1)] other [of j] pt(2) wf by (cases "j = i") auto
  show "pt_wf m' (Suc l) pt"
    using wf c sub pt(2) by (auto simp: split)
  show "leaf m' (Suc l) pt va = leaf m (Suc l) pt va"
    using e [OF unat_PX [of "Suc l" va]] other [OF unat_PX [of "Suc l" va]] new(3) ch i(2)
    by (cases "PX (Suc l) va = i") (auto simp: Let_def)
qed

section \<open>walk\<close>

lemma walk_from_lookup: "walk_from l pt va False s = Ret (slot (mem s) l pt va) s"
  by (induction l arbitrary: pt) (simp_all add: Let_def)

text \<open>Writing the entry \<open>walk\<close> points to.\<close>

lemma slot_store:
  fixes v :: uint64
  assumes "pt_wf m l pt" "slot m l pt va \<noteq> 0"
  defines "m' \<equiv> store64 m (slot m l pt va) v"
  shows "pt_wf m' l pt \<and> tables m' l pt = tables m l pt \<and> same_off (tables m l pt) m m' \<and>
    slot m' l pt va' = slot m l pt va' \<and>
    leaf m' l pt va' = (if \<forall>k\<le>l. PX k va' = PX k va then v else leaf m l pt va')"
  using assms(1,2) unfolding m'_def
proof (induction l arbitrary: pt)
  case 0
  then have "same_off {pt} m (store64 m (pt + 8 * PX 0 va) v)"
    by (intro same_off_store64) (auto simp: aligned8_entry pgof_entry)
  moreover have "PX 0 va' \<noteq> PX 0 va \<Longrightarrow> pt + 8 * PX 0 va \<noteq> pt + 8 * PX 0 va'"
    using entry_inj [of pt 0 va 0 va'] by auto
  ultimately show ?case using 0 by (auto simp: load64_store64_other aligned8_entry)
next
  case (Suc l)
  let ?i = "PX (Suc l) va" and ?c = "child m pt (PX (Suc l) va)"
  let ?m = "store64 m (slot m (Suc l) pt va) v"
  have v: "valid (ent m pt ?i)" using Suc.prems(2) by (auto simp: Let_def split: if_splits)
  then have sl: "slot m (Suc l) pt va = slot m l ?c va" by (simp add: Let_def)
  note ch = pt_wf_child [OF Suc.prems(1) unat_PX v]
  have IH: "pt_wf ?m l ?c \<and> tables ?m l ?c = tables m l ?c \<and> same_off (tables m l ?c) m ?m \<and>
    slot ?m l ?c va' = slot m l ?c va' \<and>
    leaf ?m l ?c va' = (if \<forall>k\<le>l. PX k va' = PX k va then v else leaf m l ?c va')"
    using Suc.IH [OF ch(1)] Suc.prems(2) sl by simp
  have prem: "same_off (tables m l ?c \<union> {}) m ?m" "\<forall>q\<in>{}. page_aligned q"
    "{} \<inter> tables m (Suc l) pt = {}" "pt_wf ?m l ?c" "tables ?m l ?c = tables m l ?c \<union> {}"
    using IH by simp_all
  note cc = pt_child_change [OF Suc.prems(1) unat_PX v refl prem]
  have "(\<forall>k\<le>Suc l. PX k va' = PX k va) \<longleftrightarrow> PX (Suc l) va' = ?i \<and> (\<forall>k\<le>l. PX k va' = PX k va)"
    by (auto simp: le_Suc_eq)
  moreover have "same_off (tables m (Suc l) pt) m ?m" using IH ch(3) by (blast intro: same_off_mono)
  moreover have "leaf m (Suc l) pt va' = leaf m l ?c va'" "slot m (Suc l) pt va' = slot m l ?c va'"
    if "PX (Suc l) va' = ?i"
    using that v by (simp_all add: Let_def)
  ultimately show ?case
    using cc(1,2) cc(3,4) [of va'] IH
    by (cases "PX (Suc l) va' = ?i") (auto simp del: pt_wf.simps tables.simps leaf.simps slot.simps)
qed

text \<open>The result of a walk that may allocate: the new page-table pages \<open>N\<close> come from the front
  of the free list, the abstract page table is unchanged, and the result is the entry's address
  unless the free list ran out.\<close>

definition walked :: "nat \<Rightarrow> uint64 \<Rightarrow> uint64 \<Rightarrow> 'x kmem_state_scheme \<Rightarrow> uint64 list \<Rightarrow> uint64 set \<Rightarrow>
    uint64 \<Rightarrow> 'x kmem_state_scheme \<Rightarrow> uint64 list \<Rightarrow> uint64 list \<Rightarrow> bool" where
  "walked l pt va s fr U r t N fr' \<longleftrightarrow> kframe s t \<and> fr = N @ fr' \<and> length N \<le> l \<and>
     page_inv t fr' (set N \<union> U) \<and> same_off (tables (mem s) l pt \<union> set N) (mem s) (mem t) \<and>
     pt_wf (mem t) l pt \<and> tables (mem t) l pt = tables (mem s) l pt \<union> set N \<and>
     (\<forall>va'. leaf (mem t) l pt va' = leaf (mem s) l pt va') \<and>
     (if r = 0 then fr' = [] else r = slot (mem t) l pt va)"

lemma walked_lift:
  assumes wf: "pt_wf (mem s) (Suc l) pt" and sub: "tables (mem s) (Suc l) pt \<subseteq> U"
    and inv: "page_inv s fr U" and v: "valid (ent (mem s) pt (PX (Suc l) va))"
    and w: "walked l (child (mem s) pt (PX (Suc l) va)) va s fr U r t N fr'"
  shows "walked (Suc l) pt va s fr U r t N fr'"
proof -
  let ?c = "child (mem s) pt (PX (Suc l) va)"
  have N: "\<forall>q\<in>set N. page_aligned q" "set N \<inter> tables (mem s) (Suc l) pt = {}"
    using page_invD(5,7) [OF inv] sub w by (auto simp: walked_def)
  have off: "same_off (tables (mem s) l ?c \<union> set N) (mem s) (mem t)"
    and c': "pt_wf (mem t) l ?c" "tables (mem t) l ?c = tables (mem s) l ?c \<union> set N"
    using w by (auto simp: walked_def)
  note cc = pt_child_change [OF wf unat_PX v refl off N c']
  have "same_off (tables (mem s) (Suc l) pt \<union> set N) (mem s) (mem t)"
    using off pt_wf_child(3) [OF wf unat_PX v] by (elim same_off_mono) blast
  moreover have "leaf (mem t) (Suc l) pt va' = leaf (mem s) (Suc l) pt va'" for va'
    using cc(3) [of va'] w v by (auto simp: walked_def Let_def)
  ultimately show ?thesis
    using w cc(1,2,4) by (auto simp: walked_def Let_def split: if_splits)
qed

lemma walk_from_alloc:
  assumes "page_inv s fr U" "pt_wf (mem s) l pt" "tables (mem s) l pt \<subseteq> U"
  shows "\<exists>r t N fr'. walk_from l pt va True s = Ret r t \<and> walked l pt va s fr U r t N fr'"
  using assms
proof (induction l arbitrary: pt s fr U)
  case 0
  then have "walked 0 pt va s fr U (pt + 8 * PX 0 va) s [] fr"
    using entry_nonzero [of pt, OF _ _ unat_PX] by (auto simp: walked_def)
  then show ?case by auto
next
  case (Suc l)
  let ?e = "pt + 8 * PX (Suc l) va"
  show ?case
  proof (cases "valid (load64 (mem s) ?e)")
    case True
    note ch = pt_wf_child [OF Suc.prems(2) unat_PX True]
    obtain r t N fr' where "walk_from l (child (mem s) pt (PX (Suc l) va)) va True s = Ret r t"
      "walked l (child (mem s) pt (PX (Suc l) va)) va s fr U r t N fr'"
      using Suc.IH [OF Suc.prems(1) ch(1)] ch(3) Suc.prems(3) by blast
    then have "walk_from (Suc l) pt va True s = Ret r t" "walked (Suc l) pt va s fr U r t N fr'"
      using True walked_lift [OF Suc.prems(2,3,1) True] by (simp_all add: Let_def)
    then show ?thesis by blast
  next
    case False
    from Suc.prems(1) show ?thesis
    proof (cases rule: ka.alloc_result)
      case (none t)
      then have "walked (Suc l) pt va s fr U 0 t [] []" using Suc.prems by (simp add: walked_def)
      with none False show ?thesis by (auto simp: Let_def)
    next
      case (page p fr1 s1)
      let ?m1 = "memset (mem s1) p 0 4096"
      let ?s2 = "s1\<lparr>mem := store64 ?m1 ?e (PA2PTE p OR PTE_V)\<rparr>"
      have p: "p \<notin> tables (mem s) (Suc l) pt" using page(7) Suc.prems(3) by blast
      have pt: "pt \<in> U" "page_aligned pt" using Suc.prems(3) pt_wf_root [OF Suc.prems(2)] by auto
      have off1: "same_off {p} (mem s) ?m1"
        using page(3) same_off_memset [OF page(8), of "{p}"] by (blast intro: same_off_trans)
      have z: "\<forall>a. pgof a = pgof p \<longrightarrow> ?m1 a = 0"
        using in_block [of 12 p] page(8) by (simp add: memset_eq)
      note g = pt_grow_entry [OF Suc.prems(2) unat_PX False page(8,6) p off1 z]
      have "same_off (insert p U) (mem s1) ?m1" using same_off_memset [OF page(8)] by simp
      moreover have "same_off (insert p U) ?m1 (mem ?s2)"
        using pt same_off_store64 [of ?e "insert p U"] by (simp add: aligned8_entry pgof_entry)
      ultimately have inv2: "page_inv ?s2 fr1 (insert p U)"
        using page_inv_put [OF page(4), of "mem ?s2"] same_off_trans by simp
      have new: "pt_wf (mem ?s2) l p" "tables (mem ?s2) l p = {p}"
        using g(8) pt_wf_child(1) [OF g(4) unat_PX g(2), unfolded g(3)] by simp_all
      obtain r t N fr' where w: "walk_from l p va True ?s2 = Ret r t"
        "walked l p va ?s2 fr1 (insert p U) r t N fr'"
        using Suc.IH [OF inv2 new(1)] new(2) by auto
      have tab: "tables (mem ?s2) (Suc l) pt = insert p (tables (mem s) (Suc l) pt)"
        using g(5) by simp
      have w2: "walked (Suc l) pt va ?s2 fr1 (insert p U) r t N fr'"
      proof (rule walked_lift [OF _ _ inv2])
        show "pt_wf (mem ?s2) (Suc l) pt" using g(4) by simp
        show "tables (mem ?s2) (Suc l) pt \<subseteq> insert p U" using tab Suc.prems(3) by blast
      qed (use g(2,3) w(2) in simp_all)
      have "kframe s ?s2" using page(2) kframe_mem by (rule kframe_trans)
      moreover have "same_off (tables (mem s) (Suc l) pt \<union> set (p # N)) (mem s) (mem ?s2)"
        using g(7) pt_wf_root [OF Suc.prems(2)] by (simp, elim same_off_mono) auto
      ultimately have "walked (Suc l) pt va s fr U r t (p # N) fr'"
        using w2 w(2) tab g(6) page(5) unfolding walked_def
        by (auto intro: kframe_trans same_off_trans simp del: leaf.simps tables.simps pt_wf.simps slot.simps)
      moreover have "walk_from (Suc l) pt va True s = Ret r t"
        using False page w(1) by (simp add: Let_def)
      ultimately show ?thesis by blast
    qed
  qed
qed

end
