(* ===== verification/Uvm.thy ===== *)
theory Uvm
  imports Pagetable
begin

text \<open>
  What the operations of \<open>vm.c\<close> do to the abstract page table. Pages are numbered:
  \<open>pgva k\<close> is the first address of page \<open>k\<close> and \<open>pmap m pt k\<close> the entry that
  maps it. Each operation is described by its effect on \<open>pmap\<close>, on the free list, and by
  the pages it writes; in particular by what is undone when memory runs out.
\<close>

section \<open>Page numbers\<close>

definition NPAGES :: nat where
  "NPAGES = 2 ^ 26"

definition pgva :: "nat \<Rightarrow> uint64" where
  "pgva k = of_nat (k * 4096)"

definition pmap :: "memory \<Rightarrow> uint64 \<Rightarrow> nat \<Rightarrow> uint64" where
  "pmap m pt k = leaf m 2 pt (pgva k)"

lemma unat_pgva: "k \<le> NPAGES \<Longrightarrow> unat (pgva k) = k * 4096"
  unfolding pgva_def unat_of_nat by (simp add: NPAGES_def del: of_nat_mult)

lemma pgva_Suc: "pgva k + 4096 = pgva (Suc k)"
  by (simp add: pgva_def algebra_simps)

lemma page_aligned_pgva [simp]: "page_aligned (pgva k)"
proof -
  have "pgva k = push_bit 12 (of_nat k)" by (simp add: pgva_def push_bit_eq_mult)
  then show ?thesis by (simp add: low_bits_push)
qed

lemma pgva_less_MAXVA: "k < NPAGES \<Longrightarrow> pgva k < MAXVA"
  by (simp add: word_less_nat_alt unat_pgva) (simp add: NPAGES_def)

lemma pgva_inj: "k \<le> NPAGES \<Longrightarrow> j \<le> NPAGES \<Longrightarrow> pgva k = pgva j \<longleftrightarrow> k = j"
  using unat_pgva [of k] unat_pgva [of j] by (metis mult_cancel2 zero_neq_numeral)

lemma pgva_less: "k \<le> NPAGES \<Longrightarrow> j \<le> NPAGES \<Longrightarrow> pgva k < pgva j \<longleftrightarrow> k < j"
  by (simp add: word_less_nat_alt unat_pgva)

lemma pgof_pgva: "k \<le> NPAGES \<Longrightarrow> j \<le> NPAGES \<Longrightarrow> pgof (pgva k) = pgof (pgva j) \<longleftrightarrow> k = j"
  by (simp add: page_eq pgva_inj)

lemma pgva_of_aligned:
  assumes "page_aligned a"
  shows "a = pgva (unat a div 4096)"
proof -
  have "unat a div 4096 * 4096 = unat a" using assms by (auto simp: page_aligned_unat)
  then show ?thesis unfolding pgva_def by (simp del: of_nat_mult)
qed

lemma pgof_PGROUNDDOWN [simp]: "pgof (PGROUNDDOWN a) = pgof a"
  unfolding PGROUNDDOWN_eq by (rule bit_word_eqI) (auto simp: bit_drop_bit_eq bit_push_bit_iff dest: bit_imp_le_length)

lemma pgva_page: "pgof va = pgof (pgva (unat va div 4096))"
proof -
  have "pgva (unat va div 4096) = PGROUNDDOWN va"
    using pgva_of_aligned [of "PGROUNDDOWN va"] by (simp add: unat_PGROUNDDOWN)
  then show ?thesis by simp
qed

lemma leaf_same_page: "pgof va = pgof va' \<Longrightarrow> leaf m l pt va = leaf m l pt va'"
  by (induction l arbitrary: pt) (simp_all add: Let_def PX_same_page [of va va'])

lemma leaf_pmap: "leaf m 2 pt va = pmap m pt (unat va div 4096)"
  unfolding pmap_def by (rule leaf_same_page [OF pgva_page])

lemma same_path:
  assumes "k < NPAGES" "j < NPAGES"
  shows "(\<forall>i\<le>2. PX i (pgva j) = PX i (pgva k)) \<longleftrightarrow> j = k"
proof
  assume "\<forall>i\<le>2. PX i (pgva j) = PX i (pgva k)"
  then have "pgof (pgva j) = pgof (pgva k)"
    using assms by (intro PX_inj) (simp_all add: pgva_less_MAXVA del: MAXVA_val)
  then show "j = k" using assms by (simp add: pgof_pgva)
qed simp

section \<open>Looking up and writing one entry\<close>

definition pt_inv :: "memory \<Rightarrow> uint64 set \<Rightarrow> uint64 \<Rightarrow> bool" where
  "pt_inv m U pt \<longleftrightarrow> pt_wf m 2 pt \<and> tables m 2 pt \<subseteq> U"

lemma walk_lookup: "k < NPAGES \<Longrightarrow> walk pt (pgva k) False s = Ret (slot (mem s) 2 pt (pgva k)) s"
  using pgva_less_MAXVA [of k] by (simp add: walk_def walk_from_lookup not_le)

lemma pmap_slot:
  "pt_inv m U pt \<Longrightarrow> pmap m pt k = (if slot m 2 pt (pgva k) = 0 then 0 else load64 m (slot m 2 pt (pgva k)))"
  using leaf_slot [of m 2 pt "pgva k"] by (simp add: pmap_def pt_inv_def)

text \<open>\<open>vm_step\<close>: the state moved from \<open>s\<close> to \<open>t\<close> by work on the table \<open>pt\<close> that took
  the pages \<open>N\<close> off the free list for page tables and wrote page tables only.\<close>

definition vm_step :: "uint64 \<Rightarrow> 'x kmem_state_scheme \<Rightarrow> uint64 list \<Rightarrow> uint64 set \<Rightarrow>
    'x kmem_state_scheme \<Rightarrow> uint64 list \<Rightarrow> uint64 list \<Rightarrow> bool" where
  "vm_step pt s fr U t N fr' \<longleftrightarrow> kframe s t \<and> fr = N @ fr' \<and> page_inv t fr' (set N \<union> U) \<and>
     pt_inv (mem t) (set N \<union> U) pt \<and> tables (mem t) 2 pt = tables (mem s) 2 pt \<union> set N \<and>
     same_off (tables (mem t) 2 pt) (mem s) (mem t)"

lemma vm_step_refl: "page_inv s fr U \<Longrightarrow> pt_inv (mem s) U pt \<Longrightarrow> vm_step pt s fr U s [] fr"
  by (simp add: vm_step_def)

lemma vm_step_trans:
  assumes "vm_step pt s fr U t N fr'" "vm_step pt t fr' (set N \<union> U) u N' fr''"
  shows "vm_step pt s fr U u (N @ N') fr''"
proof -
  have "same_off (tables (mem u) 2 pt) (mem s) (mem u)"
    using assms same_off_mono [of "tables (mem t) 2 pt" "mem s" "mem t" "tables (mem u) 2 pt"]
    by (auto simp: vm_step_def intro: same_off_trans)
  then show ?thesis using assms by (auto simp: vm_step_def Un_ac intro: kframe_trans)
qed

lemma vm_step_inv: "vm_step pt s fr U t N fr' \<Longrightarrow> page_inv t fr' (set N \<union> U) \<and> pt_inv (mem t) (set N \<union> U) pt"
  by (simp add: vm_step_def)

lemma walk_alloc:
  assumes "page_inv s fr U" "pt_inv (mem s) U pt" "k < NPAGES"
  shows "\<exists>r t N fr'. walk pt (pgva k) True s = Ret r t \<and> vm_step pt s fr U t N fr' \<and> length N \<le> 2 \<and>
    (\<forall>j. pmap (mem t) pt j = pmap (mem s) pt j) \<and>
    (if r = 0 then fr' = [] else r = slot (mem t) 2 pt (pgva k) \<and> load64 (mem t) r = pmap (mem s) pt k)"
proof -
  obtain r t N fr' where w: "walk_from 2 pt (pgva k) True s = Ret r t"
    "walked 2 pt (pgva k) s fr U r t N fr'"
    using walk_from_alloc [of s fr U 2 pt "pgva k"] assms unfolding pt_inv_def by blast
  then have v: "vm_step pt s fr U t N fr'"
    using assms(2) by (auto simp: walked_def vm_step_def pt_inv_def)
  have p: "pmap (mem t) pt j = pmap (mem s) pt j" for j
    using w(2) by (simp add: walked_def pmap_def)
  have "load64 (mem t) r = pmap (mem s) pt k" if "r \<noteq> 0"
    using pmap_slot [of "mem t" "set N \<union> U" pt k] p [of k] w(2) v that
    by (simp add: walked_def vm_step_def)
  with w v p show ?thesis
    using pgva_less_MAXVA [OF assms(3)] unfolding walk_def walked_def by (auto simp: not_le split: if_splits)
qed

lemma put_entry:
  fixes v :: uint64
  assumes "page_inv s fr U" "pt_inv (mem s) U pt" "k < NPAGES" "slot (mem s) 2 pt (pgva k) \<noteq> 0"
  defines "t \<equiv> s\<lparr>mem := store64 (mem s) (slot (mem s) 2 pt (pgva k)) v\<rparr>"
  shows "vm_step pt s fr U t [] fr"
    "j < NPAGES \<Longrightarrow> pmap (mem t) pt j = (if j = k then v else pmap (mem s) pt j)"
proof -
  note st = slot_store [of "mem s" 2 pt "pgva k"]
  have wf: "pt_wf (mem s) 2 pt" "tables (mem s) 2 pt \<subseteq> U" using assms(2) by (auto simp: pt_inv_def)
  have "same_off U (mem s) (mem t)"
    using st [OF wf(1) assms(4)] wf(2) by (auto simp: t_def intro: same_off_mono)
  then have "page_inv t fr U" using page_inv_put [OF assms(1)] by (simp add: t_def)
  then show "vm_step pt s fr U t [] fr"
    using st [OF wf(1) assms(4)] wf(2) by (simp add: vm_step_def t_def pt_inv_def)
  show "pmap (mem t) pt j = (if j = k then v else pmap (mem s) pt j)" if "j < NPAGES"
    using st [OF wf(1) assms(4), of v "pgva j"] same_path [OF assms(3) that] by (simp add: t_def pmap_def)
qed

section \<open>mappages\<close>

text \<open>The abstract page table after mapping \<open>n\<close> pages from page \<open>k\<close> on.\<close>

definition map_range :: "(nat \<Rightarrow> uint64) \<Rightarrow> nat \<Rightarrow> nat \<Rightarrow> uint64 \<Rightarrow> uint64 \<Rightarrow> nat \<Rightarrow> uint64" where
  "map_range f k n pa perm j =
     (if k \<le> j \<and> j < k + n then PA2PTE (pa + pgva (j - k)) OR perm OR PTE_V else f j)"

lemma map_range_0 [simp]: "map_range f k 0 pa perm = f"
  by (auto simp: map_range_def fun_eq_iff)

lemma map_range_Suc:
  "map_range (\<lambda>j. if j = k then PA2PTE pa OR perm OR PTE_V else f j) (Suc k) n (pa + 4096) perm j =
   map_range f k (Suc n) pa perm j"
proof -
  have "pa + 4096 + pgva (j - Suc k) = pa + pgva (j - k)" if "Suc k \<le> j"
    using that pgva_Suc [of "j - Suc k"] by (simp add: Suc_diff_Suc add.assoc add.commute)
  then show ?thesis by (auto simp: map_range_def) (simp_all add: pgva_def)
qed

lemma map_one:
  assumes "page_inv s fr U" "pt_inv (mem s) U pt" "k < NPAGES"
  obtains (fail) t N where "walk pt (pgva k) True s = Ret 0 t" "vm_step pt s fr U t N []"
      "\<forall>j<NPAGES. pmap (mem t) pt j = pmap (mem s) pt j"
  | (fill) r t N fr' where "walk pt (pgva k) True s = Ret r t" "r \<noteq> 0" "load64 (mem t) r = pmap (mem s) pt k"
      "vm_step pt s fr U (t\<lparr>mem := store64 (mem t) r v\<rparr>) N fr'"
      "\<forall>j<NPAGES. pmap (store64 (mem t) r v) pt j = (if j = k then v else pmap (mem s) pt j)"
proof -
  obtain r t N fr' where w: "walk pt (pgva k) True s = Ret r t" "vm_step pt s fr U t N fr'"
    "\<forall>j. pmap (mem t) pt j = pmap (mem s) pt j"
    "if r = 0 then fr' = [] else r = slot (mem t) 2 pt (pgva k) \<and> load64 (mem t) r = pmap (mem s) pt k"
    using walk_alloc [OF assms] by blast
  show thesis
  proof (cases "r = 0")
    case True
    then show thesis using fail w by simp
  next
    case False
    then have r: "slot (mem t) 2 pt (pgva k) = r" using w(4) by simp
    note inv = vm_step_inv [OF w(2)]
    have "vm_step pt t fr' (set N \<union> U) (t\<lparr>mem := store64 (mem t) r v\<rparr>) [] fr'"
      and "\<forall>j<NPAGES. pmap (store64 (mem t) r v) pt j = (if j = k then v else pmap (mem s) pt j)"
      using put_entry [where s = t and fr = fr' and U = "set N \<union> U" and pt = pt and k = k and v = v] inv assms(3) r False w(3) by auto
    moreover from this(1) have "vm_step pt s fr U (t\<lparr>mem := store64 (mem t) r v\<rparr>) N fr'"
      using vm_step_trans [OF w(2)] by fastforce
    moreover have "load64 (mem t) r = pmap (mem s) pt k" using w(4) False by metis
    ultimately show thesis by (intro fill [OF w(1) False])
  qed
qed

lemma mappages_loop_ok:
  assumes "page_inv s fr U" "pt_inv (mem s) U pt" "k + n < NPAGES"
    "\<forall>j. k \<le> j \<and> j \<le> k + n \<longrightarrow> \<not> valid (pmap (mem s) pt j)"
  shows "\<exists>r t N fr' d. mappages_loop pt (pgva k) (pgva (k + n)) pa perm s = Ret r t \<and>
    vm_step pt s fr U t N fr' \<and> (if r = 0 then d = Suc n else r = - 1 \<and> d \<le> n \<and> fr' = []) \<and>
    (\<forall>j<NPAGES. pmap (mem t) pt j = map_range (pmap (mem s) pt) k d pa perm j)"
  using assms
proof (induction n arbitrary: k pa s fr U)
  case 0
  from 0(1,2) have "k < NPAGES" using 0(3) by simp
  from 0(1,2) this show ?case
  proof (cases rule: map_one [where v = "PA2PTE pa OR perm OR PTE_V"])
    case (fail t N)
    then have "mappages_loop pt (pgva k) L pa perm s = Ret (- 1) t" for L
      by (subst mappages_loop.simps) simp
    with fail(2,3) show ?thesis by (intro exI [of _ "- 1"] exI [of _ t] exI [of _ N] exI [of _ "[]"] exI [of _ 0]) simp
  next
    case (fill r t N fr')
    let ?t = "t\<lparr>mem := store64 (mem t) r (PA2PTE pa OR perm OR PTE_V)\<rparr>"
    have "mappages_loop pt (pgva k) (pgva (k + 0)) pa perm s = Ret 0 ?t"
      using fill 0(4) by (subst mappages_loop.simps) (simp add: Let_def)
    moreover have "\<forall>j<NPAGES. pmap (mem ?t) pt j = map_range (pmap (mem s) pt) k (Suc 0) pa perm j"
      using fill(5) by (auto simp: map_range_def pgva_def)
    ultimately show ?thesis using fill(4)
      by (intro exI [of _ 0] exI [of _ ?t] exI [of _ N] exI [of _ fr'] exI [of _ "Suc 0"]) simp
  qed
next
  case (Suc n)
  then have k: "k < NPAGES" by simp
  have ne: "pgva k \<noteq> pgva (k + Suc n)" using Suc.prems(3) by (simp add: pgva_inj)
  from Suc.prems(1,2) k show ?case
  proof (cases rule: map_one [where v = "PA2PTE pa OR perm OR PTE_V"])
    case (fail t N)
    then have "mappages_loop pt (pgva k) L pa perm s = Ret (- 1) t" for L
      by (subst mappages_loop.simps) simp
    with fail(2,3) show ?thesis by (intro exI [of _ "- 1"] exI [of _ t] exI [of _ N] exI [of _ "[]"] exI [of _ 0]) simp
  next
    case (fill r t N fr')
    let ?t = "t\<lparr>mem := store64 (mem t) r (PA2PTE pa OR perm OR PTE_V)\<rparr>"
    obtain r' u N' fr'' d where IH: "mappages_loop pt (pgva (Suc k)) (pgva (Suc k + n)) (pa + 4096) perm ?t = Ret r' u"
      "vm_step pt ?t fr' (set N \<union> U) u N' fr''" "if r' = 0 then d = Suc n else r' = - 1 \<and> d \<le> n \<and> fr'' = []"
      "\<forall>j<NPAGES. pmap (mem u) pt j = map_range (pmap (mem ?t) pt) (Suc k) d (pa + 4096) perm j"
    proof -
      have "Suc k + n < NPAGES" using Suc.prems(3) by simp
      moreover have "\<forall>j. Suc k \<le> j \<and> j \<le> Suc k + n \<longrightarrow> \<not> valid (pmap (mem ?t) pt j)"
        using Suc.prems(3,4) fill(5) by auto
      ultimately show thesis
        using Suc.IH [of ?t fr' "set N \<union> U" "Suc k" "pa + 4096"] vm_step_inv [OF fill(4)] that by blast
    qed
    have "mappages_loop pt (pgva k) (pgva (k + Suc n)) pa perm s = Ret r' u"
      using fill Suc.prems(4) ne IH(1) by (subst mappages_loop.simps) (simp add: Let_def pgva_Suc)
    moreover have "vm_step pt s fr U u (N @ N') fr''" using vm_step_trans [OF fill(4) IH(2)] .
    moreover have "pmap (mem u) pt j = map_range (pmap (mem s) pt) k (Suc d) pa perm j" if "j < NPAGES" for j
    proof -
      have "pmap (mem u) pt j = map_range (\<lambda>j. if j = k then PA2PTE pa OR perm OR PTE_V else pmap (mem s) pt j)
          (Suc k) d (pa + 4096) perm j"
        using IH(4) fill(5) that by (simp add: map_range_def)
      then show ?thesis by (simp only: map_range_Suc)
    qed
    ultimately show ?thesis using IH(3)
      by (intro exI [of _ r'] exI [of _ u] exI [of _ "N @ N'"] exI [of _ fr''] exI [of _ "Suc d"]) (simp split: if_splits)
  qed
qed

lemma mappages_ok:
  assumes "page_inv s fr U" "pt_inv (mem s) U pt" "0 < n" "k + n \<le> NPAGES"
    "\<forall>j. k \<le> j \<and> j < k + n \<longrightarrow> \<not> valid (pmap (mem s) pt j)"
  shows "\<exists>r t N fr' d. mappages pt (pgva k) (pgva n) pa perm s = Ret r t \<and>
    vm_step pt s fr U t N fr' \<and> (if r = 0 then d = n else r = - 1 \<and> d < n \<and> fr' = []) \<and>
    (\<forall>j<NPAGES. pmap (mem t) pt j = map_range (pmap (mem s) pt) k d pa perm j)"
proof -
  obtain n' where n: "n = Suc n'" using assms(3) by (cases n) auto
  have "pgva k + pgva n - 4096 = pgva (k + n')" by (simp add: pgva_def n algebra_simps)
  moreover have "pgva n \<noteq> 0" using pgva_inj [of n 0] assms(3,4) by (simp add: pgva_def)
  ultimately have "mappages pt (pgva k) (pgva n) pa perm s = mappages_loop pt (pgva k) (pgva (k + n')) pa perm s"
    by (simp add: mappages_def mod_PGSIZE)
  moreover have "k + n' < NPAGES" "\<forall>j. k \<le> j \<and> j \<le> k + n' \<longrightarrow> \<not> valid (pmap (mem s) pt j)"
    using assms(4,5) n by auto
  ultimately show ?thesis
    unfolding n less_Suc_eq_le using mappages_loop_ok [OF assms(1,2), of k n' pa perm] by simp
qed

text \<open>
  C5. \<open>mappages\<close> of an unmapped, page-aligned range below \<open>MAXVA\<close> returns 0 or -1. On 0 the
  abstract page table has exactly the requested entries added, page by page; on -1 the free
  list was exhausted and a proper prefix of the range is mapped. All other entries are
  unchanged, the page table is still a well-formed tree, the new page-table pages are exactly
  the ones taken off the free list, and no other memory is written.
\<close>

theorem mappages_correct:
  assumes "page_inv s fr U" "pt_inv (mem s) U pt" "0 < n" "k + n \<le> NPAGES"
    "\<forall>j. k \<le> j \<and> j < k + n \<longrightarrow> \<not> valid (pmap (mem s) pt j)"
  shows "\<exists>r t N fr' d. mappages pt (pgva k) (pgva n) pa perm s = Ret r t \<and>
    vm_step pt s fr U t N fr' \<and> (if r = 0 then d = n else r = - 1 \<and> d < n \<and> fr' = []) \<and>
    (\<forall>j<NPAGES. pmap (mem t) pt j = map_range (pmap (mem s) pt) k d pa perm j)"
  using assms by (rule mappages_ok)

text \<open>A kernel with an empty page table at \<open>0x80003000\<close> and three free pages.\<close>

definition pool :: kmem_state where
  "pool = boot_kmem\<lparr>freelist := 0x80004000,
     mem := store64 (store64 (\<lambda>_. 0) 0x80004000 0x80005000) 0x80005000 0x80006000\<rparr>"

lemma pool_inv: "page_inv pool [0x80004000, 0x80005000, 0x80006000] {0x80003000}"
  using boot_kmem_facts
  by (simp add: page_inv_def pool_def phys_page_def boot_syms_def hart_ok_def lock_free_def machine_defs
      load64_store64_other)

lemma pool_table: "pt_inv (mem pool) {0x80003000} 0x80003000" "pmap (mem pool) 0x80003000 k = 0"
proof -
  have "\<forall>a. pgof a = pgof 0x80003000 \<longrightarrow> mem pool a = 0"
  proof (intro allI impI)
    fix a assume a: "pgof a = pgof (0x80003000 :: uint64)"
    have "\<not> unat (a - 0x80004000) < 8" "\<not> unat (a - 0x80005000) < 8"
      using a pgof_in_word [of "0x80004000" a] pgof_in_word [of "0x80005000" a] by auto
    then show "mem pool a = 0" by (simp add: pool_def store64_other)
  qed
  then show "pt_inv (mem pool) {0x80003000} 0x80003000" "pmap (mem pool) 0x80003000 k = 0"
    using zero_table [of "0x80003000" "mem pool" 2] by (simp_all add: pt_inv_def pmap_def)
qed

theorem mappages_correct_witness:
  "\<exists>r t N fr' d. mappages 0x80003000 (pgva 1) (pgva 1) 0x87000000 (PTE_R OR PTE_U) pool = Ret r t \<and>
    vm_step 0x80003000 pool [0x80004000, 0x80005000, 0x80006000] {0x80003000} t N fr' \<and>
    (if r = 0 then d = (1 :: nat) else r = - 1 \<and> d < 1 \<and> fr' = [])"
proof -
  have "0 < (1 :: nat)" "1 + 1 \<le> NPAGES"
    "\<forall>j. 1 \<le> j \<and> j < 1 + 1 \<longrightarrow> \<not> valid (pmap (mem pool) 0x80003000 j)"
    by (simp_all add: NPAGES_def pool_table)
  from mappages_correct [OF pool_inv pool_table(1) this, of "0x87000000" "PTE_R OR PTE_U"]
  show ?thesis by blast
qed

section \<open>uvmunmap\<close>

lemma pt_inv_frame:
  assumes "pt_inv m U pt" "same_off S m m'" "\<forall>q\<in>S. page_aligned q" "tables m 2 pt \<inter> S = {}"
  shows "pt_wf m' 2 pt" "tables m' 2 pt = tables m 2 pt" "pmap m' pt j = pmap m pt j"
    "slot m' 2 pt va = slot m 2 pt va"
  using pt_frame [OF assms(2,3), of 2 pt] assms(1,4) by (auto simp: pt_inv_def pmap_def)

text \<open>The pages a range of the abstract page table maps.\<close>

definition pages :: "(nat \<Rightarrow> uint64) \<Rightarrow> nat \<Rightarrow> nat \<Rightarrow> uint64 list" where
  "pages f k n = map (\<lambda>j. PTE2PA (f j)) [k..<k + n]"

lemma pages_Suc: "pages f k (Suc n) = PTE2PA (f k) # pages f (Suc k) n"
  by (simp add: pages_def upt_rec)

lemma pages_0 [simp]: "pages f k 0 = []"
  by (simp add: pages_def)

lemma pages_cong: "(\<And>j. k \<le> j \<Longrightarrow> j < k + n \<Longrightarrow> f j = g j) \<Longrightarrow> pages f k n = pages g k n"
  by (simp add: pages_def)

lemma free_page:
  assumes "page_inv s fr U" "pt_inv (mem s) U pt" "p \<in> U" "p \<notin> tables (mem s) 2 pt"
  obtains t where "kfree p s = Ret () t" "kframe s t" "same_off {p} (mem s) (mem t)"
    "page_inv t (p # fr) (U - {p})" "pt_inv (mem t) (U - {p}) pt" "tables (mem t) 2 pt = tables (mem s) 2 pt"
    "\<And>j. pmap (mem t) pt j = pmap (mem s) pt j" "\<And>va. slot (mem t) 2 pt va = slot (mem s) 2 pt va"
proof -
  obtain t where t: "kfree p s = Ret () t" "kframe s t" "same_off {p} (mem s) (mem t)"
    "page_inv t (p # fr) (U - {p})" using kfree_push [OF assms(1,3)] by blast
  have "\<forall>q\<in>{p}. page_aligned q" "tables (mem s) 2 pt \<inter> {p} = {}"
    using page_invD(7) [OF assms(1)] assms(3,4) by auto
  note fr = pt_inv_frame [OF assms(2) t(3) this]
  have "pt_inv (mem t) (U - {p}) pt" using fr(1,2) assms(2,4) by (auto simp: pt_inv_def)
  with that [OF t] fr(2,3,4) show thesis by blast
qed

lemma uvmunmap_loop_ok:
  assumes "page_inv s fr U" "pt_inv (mem s) U pt" "k + n \<le> NPAGES"
    "\<forall>j. k \<le> j \<and> j < k + n \<longrightarrow> valid (pmap (mem s) pt j) \<and> PTE_FLAGS (pmap (mem s) pt j) \<noteq> PTE_V"
    "L = (if do_free then pages (pmap (mem s) pt) k n else [])"
    "distinct L" "set L \<subseteq> U - tables (mem s) 2 pt"
  shows "\<exists>t. uvmunmap_loop pt (pgva k) (pgva (k + n)) do_free s = Ret () t \<and> kframe s t \<and>
    page_inv t (rev L @ fr) (U - set L) \<and> pt_inv (mem t) (U - set L) pt \<and>
    tables (mem t) 2 pt = tables (mem s) 2 pt \<and> same_off (tables (mem s) 2 pt \<union> set L) (mem s) (mem t) \<and>
    (\<forall>j<NPAGES. pmap (mem t) pt j = (if k \<le> j \<and> j < k + n then 0 else pmap (mem s) pt j))"
  using assms
proof (induction n arbitrary: k s fr U L)
  case 0
  then show ?case by (subst uvmunmap_loop.simps) auto
next
  case (Suc n)
  let ?e = "pmap (mem s) pt k"
  define R where "R = (if do_free then pages (pmap (mem s) pt) (Suc k) n else [])"
  define P where "P = (if do_free then [PTE2PA ?e] else [])"
  have k: "k < NPAGES" "pgva k < pgva (k + Suc n)" using Suc.prems(3) by (simp_all add: pgva_less)
  have L: "L = P @ R" using Suc.prems(5) by (simp add: pages_Suc P_def R_def)
  have e: "valid ?e" "PTE_FLAGS ?e \<noteq> 1" using Suc.prems(4) by auto
  then have sl: "slot (mem s) 2 pt (pgva k) \<noteq> 0" "load64 (mem s) (slot (mem s) 2 pt (pgva k)) = ?e"
    using pmap_slot [OF Suc.prems(2), of k] by (auto split: if_splits)
  obtain t where t: "(if do_free then kfree (PTE2PA ?e) s else Ret () s) = Ret () t" "kframe s t"
    "same_off (set P) (mem s) (mem t)" "page_inv t (P @ fr) (U - set P)" "pt_inv (mem t) (U - set P) pt"
    "tables (mem t) 2 pt = tables (mem s) 2 pt" "\<And>j. pmap (mem t) pt j = pmap (mem s) pt j"
    "\<And>va. slot (mem t) 2 pt va = slot (mem s) 2 pt va"
  proof (cases do_free)
    case True
    then have "PTE2PA ?e \<in> U" "PTE2PA ?e \<notin> tables (mem s) 2 pt" using Suc.prems(7) L by (auto simp: P_def)
    from free_page [OF Suc.prems(1,2) this] show thesis using that True by (auto simp: P_def)
  next
    case False
    then show thesis using that [of s] Suc.prems(1,2) by (simp add: P_def)
  qed
  let ?t = "t\<lparr>mem := store64 (mem t) (slot (mem s) 2 pt (pgva k)) 0\<rparr>"
  note put = put_entry [OF t(4,5) k(1), where v = 0, unfolded t(8), OF sl(1)]
  have inv: "page_inv ?t (P @ fr) (U - set P)" "pt_inv (mem ?t) (U - set P) pt"
      "tables (mem ?t) 2 pt = tables (mem s) 2 pt" "kframe t ?t" "same_off (tables (mem s) 2 pt) (mem t) (mem ?t)"
    using put(1) t(6) by (auto simp: vm_step_def)
  have pm: "pmap (mem ?t) pt j = (if j = k then 0 else pmap (mem s) pt j)" if "j < NPAGES" for j
    using put(2) [OF that] t(7) by simp
  have "pages (pmap (mem ?t) pt) (Suc k) n = pages (pmap (mem s) pt) (Suc k) n"
    using Suc.prems(3) pm by (intro pages_cong) auto
  then have "R = (if do_free then pages (pmap (mem ?t) pt) (Suc k) n else [])" by (simp add: R_def)
  moreover have "\<forall>j. Suc k \<le> j \<and> j < Suc k + n \<longrightarrow>
      valid (pmap (mem ?t) pt j) \<and> PTE_FLAGS (pmap (mem ?t) pt j) \<noteq> PTE_V"
    using Suc.prems(3,4) pm by auto
  moreover have "distinct R" "set R \<subseteq> U - set P - tables (mem ?t) 2 pt"
    using Suc.prems(6,7) L inv(3) by auto
  ultimately obtain u where u: "uvmunmap_loop pt (pgva (Suc k)) (pgva (Suc k + n)) do_free ?t = Ret () u" "kframe ?t u"
    "page_inv u (rev R @ P @ fr) (U - set P - set R)" "pt_inv (mem u) (U - set P - set R) pt"
    "tables (mem u) 2 pt = tables (mem s) 2 pt" "same_off (tables (mem s) 2 pt \<union> set R) (mem ?t) (mem u)"
    "\<forall>j<NPAGES. pmap (mem u) pt j = (if Suc k \<le> j \<and> j < Suc k + n then 0 else pmap (mem ?t) pt j)"
    using Suc.IH [OF inv(1,2), of "Suc k" R] Suc.prems(3) unfolding inv(3) by auto
  have "uvmunmap_loop pt (pgva k) (pgva (k + Suc n)) do_free s = Ret () u"
    using k sl e t(1) u(1)
    by (subst uvmunmap_loop.simps, cases do_free) (simp_all add: walk_lookup pgva_Suc)
  moreover have "kframe s u" using t(2) inv(4) u(2) by (blast intro: kframe_trans)
  moreover have "same_off (tables (mem s) 2 pt \<union> set L) (mem s) (mem u)"
  proof -
    have "same_off (tables (mem s) 2 pt \<union> set L) (mem s) (mem t)"
      "same_off (tables (mem s) 2 pt \<union> set L) (mem t) (mem ?t)"
      "same_off (tables (mem s) 2 pt \<union> set L) (mem ?t) (mem u)"
      using t(3) inv(5) u(6) L by (auto elim!: same_off_mono)
    then show ?thesis by (blast intro: same_off_trans)
  qed
  moreover have "U - set L = U - set P - set R" "rev L @ fr = rev R @ P @ fr"
    using L by (auto simp: P_def)
  moreover have "\<forall>j<NPAGES. pmap (mem u) pt j = (if k \<le> j \<and> j < k + Suc n then 0 else pmap (mem s) pt j)"
    using u(7) pm by auto
  ultimately show ?case using u(3,4,5) by auto
qed

lemma uvmunmap_eq: "uvmunmap pt (pgva k) (of_nat n) do_free s = uvmunmap_loop pt (pgva k) (pgva (k + n)) do_free s"
proof -
  have "pgva k + of_nat n * 4096 = pgva (k + n)" by (simp add: pgva_def algebra_simps)
  then show ?thesis by (simp add: uvmunmap_def mod_PGSIZE)
qed

text \<open>
  C18. \<open>uvmunmap\<close> of a range of \<open>n\<close> mapped pages returns: the entries of the range are
  cleared and all others unchanged, the page-table tree is the same, and with \<open>do_free\<close>
  exactly the pages that were mapped there move from the caller to the front of the free list;
  no memory is written but page-table pages and the freed pages.
\<close>

theorem uvmunmap_correct:
  assumes "page_inv s fr U" "pt_inv (mem s) U pt" "k + n \<le> NPAGES"
    "\<forall>j. k \<le> j \<and> j < k + n \<longrightarrow> valid (pmap (mem s) pt j) \<and> PTE_FLAGS (pmap (mem s) pt j) \<noteq> PTE_V"
    "L = (if do_free then pages (pmap (mem s) pt) k n else [])"
    "distinct L" "set L \<subseteq> U - tables (mem s) 2 pt"
  shows "\<exists>t. uvmunmap pt (pgva k) (of_nat n) do_free s = Ret () t \<and> kframe s t \<and>
    page_inv t (rev L @ fr) (U - set L) \<and> pt_inv (mem t) (U - set L) pt \<and>
    tables (mem t) 2 pt = tables (mem s) 2 pt \<and> same_off (tables (mem s) 2 pt \<union> set L) (mem s) (mem t) \<and>
    (\<forall>j<NPAGES. pmap (mem t) pt j = (if k \<le> j \<and> j < k + n then 0 else pmap (mem s) pt j))"
  unfolding uvmunmap_eq by (rule uvmunmap_loop_ok [OF assms])

text \<open>A process with one user page, \<open>0x80006000\<close>, mapped at address 0, and one free page.\<close>

lemma ent_store_other:
  assumes "page_aligned a" "page_aligned b" "a \<noteq> b" "unat i < 512"
  shows "load64 (store64 m b v) (a + 8 * i) = load64 m (a + 8 * i)"
proof (rule load64_store64_page)
  show "pgof b \<noteq> pgof (a + 8 * i)" using assms by (auto simp: pgof_idx page_eq)
qed (simp_all add: assms aligned8_of_page aligned8_entry)

lemma ent_store_same:
  assumes "page_aligned a" "unat i < 512"
  shows "load64 (store64 m a v) (a + 8 * i) = (if i = 0 then v else load64 m (a + 8 * i))"
proof (cases "i = 0")
  case False
  then have "a \<noteq> a + 8 * i" using idx_inj [of a 0 i] assms(2) by auto
  then show ?thesis using False assms(1) by (simp add: load64_store64_other aligned8_of_page aligned8_entry)
qed simp

definition umem :: kmem_state where
  "umem = boot_kmem\<lparr>freelist := 0x80007000,
     mem := store64 (store64 (store64 (\<lambda>_. 0) 0x80003000 (PA2PTE 0x80004000 OR 1))
       0x80004000 (PA2PTE 0x80005000 OR 1)) 0x80005000 (PA2PTE 0x80006000 OR 0x1f)\<rparr>"

abbreviation umem_pages :: "uint64 set" where
  "umem_pages \<equiv> {0x80003000, 0x80004000, 0x80005000, 0x80006000}"

lemma umem_inv: "page_inv umem [0x80007000] umem_pages"
  using boot_kmem_facts
  by (simp add: page_inv_def umem_def phys_page_def boot_syms_def hart_ok_def lock_free_def machine_defs
      load64_store64_other)

lemma umem_ent:
  assumes "unat i < 512"
  shows "ent (mem umem) 0x80003000 i = (if i = 0 then 0x20001001 else 0)"
    "ent (mem umem) 0x80004000 i = (if i = 0 then 0x20001401 else 0)"
    "ent (mem umem) 0x80005000 i = (if i = 0 then 0x2000181f else 0)"
  using assms by (simp_all add: umem_def ent_store_same ent_store_other PA2PTE_def)

lemma umem_table:
  "tables (mem umem) 2 0x80003000 = {0x80003000, 0x80004000, 0x80005000}"
  "pt_inv (mem umem) umem_pages 0x80003000"
  "k < NPAGES \<Longrightarrow> pmap (mem umem) 0x80003000 k = (if k = 0 then 0x2000181f else 0)"
proof -
  have pa: "PTE2PA 0x20001001 = 0x80004000" "PTE2PA 0x20001401 = 0x80005000" "PTE2PA 0x2000181f = 0x80006000"
    by (simp_all add: PTE2PA_def)
  have e: "load64 (mem umem) 0x80003000 = 0x20001001" "load64 (mem umem) 0x80004000 = 0x20001401"
    using umem_ent(1,2) [of 0] by simp_all
  have i3: "unat i < 512 \<and> valid (ent (mem umem) 0x80003000 i) \<longleftrightarrow> i = 0" for i
    using umem_ent(1) [of i] by (auto simp: e split: if_splits)
  have i4: "unat i < 512 \<and> valid (ent (mem umem) 0x80004000 i) \<longleftrightarrow> i = 0" for i
    using umem_ent(2) [of i] by (auto simp: e split: if_splits)
  have idx: "{i. unat i < 512 \<and> valid (ent (mem umem) 0x80003000 i)} = {0}"
    "{i. unat i < 512 \<and> valid (ent (mem umem) 0x80004000 i)} = {0}" using i3 i4 by blast+
  have t1: "tables (mem umem) (Suc 0) 0x80004000 = {0x80004000, 0x80005000}" by (simp add: idx e pa)
  then show t: "tables (mem umem) 2 0x80003000 = {0x80003000, 0x80004000, 0x80005000}"
    unfolding numeral_2_eq_2 tables.simps(2) [of "mem umem" "Suc 0" "0x80003000"] idx
    by (simp add: e pa del: tables.simps)
  have w1: "pt_wf (mem umem) (Suc 0) 0x80004000"
    unfolding pt_wf.simps(2)
  proof (intro conjI allI impI)
    fix i assume "unat i < 512" "valid (ent (mem umem) 0x80004000 i)"
    then have "i = 0" using i4 by blast
    then show "ent (mem umem) 0x80004000 i AND (PTE_R OR PTE_W OR PTE_X) = 0"
      "pt_wf (mem umem) 0 (child (mem umem) 0x80004000 i)"
      "0x80004000 \<notin> tables (mem umem) 0 (child (mem umem) 0x80004000 i)" by (simp_all add: e pa)
  next
    fix i j assume "unat i < 512" "unat j < 512" and ne: "i \<noteq> j" and "valid (ent (mem umem) 0x80004000 i)"
      "valid (ent (mem umem) 0x80004000 j)"
    then have "i = 0" "j = 0" using i4 by blast+
    then show "tables (mem umem) 0 (child (mem umem) 0x80004000 i) \<inter> tables (mem umem) 0 (child (mem umem) 0x80004000 j) = {}" using ne by simp
  qed simp_all
  have "pt_wf (mem umem) 2 0x80003000"
    unfolding numeral_2_eq_2 pt_wf.simps(2) [of "mem umem" "Suc 0"]
  proof (intro conjI allI impI)
    fix i assume "unat i < 512" "valid (ent (mem umem) 0x80003000 i)"
    then have "i = 0" using i3 by blast
    then show "ent (mem umem) 0x80003000 i AND (PTE_R OR PTE_W OR PTE_X) = 0"
      "pt_wf (mem umem) (Suc 0) (child (mem umem) 0x80003000 i)"
      "0x80003000 \<notin> tables (mem umem) (Suc 0) (child (mem umem) 0x80003000 i)"
      using t1 w1 by (simp_all add: e pa del: pt_wf.simps tables.simps)
  next
    fix i j assume "unat i < 512" "unat j < 512" and ne: "i \<noteq> j" and "valid (ent (mem umem) 0x80003000 i)"
      "valid (ent (mem umem) 0x80003000 j)"
    then have "i = 0" "j = 0" using i3 by blast+
    then show "tables (mem umem) (Suc 0) (child (mem umem) 0x80003000 i) \<inter> tables (mem umem) (Suc 0) (child (mem umem) 0x80003000 j) = {}" using ne by simp
  qed simp_all
  then show "pt_inv (mem umem) umem_pages 0x80003000" using t by (auto simp: pt_inv_def)
  assume k: "k < NPAGES"
  have "leaf m 2 pt va = (if valid (ent m pt (PX 2 va)) then
      if valid (ent m (child m pt (PX 2 va)) (PX 1 va))
      then ent m (child m (child m pt (PX 2 va)) (PX 1 va)) (PX 0 va) else 0 else 0)" for m pt va
    by (simp add: numeral_2_eq_2 Let_def)
  note lf = this [of "mem umem" "0x80003000" "pgva k"]
  have "(\<forall>i\<le>2. PX i (pgva k) = PX i (pgva 0)) \<longleftrightarrow> k = 0" using same_path [of 0 k] k by simp
  moreover have "PX i (pgva 0) = 0" for i by (simp add: pgva_def PX_def)
  moreover have "(\<forall>i\<le>2. P i) \<longleftrightarrow> P 0 \<and> P 1 \<and> P 2" for P :: "nat \<Rightarrow> bool"
    by (auto simp: numeral_2_eq_2 le_Suc_eq)
  ultimately have px: "PX 0 (pgva k) = 0 \<and> PX 1 (pgva k) = 0 \<and> PX 2 (pgva k) = 0 \<longleftrightarrow> k = 0" by simp
  have e5: "load64 (mem umem) 0x80005000 = 0x2000181f" using umem_ent(3) [of 0] by simp
  show "pmap (mem umem) 0x80003000 k = (if k = 0 then 0x2000181f else 0)"
    using px umem_ent(1) [OF unat_PX [of 2 "pgva k"]] umem_ent(2) [OF unat_PX [of 1 "pgva k"]]
      umem_ent(3) [OF unat_PX [of 0 "pgva k"]]
    by (auto simp: pmap_def lf e e5 pa split: if_splits)
qed

theorem uvmunmap_correct_witness:
  "\<exists>t. uvmunmap 0x80003000 (pgva 0) (of_nat 1) True umem = Ret () t \<and>
    page_inv t [0x80006000, 0x80007000] {0x80003000, 0x80004000, 0x80005000} \<and> pmap (mem t) 0x80003000 0 = 0"
proof -
  have pm: "pmap (mem umem) 0x80003000 0 = 0x2000181f" using umem_table(3) [of 0] by (simp add: NPAGES_def)
  have pg: "[0x80006000] = (if True then pages (pmap (mem umem) 0x80003000) 0 1 else [])"
    by (simp add: pages_def pm PTE2PA_def)
  have "\<exists>t. uvmunmap 0x80003000 (pgva 0) (of_nat 1) True umem = Ret () t \<and> kframe umem t \<and>
    page_inv t (rev [0x80006000] @ [0x80007000]) (umem_pages - set [0x80006000]) \<and>
    pt_inv (mem t) (umem_pages - set [0x80006000]) 0x80003000 \<and>
    tables (mem t) 2 0x80003000 = tables (mem umem) 2 0x80003000 \<and>
    same_off (tables (mem umem) 2 0x80003000 \<union> set [0x80006000]) (mem umem) (mem t) \<and>
    (\<forall>j<NPAGES. pmap (mem t) 0x80003000 j = (if 0 \<le> j \<and> j < 0 + 1 then 0 else pmap (mem umem) 0x80003000 j))"
    by (rule uvmunmap_correct [OF umem_inv umem_table(2) _ _ pg])
      (simp_all add: NPAGES_def pm umem_table(1) PTE_FLAGS_def)
  moreover have "umem_pages - set [0x80006000] = {0x80003000, 0x80004000, 0x80005000}" by auto
  ultimately show ?thesis by (auto simp: NPAGES_def)
qed

section \<open>Growing and shrinking user memory\<close>

lemma PGROUNDUP_pgva: "k \<le> NPAGES \<Longrightarrow> PGROUNDUP (pgva k) = pgva k"
proof -
  assume k: "k \<le> NPAGES"
  have "unat (PGROUNDUP (pgva k)) = (k * 4096 + 4095) div 4096 * 4096"
    using k by (subst unat_PGROUNDUP) (simp_all add: unat_pgva NPAGES_def)
  also have "\<dots> = unat (pgva k)" using k by (simp add: unat_pgva)
  finally show ?thesis by (simp add: word_unat_eq_iff)
qed

lemma scast_small: "unat (x :: uint64) < 2 ^ 31 \<Longrightarrow> scast (ucast x :: uint32) = x"
proof -
  assume x: "unat x < 2 ^ 31"
  show ?thesis
  proof (rule bit_word_eqI)
    fix n assume "n < LENGTH(64)"
    have hi: "\<not> bit x i" if "31 \<le> i" for i using less_exp_high_bits [OF x that] .
    show "bit (scast (ucast x :: uint32) :: uint64) n = bit x n"
      using hi by (auto simp: bit_signed_iff bit_ucast_iff min_def)
  qed
qed

lemma pgva_diff: "j \<le> k \<Longrightarrow> k \<le> NPAGES \<Longrightarrow> (pgva k - pgva j) div 4096 = of_nat (k - j)"
proof -
  assume jk: "j \<le> k" "k \<le> NPAGES"
  have "pgva k - pgva j = pgva (k - j)" using jk by (simp add: pgva_def of_nat_diff algebra_simps)
  moreover have "unat (pgva (k - j) div 4096) = k - j"
    using jk by (simp add: unat_div unat_pgva)
  ultimately have "unat ((pgva k - pgva j) div 4096) = unat (of_nat (k - j) :: uint64)"
    using jk by (simp add: unat_of_nat NPAGES_def del: of_nat_diff)
  then show ?thesis by (simp only: word_unat_eq_iff)
qed

lemma uvmdealloc_eq:
  assumes "j \<le> k" "k \<le> NPAGES"
  shows "uvmdealloc pt (pgva k) (pgva j) s =
    bnd (uvmunmap_loop pt (pgva j) (pgva k) True s) (\<lambda>_ s. Ret (pgva j) s)"
proof (cases "j = k")
  case True
  then show ?thesis by (subst uvmunmap_loop.simps) (simp add: uvmdealloc_def)
next
  case False
  then have "pgva j < pgva k" using assms by (simp add: pgva_less)
  moreover have "scast (ucast (of_nat (k - j) :: uint64) :: uint32) = (of_nat (k - j) :: uint64)"
    using assms by (intro scast_small) (simp add: unat_of_nat NPAGES_def del: of_nat_diff)
  ultimately show ?thesis
    using assms uvmunmap_eq [of pt j "k - j" True s]
    by (auto simp: uvmdealloc_def PGROUNDUP_pgva pgva_diff simp del: of_nat_diff)
qed

lemma mappages_one:
  assumes "page_inv s fr U" "pt_inv (mem s) U pt" "k < NPAGES" "\<not> valid (pmap (mem s) pt k)"
  obtains (fail) t N where "mappages pt (pgva k) 4096 pa perm s = Ret (- 1) t" "vm_step pt s fr U t N []"
      "\<forall>j<NPAGES. pmap (mem t) pt j = pmap (mem s) pt j"
  | (fill) t N fr' where "mappages pt (pgva k) 4096 pa perm s = Ret 0 t" "vm_step pt s fr U t N fr'"
      "\<forall>j<NPAGES. pmap (mem t) pt j = (if j = k then PA2PTE pa OR perm OR 1 else pmap (mem s) pt j)"
proof -
  have "pgva 1 = 4096" by (simp add: pgva_def)
  moreover obtain r t N fr' d where w: "mappages pt (pgva k) (pgva 1) pa perm s = Ret r t"
    "vm_step pt s fr U t N fr'" "if r = 0 then d = 1 else r = - 1 \<and> d < 1 \<and> fr' = []"
    "\<forall>j<NPAGES. pmap (mem t) pt j = map_range (pmap (mem s) pt) k d pa perm j"
  proof -
    have "0 < (1 :: nat)" "k + 1 \<le> NPAGES" "\<forall>j. k \<le> j \<and> j < k + 1 \<longrightarrow> \<not> valid (pmap (mem s) pt j)"
      using assms(3,4) by (auto simp: less_Suc_eq)
    from mappages_ok [OF assms(1,2) this, of pa perm] that show thesis by blast
  qed
  moreover have "\<forall>j<NPAGES. pmap (mem t) pt j = (if j = k then PA2PTE pa OR perm OR 1 else pmap (mem s) pt j)"
    if "r = 0" using w(3,4) that by (auto simp: map_range_def pgva_def)
  ultimately show thesis using fail fill by (cases "r = 0") auto
qed

text \<open>One iteration of \<open>uvmalloc\<close> and \<open>uvmcopy\<close>: allocate a page, fill it, map it; when
  there is no memory for the page or for a page-table page, nothing stays mapped.\<close>

lemma alloc_map_page:
  assumes inv: "page_inv s fr U" "pt_inv (mem s) U pt" "k < NPAGES" "\<not> valid (pmap (mem s) pt k)"
    and f: "\<And>m p. page_aligned p \<Longrightarrow> same_off {p} m (f m p)"
  obtains (none) t where "kalloc s = Ret 0 t" "kframe s t" "mem t = mem s" "page_inv t [] U" "fr = []"
  | (nomap) p s1 s2 t N where "kalloc s = Ret p s1" "p \<noteq> 0"
      "mappages pt (pgva k) 4096 p perm (s1\<lparr>mem := f (mem s1) p\<rparr>) = Ret (- 1) s2" "kfree p s2 = Ret () t"
      "kframe s t" "fr = p # N" "page_inv t [p] (U \<union> set N)" "pt_inv (mem t) (U \<union> set N) pt"
      "tables (mem t) 2 pt = tables (mem s) 2 pt \<union> set N" "same_off (tables (mem t) 2 pt \<union> {p}) (mem s) (mem t)"
      "\<forall>j<NPAGES. pmap (mem t) pt j = pmap (mem s) pt j"
  | (ok) p s1 t N fr' where "kalloc s = Ret p s1" "p \<noteq> 0" "same_off {p} (mem s) (mem s1)"
      "mappages pt (pgva k) 4096 p perm (s1\<lparr>mem := f (mem s1) p\<rparr>) = Ret 0 t"
      "kframe s t" "fr = p # N @ fr'" "page_inv t fr' (insert p (U \<union> set N))" "pt_inv (mem t) (U \<union> set N) pt"
      "tables (mem t) 2 pt = tables (mem s) 2 pt \<union> set N" "same_off (tables (mem t) 2 pt \<union> {p}) (mem s) (mem t)"
      "\<forall>j<NPAGES. pmap (mem t) pt j = (if j = k then PA2PTE p OR perm OR 1 else pmap (mem s) pt j)"
      "\<forall>a. pgof a = pgof p \<longrightarrow> mem t a = f (mem s1) p a"
  using inv(1)
proof (cases rule: ka.alloc_result)
  case (none t)
  then show thesis using that(1) by blast
next
  case (page p fr1 s1)
  let ?s2 = "s1\<lparr>mem := f (mem s1) p\<rparr>"
  have fp: "same_off {p} (mem s1) (mem ?s2)" using f [OF page(8)] by simp
  note put = ka.alloc_put [OF inv(1) page(1,6), of "f (mem s1) p", OF f [OF page(8)]]
  have s2: "kframe s ?s2" "same_off {p} (mem s) (mem ?s2)" "page_inv ?s2 fr1 (insert p U)"
    using put page(5) by auto
  have pT: "tables (mem s) 2 pt \<inter> {p} = {}" "\<forall>q\<in>{p}. page_aligned q" using page(7,8) inv(2) by (auto simp: pt_inv_def)
  note fr = pt_inv_frame [OF inv(2) s2(2) pT(2,1)]
  have i2: "pt_inv (mem ?s2) (insert p U) pt" using fr(1,2) inv(2) by (auto simp: pt_inv_def)
  have nv: "\<not> valid (pmap (mem ?s2) pt k)" using fr(3) inv(4) by simp
  have pfr: "p \<notin> set fr1" using page_invD(4) [OF inv(1)] page(5) by simp
  from s2(3) i2 inv(3) nv show thesis
  proof (cases rule: mappages_one [where pa = p and perm = perm])
    case (fail t N)
    then have v: "kframe ?s2 t" "fr1 = N" "page_inv t [] (set N \<union> insert p U)" "pt_inv (mem t) (set N \<union> insert p U) pt"
      "tables (mem t) 2 pt = tables (mem s) 2 pt \<union> set N" "same_off (tables (mem t) 2 pt) (mem ?s2) (mem t)"
      using fr(2) by (auto simp: vm_step_def)
    have "p \<in> set N \<union> insert p U" "p \<notin> tables (mem t) 2 pt" using v(2,5) pT(1) pfr by auto
    from v(3,4) this obtain u where u: "kfree p t = Ret () u" "kframe t u" "same_off {p} (mem t) (mem u)"
      "page_inv u [p] (set N \<union> insert p U - {p})" "pt_inv (mem u) (set N \<union> insert p U - {p}) pt"
      "tables (mem u) 2 pt = tables (mem t) 2 pt" "\<And>j. pmap (mem u) pt j = pmap (mem t) pt j"
      by (rule free_page) blast
    have U: "set N \<union> insert p U - {p} = U \<union> set N" using v(2) page(7) pfr by auto
    have o: "same_off (tables (mem t) 2 pt \<union> {p}) (mem s) (mem t)"
      by (rule same_off_join [OF s2(2) v(6)]) auto
    have "same_off (tables (mem u) 2 pt \<union> {p}) (mem s) (mem u)"
      by (rule same_off_join [OF o u(3)]) (auto simp: u(6))
    moreover have "kframe s u" using s2(1) v(1) u(2) by (blast intro: kframe_trans)
    ultimately show thesis
      using u(4,5,6,7) v(2,5) fail(3) fr(3) page(5) unfolding U
      by (intro that(2) [OF page(1,6) fail(1) u(1)]) simp_all
  next
    case (fill t N fr')
    then have v: "kframe ?s2 t" "fr1 = N @ fr'" "page_inv t fr' (set N \<union> insert p U)" "pt_wf (mem t) 2 pt"
      "tables (mem t) 2 pt = tables (mem s) 2 pt \<union> set N" "same_off (tables (mem t) 2 pt) (mem ?s2) (mem t)"
      using fr(2) by (auto simp: vm_step_def pt_inv_def)
    have "pt_inv (mem t) (U \<union> set N) pt" using v(4,5) inv(2) by (auto simp: pt_inv_def)
    moreover have "same_off (tables (mem t) 2 pt \<union> {p}) (mem s) (mem t)"
      by (rule same_off_join [OF s2(2) v(6)]) auto
    moreover have "kframe s t" using s2(1) v(1) by (rule kframe_trans)
    moreover have "\<forall>a. pgof a = pgof p \<longrightarrow> mem t a = f (mem s1) p a"
    proof -
      have "p \<notin> tables (mem t) 2 pt" using v(2,5) pT(1) pfr by auto
      then have "pgof p \<notin> pgof ` tables (mem t) 2 pt"
        using page_in_image [OF page(8)] pt_wf_tables [OF v(4)] by blast
      then show ?thesis using v(6) by (simp add: same_off_def)
    qed
    ultimately show thesis
      using v(2,3,5) fill(3) fr(3) page(5)
      by (intro that(3) [OF page(1,6,3) fill(1)]) (simp_all add: Un_commute)
  qed
qed

end
