(* ===== verification/Uvmalloc.thy ===== *)
theory Uvmalloc
  imports Uvm
begin

text \<open>
  \<open>uvmalloc\<close> and \<open>uvmcopy\<close> of \<open>vm.c\<close>: the loops that build user memory page by
  page, and their clean-up when memory runs out half way.
\<close>

section \<open>uvmalloc\<close>

text \<open>The leaf flags of user pages leave the physical address alone.\<close>

definition flags_ok :: "uint64 \<Rightarrow> bool" where
  "flags_ok f \<longleftrightarrow> drop_bit 10 f = 0 \<and> f AND PTE_R \<noteq> 0"

lemma flags_okD:
  assumes "flags_ok f" "page_aligned p"
  shows "PTE2PA (PA2PTE p OR f OR 1) = p" "valid (PA2PTE p OR f OR 1)"
    "PTE_FLAGS (PA2PTE p OR f OR 1) \<noteq> 1" "PTE_FLAGS (PA2PTE p OR f OR 1) = f OR 1"
proof -
  have d: "drop_bit 10 (f OR 1) = 0" using assms(1) by (simp add: flags_ok_def)
  have "f OR 1 \<noteq> 1"
  proof
    assume "f OR 1 = 1"
    then have "(f OR 1) AND 2 = 0" by simp
    moreover have "(f OR 1) AND 2 = f AND 2" by (rule bit_word_eqI) (auto simp: bit_simps)
    ultimately show False using assms(1) by (simp add: flags_ok_def)
  qed
  then show "PTE2PA (PA2PTE p OR f OR 1) = p" "valid (PA2PTE p OR f OR 1)"
    "PTE_FLAGS (PA2PTE p OR f OR 1) \<noteq> 1" "PTE_FLAGS (PA2PTE p OR f OR 1) = f OR 1"
    using PTE2PA_PA2PTE [OF assms(2) d] PTE_FLAGS_PA2PTE [OF d] or_valid [of "PA2PTE p OR f"]
    by (simp_all add: or.assoc)
qed

text \<open>Memory already mapped in a range: leaf entries, for distinct pages of the caller that are
  not page-table pages.\<close>

definition mapped :: "memory \<Rightarrow> uint64 set \<Rightarrow> uint64 \<Rightarrow> nat \<Rightarrow> nat \<Rightarrow> bool" where
  "mapped m U pt k n \<longleftrightarrow>
     (\<forall>j. k \<le> j \<and> j < k + n \<longrightarrow> valid (pmap m pt j) \<and> PTE_FLAGS (pmap m pt j) \<noteq> 1) \<and>
     distinct (pages (pmap m pt) k n) \<and> set (pages (pmap m pt) k n) \<subseteq> U - tables m 2 pt"

lemma unmap_mapped:
  assumes "page_inv s fr U" "pt_inv (mem s) U pt" "k + n \<le> NPAGES" "mapped (mem s) U pt k n"
  defines "D \<equiv> pages (pmap (mem s) pt) k n"
  obtains t where "uvmunmap_loop pt (pgva k) (pgva (k + n)) True s = Ret () t" "kframe s t"
    "page_inv t (rev D @ fr) (U - set D)" "pt_inv (mem t) (U - set D) pt"
    "tables (mem t) 2 pt = tables (mem s) 2 pt" "same_off (tables (mem s) 2 pt \<union> set D) (mem s) (mem t)"
    "\<forall>j<NPAGES. pmap (mem t) pt j = (if k \<le> j \<and> j < k + n then 0 else pmap (mem s) pt j)"
  using uvmunmap_loop_ok [OF assms(1,2,3), of D True] assms(4) by (auto simp: mapped_def D_def)

text \<open>Mapping one more page keeps what is mapped.\<close>

lemma mapped_snoc:
  assumes "mapped (mem s) U pt k n" "k + n < NPAGES" "page_aligned p" "p \<notin> U" "flags_ok f"
    "tables (mem t) 2 pt = tables (mem s) 2 pt \<union> N" "p \<notin> tables (mem t) 2 pt" "N \<inter> U = {}"
    "\<forall>j<NPAGES. pmap (mem t) pt j = (if j = k + n then PA2PTE p OR f OR 1 else pmap (mem s) pt j)"
  shows "mapped (mem t) (insert p (U \<union> N)) pt k (Suc n)"
    "pages (pmap (mem t) pt) k (Suc n) = pages (pmap (mem s) pt) k n @ [p]"
proof -
  show pg: "pages (pmap (mem t) pt) k (Suc n) = pages (pmap (mem s) pt) k n @ [p]"
    using assms(2,3,5,9) flags_okD(1) [OF assms(5,3)] by (simp add: pages_def)
  have "\<forall>j. k \<le> j \<and> j < k + Suc n \<longrightarrow> valid (pmap (mem t) pt j) \<and> PTE_FLAGS (pmap (mem t) pt j) \<noteq> 1"
    using assms(1,2,9) flags_okD(2,3) [OF assms(5,3)] by (auto simp: mapped_def less_Suc_eq)
  moreover have "set (pages (pmap (mem s) pt) k n) \<subseteq> U - tables (mem t) 2 pt"
    using assms(1,6,8) by (auto simp: mapped_def)
  ultimately show "mapped (mem t) (insert p (U \<union> N)) pt k (Suc n)"
    using assms(1,4,7) by (auto simp: mapped_def pg)
qed

lemma mapped_tables:
  assumes "mapped m U pt k n" "tables m' 2 pt = tables m 2 pt \<union> N" "N \<inter> U = {}" "k + n \<le> NPAGES"
    "\<forall>j<NPAGES. pmap m' pt j = pmap m pt j"
  shows "mapped m' (U \<union> N) pt k n" "pages (pmap m' pt) k n = pages (pmap m pt) k n"
proof -
  show pg: "pages (pmap m' pt) k n = pages (pmap m pt) k n" using assms(4,5) by (intro pages_cong) simp
  show "mapped m' (U \<union> N) pt k n" using assms unfolding mapped_def pg by auto
qed

text \<open>The two ways a loop that adds \<open>n\<close> pages from page \<open>k\<close> on can end. \<open>grown\<close>: the
  fresh pages \<open>D\<close> are mapped with the flags \<open>F\<close>, and \<open>N\<close> are new page-table pages.
  \<open>undone\<close>: the pages \<open>D0\<close> mapped since page \<open>k0\<close> are unmapped and free again; only
  page-table pages stay allocated.\<close>

definition grown :: "uint64 \<Rightarrow> 'x kmem_state_scheme \<Rightarrow> uint64 list \<Rightarrow> uint64 set \<Rightarrow> nat \<Rightarrow> nat \<Rightarrow>
    (nat \<Rightarrow> uint64) \<Rightarrow> 'x kmem_state_scheme \<Rightarrow> uint64 list \<Rightarrow> uint64 list \<Rightarrow> uint64 list \<Rightarrow> bool" where
  "grown pt s fr U k n F t fr' N D \<longleftrightarrow> length D = n \<and> distinct D \<and>
     set fr = set D \<union> set N \<union> set fr' \<and> set D \<inter> (U \<union> set N) = {} \<and>
     page_inv t fr' (U \<union> set N \<union> set D) \<and> pt_inv (mem t) (U \<union> set N) pt \<and>
     tables (mem t) 2 pt = tables (mem s) 2 pt \<union> set N \<and>
     same_off (tables (mem t) 2 pt \<union> set D) (mem s) (mem t) \<and>
     (\<forall>j<NPAGES. pmap (mem t) pt j =
        (if k \<le> j \<and> j < k + n then PA2PTE (D ! (j - k)) OR F j OR 1 else pmap (mem s) pt j))"

definition undone :: "uint64 \<Rightarrow> 'x kmem_state_scheme \<Rightarrow> uint64 list \<Rightarrow> uint64 set \<Rightarrow> nat \<Rightarrow> nat \<Rightarrow>
    uint64 set \<Rightarrow> 'x kmem_state_scheme \<Rightarrow> uint64 list \<Rightarrow> uint64 list \<Rightarrow> bool" where
  "undone pt s fr U k0 k D0 t fr' N \<longleftrightarrow> set N \<subseteq> set fr \<and> set fr' = set fr - set N \<union> D0 \<and>
     page_inv t fr' (U - D0 \<union> set N) \<and> pt_inv (mem t) (U - D0 \<union> set N) pt \<and>
     tables (mem t) 2 pt = tables (mem s) 2 pt \<union> set N \<and>
     same_off (tables (mem t) 2 pt \<union> D0 \<union> set fr) (mem s) (mem t) \<and>
     (\<forall>j<NPAGES. pmap (mem t) pt j = (if k0 \<le> j \<and> j < k then 0 else pmap (mem s) pt j))"

lemma grown_Cons:
  assumes inv: "page_inv s fr U" "pt_inv (mem s) U pt"
    and ok: "fr = p # N @ fr1" "tables (mem t) 2 pt = tables (mem s) 2 pt \<union> set N"
      "same_off (tables (mem t) 2 pt \<union> {p}) (mem s) (mem t)"
      "\<forall>j<NPAGES. pmap (mem t) pt j = (if j = k then PA2PTE p OR F k OR 1 else pmap (mem s) pt j)"
    and g: "grown pt t fr1 (insert p (U \<union> set N)) (Suc k) n F u fr' N' D"
    and u: "pt_inv (mem u) (U \<union> set N \<union> set N') pt"
  shows "grown pt s fr U k (Suc n) F u fr' (N @ N') (p # D)"
proof -
  have fr: "distinct fr" "set fr \<inter> U = {}" using page_invD(4,5) [OF inv(1)] by auto
  have "same_off (tables (mem u) 2 pt \<union> set (p # D)) (mem s) (mem u)"
    by (rule same_off_join [OF ok(3), of "tables (mem u) 2 pt \<union> set D"]) (use g ok(2) in \<open>auto simp: grown_def\<close>)
  moreover have "pmap (mem u) pt j =
     (if k \<le> j \<and> j < k + Suc n then PA2PTE ((p # D) ! (j - k)) OR F j OR 1 else pmap (mem s) pt j)"
    if "j < NPAGES" for j
    using g ok(4) that by (auto simp: grown_def nth_Cons')
  ultimately show ?thesis
    using g ok(1,2) fr u unfolding grown_def by (auto simp: Un_ac)
qed

lemma undone_Cons:
  assumes inv: "page_inv s fr U" and D0: "D0 \<subseteq> U"
    and ok: "fr = p # N @ fr1" "tables (mem t) 2 pt = tables (mem s) 2 pt \<union> set N"
      "same_off (tables (mem t) 2 pt \<union> {p}) (mem s) (mem t)"
      "\<forall>j<NPAGES. pmap (mem t) pt j = (if j = k then e else pmap (mem s) pt j)"
    and g: "undone pt t fr1 (insert p (U \<union> set N)) k0 (Suc k) (insert p D0) u fr' N'"
    and k: "k0 \<le> k"
  shows "undone pt s fr U k0 (Suc k) D0 u fr' (N @ N')"
proof -
  have fr: "distinct fr" "set fr \<inter> U = {}" using page_invD(4,5) [OF inv] by auto
  have "same_off (tables (mem u) 2 pt \<union> D0 \<union> set fr) (mem s) (mem u)"
    by (rule same_off_join [OF ok(3), of "tables (mem u) 2 pt \<union> insert p D0 \<union> set fr1"])
      (use g ok(1,2) in \<open>auto simp: undone_def\<close>)
  moreover have "insert p (U \<union> set N) - insert p D0 \<union> set N' = U - D0 \<union> set (N @ N')"
    using fr ok(1) D0 by auto
  moreover have "set fr1 - set N' \<union> insert p D0 = set fr - set (N @ N') \<union> D0"
    using fr ok(1) g by (auto simp: undone_def)
  ultimately show ?thesis
    using g ok k unfolding undone_def by auto
qed

text \<open>Undoing, when the next page cannot be mapped.\<close>

lemma undo:
  assumes inv: "page_inv t fr1 (U \<union> set N)" "pt_inv (mem t) (U \<union> set N) pt" "set N \<inter> U = {}"
    and m: "mapped (mem s) U pt k0 (k - k0)" "k0 \<le> k" "k \<le> NPAGES"
    and fr: "set N \<subseteq> set fr" "set fr1 = set fr - set N" "set fr \<inter> U = {}"
    and t: "tables (mem t) 2 pt = tables (mem s) 2 pt \<union> set N"
      "same_off (tables (mem t) 2 pt \<union> set fr) (mem s) (mem t)"
      "\<forall>j<NPAGES. pmap (mem t) pt j = pmap (mem s) pt j"
  defines "D0 \<equiv> set (pages (pmap (mem s) pt) k0 (k - k0))"
  obtains u fr' where "uvmdealloc pt (pgva k) (pgva k0) t = Ret (pgva k0) u" "kframe t u"
    "undone pt s fr U k0 k D0 u fr' N"
proof -
  have mt: "mapped (mem t) (U \<union> set N) pt k0 (k - k0)"
    and pg: "pages (pmap (mem t) pt) k0 (k - k0) = pages (pmap (mem s) pt) k0 (k - k0)"
    using mapped_tables [OF m(1) t(1) inv(3) _ t(3)] m(2,3) by simp_all
  have "k0 + (k - k0) \<le> NPAGES" using m(2,3) by simp
  from inv(1,2) this mt obtain u where u: "uvmunmap_loop pt (pgva k0) (pgva (k0 + (k - k0))) True t = Ret () u"
    "kframe t u" "page_inv u (rev (pages (pmap (mem s) pt) k0 (k - k0)) @ fr1) (U \<union> set N - D0)"
    "pt_inv (mem u) (U \<union> set N - D0) pt" "tables (mem u) 2 pt = tables (mem t) 2 pt"
    "same_off (tables (mem t) 2 pt \<union> D0) (mem t) (mem u)"
    "\<forall>j<NPAGES. pmap (mem u) pt j = (if k0 \<le> j \<and> j < k0 + (k - k0) then 0 else pmap (mem t) pt j)"
    unfolding D0_def pg [symmetric] by (rule unmap_mapped) blast
  have "D0 \<subseteq> U" using m(1) by (auto simp: mapped_def D0_def)
  then have U: "U \<union> set N - D0 = U - D0 \<union> set N" using inv(3) by auto
  have "same_off (tables (mem u) 2 pt \<union> D0 \<union> set fr) (mem s) (mem u)"
    by (rule same_off_join [OF t(2) u(6)]) (auto simp: u(5))
  moreover have "set (rev (pages (pmap (mem s) pt) k0 (k - k0)) @ fr1) = set fr - set N \<union> D0"
    by (simp add: D0_def fr(2) Un_commute)
  ultimately have "undone pt s fr U k0 k D0 u (rev (pages (pmap (mem s) pt) k0 (k - k0)) @ fr1) N"
    using u(3,4,5,7) fr(1) t(1,3) m(2) unfolding undone_def U by (auto simp del: set_append)
  with that uvmdealloc_eq [OF m(2,3), of pt t] u(1,2) m(2) show thesis by simp
qed

lemma undone_shrink:
  assumes "undone pt s fr U k0 (Suc k) D0 t fr' N" "pmap (mem s) pt k = 0" "k < NPAGES"
  shows "undone pt s fr U k0 k D0 t fr' N"
proof -
  have "pmap (mem t) pt j = (if k0 \<le> j \<and> j < k then 0 else pmap (mem s) pt j)" if "j < NPAGES" for j
    using assms that unfolding undone_def by (cases "j = k") auto
  then have "\<forall>j<NPAGES. pmap (mem t) pt j = (if k0 \<le> j \<and> j < k then 0 else pmap (mem s) pt j)" by blast
  then show ?thesis using assms(1) unfolding undone_def by blast
qed

definition zero_page :: "memory \<Rightarrow> uint64 \<Rightarrow> bool" where
  "zero_page m p \<longleftrightarrow> (\<forall>a. pgof a = pgof p \<longrightarrow> m a = 0)"

lemma zero_page_memset: "page_aligned p \<Longrightarrow> zero_page (memset m p 0 4096) p"
  using in_block [of 12 p] by (simp add: zero_page_def memset_eq)

lemma zero_page_same_off:
  "same_off S m m' \<Longrightarrow> page_aligned p \<Longrightarrow> \<forall>q\<in>S. page_aligned q \<Longrightarrow> p \<notin> S \<Longrightarrow> zero_page m p \<Longrightarrow> zero_page m' p"
  using page_in_image [of p S] by (auto simp: zero_page_def same_off_def)

lemma uvmalloc_loop_ok:
  assumes "page_inv s fr U" "pt_inv (mem s) U pt" "mapped (mem s) U pt k0 (k - k0)" "k0 \<le> k"
    "k + n \<le> NPAGES" "\<forall>i\<le>NPAGES. pgva i < newsz \<longleftrightarrow> i < k + n" "flags_ok (2 OR 16 OR xperm)"
    "\<forall>j. k \<le> j \<and> j < k + n \<longrightarrow> pmap (mem s) pt j = 0"
  shows "\<exists>r t fr' N. uvmalloc_loop pt (pgva k) (pgva k0) newsz xperm s = Ret r t \<and> kframe s t \<and>
    (r = newsz \<and> (\<exists>D. grown pt s fr U k n (\<lambda>_. 2 OR 16 OR xperm) t fr' N D \<and> (\<forall>p\<in>set D. zero_page (mem t) p)) \<or>
     r = 0 \<and> undone pt s fr U k0 k (set (pages (pmap (mem s) pt) k0 (k - k0))) t fr' N)"
  using assms
proof (induction n arbitrary: k s fr U)
  case 0
  then have "\<not> pgva k < newsz" by simp
  moreover have "grown pt s fr U k 0 (\<lambda>_. 2 OR 16 OR xperm) s fr [] []"
    using 0 by (auto simp: grown_def)
  ultimately show ?case by (subst uvmalloc_loop.simps) fastforce
next
  case (Suc n)
  let ?F = "\<lambda>_ :: nat. 2 OR 16 OR xperm"
  let ?D0 = "set (pages (pmap (mem s) pt) k0 (k - k0))"
  have k: "k < NPAGES" "pgva k < newsz" "pmap (mem s) pt k = 0" "k \<le> NPAGES" using Suc.prems by auto
  have D0: "?D0 \<subseteq> U" using Suc.prems(3) by (auto simp: mapped_def)
  have frU: "distinct fr" "set fr \<inter> U = {}" using page_invD(4,5) [OF Suc.prems(1)] by auto
  have nv: "\<not> valid (pmap (mem s) pt k)" using k(3) by simp
  have ms: "page_aligned p \<Longrightarrow> same_off {p} m (memset m p 0 4096)" for m p
    by (rule same_off_memset) simp_all
  show ?case
  proof (rule alloc_map_page [where f = "\<lambda>m p. memset m p 0 4096" and perm = "2 OR 16 OR xperm",
        OF Suc.prems(1,2) k(1) nv ms], goal_cases)
    case (1 m p)
    then show ?case .
  next
    case none: (2 t)
    obtain u fr' where u: "uvmdealloc pt (pgva k) (pgva k0) t = Ret (pgva k0) u" "kframe t u"
      "undone pt s fr U k0 k ?D0 u fr' []"
      by (rule undo [of t "[]" U "[]" pt s k0 k fr]) (use none Suc.prems k in auto)
    have "uvmalloc_loop pt (pgva k) (pgva k0) newsz xperm s = Ret 0 u"
      using none(1) k(2) u(1) by (subst uvmalloc_loop.simps) simp
    with u none(2) kframe_trans show ?thesis by blast
  next
    case nomap: (3 p s1 s2 t N)
    obtain u fr' where u: "uvmdealloc pt (pgva k) (pgva k0) t = Ret (pgva k0) u" "kframe t u"
      "undone pt s fr U k0 k ?D0 u fr' N"
      by (rule undo [OF nomap(7,8) _ Suc.prems(3,4) k(4), of fr])
        (use nomap frU in \<open>auto elim: same_off_mono\<close>)
    have "uvmalloc_loop pt (pgva k) (pgva k0) newsz xperm s = Ret 0 u"
      using nomap(1-4) k(2) u(1) by (subst uvmalloc_loop.simps) (simp add: Let_def)
    with u nomap(5) kframe_trans show ?thesis by blast
  next
    case ok: (4 p s1 t N fr1)
    have p: "page_aligned p" "p \<notin> U" using page_invD(7) [OF Suc.prems(1)] frU ok(6) by auto
    have tN: "p \<notin> tables (mem t) 2 pt" "set N \<inter> U = {}"
      using ok(6,9) frU Suc.prems(2) by (auto simp: pt_inv_def)
    note sn = mapped_snoc [of s U pt k0 "k - k0" p "2 OR 16 OR xperm" t "set N"]
    have mt: "mapped (mem t) (insert p (U \<union> set N)) pt k0 (Suc k - k0)"
      and pg: "pages (pmap (mem t) pt) k0 (Suc k - k0) = pages (pmap (mem s) pt) k0 (k - k0) @ [p]"
      using sn Suc.prems(3,4,7) k(1) p ok(9,11) tN by (simp_all add: Suc_diff_le)
    obtain r u fr' N' where u: "uvmalloc_loop pt (pgva (Suc k)) (pgva k0) newsz xperm t = Ret r u" "kframe t u"
      "r = newsz \<and> (\<exists>D. grown pt t fr1 (insert p (U \<union> set N)) (Suc k) n ?F u fr' N' D \<and> (\<forall>p\<in>set D. zero_page (mem u) p)) \<or>
       r = 0 \<and> undone pt t fr1 (insert p (U \<union> set N)) k0 (Suc k) (insert p ?D0) u fr' N'"
    proof -
      have "Suc k + n \<le> NPAGES" "\<forall>i\<le>NPAGES. pgva i < newsz \<longleftrightarrow> i < Suc k + n" "k0 \<le> Suc k"
        using Suc.prems(4,5,6) by auto
      moreover have "\<forall>j. Suc k \<le> j \<and> j < Suc k + n \<longrightarrow> pmap (mem t) pt j = 0"
        using Suc.prems(5,8) ok(11) by auto
      moreover have "pt_inv (mem t) (insert p (U \<union> set N)) pt" using ok(8) by (auto simp: pt_inv_def)
      ultimately show thesis
        using Suc.IH [OF ok(7) _ mt] Suc.prems(7) that unfolding pg by fastforce
    qed
    have eq: "uvmalloc_loop pt (pgva k) (pgva k0) newsz xperm s = Ret r u"
      using ok(1,2,4) k(2) u(1) by (subst uvmalloc_loop.simps) (simp add: Let_def pgva_Suc)
    have kf: "kframe s u" using ok(5) u(2) by (rule kframe_trans)
    from u(3) show ?thesis
    proof
      assume "r = newsz \<and> (\<exists>D. grown pt t fr1 (insert p (U \<union> set N)) (Suc k) n ?F u fr' N' D \<and> (\<forall>p\<in>set D. zero_page (mem u) p))"
      then obtain D where r: "r = newsz" and g: "grown pt t fr1 (insert p (U \<union> set N)) (Suc k) n ?F u fr' N' D"
        and z: "\<forall>p\<in>set D. zero_page (mem u) p" by blast
      have pu: "pt_inv (mem u) (U \<union> set N \<union> set N') pt"
        using g ok(8,9) Suc.prems(2) by (auto simp: grown_def pt_inv_def)
      have "grown pt s fr U k (Suc n) ?F u fr' (N @ N') (p # D)"
        by (rule grown_Cons [OF Suc.prems(1,2) ok(6,9,10,11) g pu])
      moreover have "zero_page (mem u) p"
      proof (rule zero_page_same_off [of "tables (mem u) 2 pt \<union> set D" "mem t", OF _ p(1)])
        show "same_off (tables (mem u) 2 pt \<union> set D) (mem t) (mem u)" using g unfolding grown_def by blast
        have "set D \<subseteq> set fr" using g ok(6) by (auto simp: grown_def)
        then show "\<forall>q\<in>tables (mem u) 2 pt \<union> set D. page_aligned q"
          using pu page_invD(7) [OF Suc.prems(1)] by (auto simp: pt_inv_def dest: pt_wf_tables)
        show "p \<notin> tables (mem u) 2 pt \<union> set D"
          using g tN(1) frU(1) ok(6) by (auto simp: grown_def)
        show "zero_page (mem t) p"
          using ok(12) zero_page_memset [OF p(1), of "mem s1"] by (simp add: zero_page_def)
      qed
      ultimately show ?thesis using eq kf r z by (metis set_ConsD)
    next
      assume "r = 0 \<and> undone pt t fr1 (insert p (U \<union> set N)) k0 (Suc k) (insert p ?D0) u fr' N'"
      then have "r = 0" "undone pt s fr U k0 (Suc k) ?D0 u fr' (N @ N')"
        using undone_Cons [OF Suc.prems(1) D0 ok(6,9,10,11)] Suc.prems(4) by blast+
      then show ?thesis using undone_shrink [OF _ k(3,1)] eq kf by blast
    qed
  qed
qed

lemma newsz_pages:
  assumes "unat newsz \<le> NPAGES * 4096" "i \<le> NPAGES"
  shows "pgva i < newsz \<longleftrightarrow> i < (unat newsz + 4095) div 4096"
  using assms by (simp add: word_less_nat_alt unat_pgva) linarith

lemma PGROUNDUP_pages:
  assumes "unat a \<le> NPAGES * 4096"
  shows "PGROUNDUP a = pgva ((unat a + 4095) div 4096)" "(unat a + 4095) div 4096 \<le> NPAGES"
proof -
  show k: "(unat a + 4095) div 4096 \<le> NPAGES" using assms by linarith
  have "unat (PGROUNDUP a) = (unat a + 4095) div 4096 * 4096"
    using assms by (intro unat_PGROUNDUP) (simp add: NPAGES_def)
  then show "PGROUNDUP a = pgva ((unat a + 4095) div 4096)"
    using k by (simp add: word_unat_eq_iff unat_pgva)
qed

text \<open>
  C6. \<open>uvmalloc\<close> from \<open>oldsz\<close> to \<open>newsz\<close>, where the pages in between are unmapped, returns
  \<open>newsz\<close> with each of those pages mapped readable for the user to its own fresh, zeroed
  page, or returns 0 with the page table, as a map from pages to entries, exactly as it was
  and every data page it had taken back on the free list; only page-table pages are kept.
\<close>

theorem uvmalloc_all_or_nothing:
  assumes "page_inv s fr U" "pt_inv (mem s) U pt" "oldsz \<le> newsz" "unat newsz \<le> NPAGES * 4096"
    "flags_ok (PTE_R OR PTE_U OR xperm)"
  defines "k \<equiv> (unat oldsz + 4095) div 4096" and "n \<equiv> (unat newsz + 4095) div 4096 - (unat oldsz + 4095) div 4096"
  assumes "\<forall>j. k \<le> j \<and> j < k + n \<longrightarrow> pmap (mem s) pt j = 0"
  shows "\<exists>r t fr' N. uvmalloc pt oldsz newsz xperm s = Ret r t \<and> kframe s t \<and>
    (r = newsz \<and> (\<exists>D. grown pt s fr U k n (\<lambda>_. PTE_R OR PTE_U OR xperm) t fr' N D \<and>
        (\<forall>p\<in>set D. zero_page (mem t) p)) \<or>
     r = 0 \<and> page_inv t fr' (U \<union> set N) \<and> pt_inv (mem t) (U \<union> set N) pt \<and>
       set fr' = set fr - set N \<and> tables (mem t) 2 pt = tables (mem s) 2 pt \<union> set N \<and>
       (\<forall>j<NPAGES. pmap (mem t) pt j = pmap (mem s) pt j))"
proof -
  have le: "unat oldsz \<le> unat newsz" using assms(3) by (simp add: word_le_nat_alt)
  then have kn: "k + n = (unat newsz + 4095) div 4096" by (simp add: k_def n_def div_le_mono)
  have "k + n \<le> NPAGES" using assms(4) kn by linarith
  moreover have "\<forall>i\<le>NPAGES. pgva i < newsz \<longleftrightarrow> i < k + n" using newsz_pages [OF assms(4)] kn by simp
  moreover have "mapped (mem s) U pt k (k - k)" by (auto simp: mapped_def)
  ultimately obtain r t fr' N where t: "uvmalloc_loop pt (pgva k) (pgva k) newsz xperm s = Ret r t" "kframe s t"
    "r = newsz \<and> (\<exists>D. grown pt s fr U k n (\<lambda>_. PTE_R OR PTE_U OR xperm) t fr' N D \<and> (\<forall>p\<in>set D. zero_page (mem t) p)) \<or>
     r = 0 \<and> undone pt s fr U k k {} t fr' N"
    using uvmalloc_loop_ok [OF assms(1,2), of k k n newsz xperm] assms(5,8) that
    by (simp del: One_nat_def) blast
  have "uvmalloc pt oldsz newsz xperm s = Ret r t"
    using t(1) PGROUNDUP_pages(1) [of oldsz] assms(3,4) le
    by (simp add: uvmalloc_def Let_def k_def not_le [symmetric])
  moreover have "page_inv t fr' (U \<union> set N) \<and> pt_inv (mem t) (U \<union> set N) pt \<and>
       set fr' = set fr - set N \<and> tables (mem t) 2 pt = tables (mem s) 2 pt \<union> set N \<and>
       (\<forall>j<NPAGES. pmap (mem t) pt j = pmap (mem s) pt j)" if "undone pt s fr U k k {} t fr' N"
    using that unfolding undone_def by auto
  ultimately show ?thesis using t(2,3) by blast
qed

theorem uvmalloc_all_or_nothing_witness:
  "\<exists>r t. uvmalloc 0x80003000 0 4096 PTE_W pool = Ret r t \<and> (r = 4096 \<or> r = 0)"
proof -
  have "flags_ok (PTE_R OR PTE_U OR PTE_W)" by (simp add: flags_ok_def)
  moreover have "unat (4096 :: uint64) \<le> NPAGES * 4096" by (simp add: NPAGES_def)
  ultimately show ?thesis
    using uvmalloc_all_or_nothing [OF pool_inv pool_table(1), of 0 4096 PTE_W] pool_table(2) by auto
qed

end
