(* ===== verification/Proc.thy ===== *)
theory Proc
  imports Uvmalloc
begin

text \<open>
  Processes: \<open>struct proc\<close> of \<open>src/kernel/proc.h\<close> and the part of \<open>src/kernel/proc.c\<close>
  that does not touch the file system: process allocation, the scheduler, \<open>sleep\<close> and
  \<open>wakeup\<close>, \<open>kill\<close>. A thread that gives up the CPU ends in the outcome \<open>Wait\<close> at
  \<open>sched\<close>, where \<open>swtch\<close> leaves it; the code on both sides of the switch is in separate
  definitions, so that a resumed thread and the scheduler loop can be composed explicitly.
\<close>

section \<open>Process table\<close>

datatype procstate = UNUSED | USED | SLEEPING | RUNNABLE | RUNNING | ZOMBIE

text \<open>One identifier per sleep lock, and per kernel address processes sleep on.\<close>

datatype sleepid = BufSL nat | InodeSL nat

datatype chan = ChProc nat | ChSleep sleepid | ChLog | ChTicks | ChPipeR uint64 | ChPipeW uint64
  | ChCons | ChUart | ChDiskFree | ChBuf nat

record kcontext =
  c_ra :: uint64
  c_sp :: uint64
  c_sregs :: "uint64 list"

record proc =
  p_state :: procstate
  p_chan :: "chan option"
  p_killed :: bool
  p_xstate :: uint32
  p_pid :: uint32
  p_parent :: "nat option"
  p_kstack :: uint64
  p_sz :: uint64
  p_pagetable :: uint64
  p_kpagetable :: uint64
  p_trapframe :: uint64
  p_context :: kcontext
  p_ofile :: "nat \<Rightarrow> nat option"
  p_cwd :: "nat option"
  p_name :: "uint8 list"
  p_usyscall :: uint64

record proc_state = vm_state +
  procs :: "nat \<Rightarrow> proc"
  initproc :: "nat option"
  nextpid :: uint32
  ticks :: uint32

definition upd_proc :: "nat \<Rightarrow> (proc \<Rightarrow> proc) \<Rightarrow> 'x proc_state_scheme \<Rightarrow> 'x proc_state_scheme" where
  "upd_proc i f s = s\<lparr>procs := (procs s)(i := f (procs s i))\<rparr>"

text \<open>Dereferencing a null process pointer in the kernel faults, and \<open>kerneltrap\<close> panics.\<close>

definition deref :: "'a option \<Rightarrow> 's \<Rightarrow> ('a, 's) outcome" where
  "deref p s = (case p of None \<Rightarrow> Panic ''kerneltrap'' | Some x \<Rightarrow> Ret x s)"

definition procinit :: "'x proc_state_scheme \<Rightarrow> (unit, 'x proc_state_scheme) outcome" where
  "procinit s =
     (let s = initlock PidLock ''nextpid'' s;
          s = initlock WaitLock ''wait_lock'' s
      in forn NPROC 0 (\<lambda>i s.
           let s = initlock (ProcLock i) ''proc'' s
           in Ret () (upd_proc i (\<lambda>p. p\<lparr>p_state := UNUSED, p_kstack := KSTACK i\<rparr>) s)) s)"

definition myproc :: "'x machine_scheme \<Rightarrow> (nat option, 'x machine_scheme) outcome" where
  "myproc s =
     (let s = push_off s;
          p = cpu_proc (mycpu s)
      in bnd (pop_off s) (\<lambda>_ s. Ret p s))"

definition curproc :: "'x machine_scheme \<Rightarrow> (nat, 'x machine_scheme) outcome" where
  "curproc s = bnd (myproc s) (\<lambda>p s. deref p s)"

definition allocpid :: "'x proc_state_scheme \<Rightarrow> (uint32, 'x proc_state_scheme) outcome" where
  "allocpid s =
     bnd (acquire PidLock s) (\<lambda>_ s.
     let pid = nextpid s;
         s = s\<lparr>nextpid := nextpid s + 1\<rparr>
     in bnd (release PidLock s) (\<lambda>_ s. Ret pid s))"

section \<open>Page tables of a process\<close>

definition proc_pagetable :: "nat \<Rightarrow> 'x proc_state_scheme \<Rightarrow> (uint64, 'x proc_state_scheme) outcome" where
  "proc_pagetable i s =
     bnd (uvmcreate s) (\<lambda>pagetable s.
     if pagetable = 0 then Ret 0 s
     else
       bnd (mappages pagetable TRAMPOLINE PGSIZE (sym_trampoline (syms s)) (PTE_R OR PTE_X) s) (\<lambda>r s.
       if r < 0 then bnd (uvmfree pagetable 0 s) (\<lambda>_ s. Ret 0 s)
       else
         bnd (mappages pagetable TRAPFRAME PGSIZE (p_trapframe (procs s i)) (PTE_R OR PTE_W) s) (\<lambda>r s.
         if r < 0 then
           bnd (uvmunmap pagetable TRAMPOLINE 1 False s) (\<lambda>_ s.
           bnd (uvmfree pagetable 0 s) (\<lambda>_ s. Ret 0 s))
         else Ret pagetable s)))"

definition proc_freepagetable :: "uint64 \<Rightarrow> uint64 \<Rightarrow> 'x kmem_state_scheme \<Rightarrow> (unit, 'x kmem_state_scheme) outcome" where
  "proc_freepagetable pagetable sz s =
     bnd (uvmunmap pagetable TRAMPOLINE 1 False s) (\<lambda>_ s.
     bnd (uvmunmap pagetable TRAPFRAME 1 False s) (\<lambda>_ s.
     uvmfree pagetable sz s))"

text \<open>Like \<open>freewalk\<close>, but leaf entries are cleared instead of refused. The depth bound is the
  one of \<open>freewalk\<close>.\<close>

primrec free_kpagetable_depth :: "nat \<Rightarrow> uint64 \<Rightarrow> 'x kmem_state_scheme \<Rightarrow> (unit, 'x kmem_state_scheme) outcome" where
  "free_kpagetable_depth 0 pagetable s = NoFuel"
| "free_kpagetable_depth (Suc d) pagetable s =
     bnd (forn 512 0 (\<lambda>i s.
       let pte = load64 (mem s) (pagetable + 8 * of_nat i)
       in if pte AND PTE_V \<noteq> 0 \<and> pte AND (PTE_R OR PTE_W OR PTE_X) = 0 then
            bnd (free_kpagetable_depth d (PTE2PA pte) s) (\<lambda>_ s.
              Ret () (s\<lparr>mem := store64 (mem s) (pagetable + 8 * of_nat i) 0\<rparr>))
          else if pte AND PTE_V \<noteq> 0 then
            Ret () (s\<lparr>mem := store64 (mem s) (pagetable + 8 * of_nat i) 0\<rparr>)
          else Ret () s) s) (\<lambda>_ s. kfree pagetable s)"

definition proc_free_kpagetable :: "uint64 \<Rightarrow> 'x kmem_state_scheme \<Rightarrow> (unit, 'x kmem_state_scheme) outcome" where
  "proc_free_kpagetable pagetable s = free_kpagetable_depth 3 pagetable s"

section \<open>Allocating and freeing processes\<close>

definition freeproc :: "nat \<Rightarrow> 'x proc_state_scheme \<Rightarrow> (unit, 'x proc_state_scheme) outcome" where
  "freeproc i s =
     bnd (if p_trapframe (procs s i) \<noteq> 0 then kfree (p_trapframe (procs s i)) s else Ret () s) (\<lambda>_ s.
     let s = upd_proc i (p_trapframe_update (\<lambda>_. 0)) s
     in bnd (if p_pagetable (procs s i) \<noteq> 0 \<and> p_usyscall (procs s i) \<noteq> 0
             then uvmunmap (p_pagetable (procs s i)) USYSCALL 1 False s else Ret () s) (\<lambda>_ s.
        bnd (if p_pagetable (procs s i) \<noteq> 0
             then proc_freepagetable (p_pagetable (procs s i)) (p_sz (procs s i)) s else Ret () s) (\<lambda>_ s.
        let s = upd_proc i (p_pagetable_update (\<lambda>_. 0)) s
        in bnd (if p_usyscall (procs s i) \<noteq> 0
                then bnd (kfree (p_usyscall (procs s i)) s) (\<lambda>_ s.
                       Ret () (upd_proc i (p_usyscall_update (\<lambda>_. 0)) s))
                else Ret () s) (\<lambda>_ s.
           bnd (if p_kstack (procs s i) \<noteq> 0 then kfree (p_kstack (procs s i)) s else Ret () s) (\<lambda>_ s.
           let s = upd_proc i (p_kstack_update (\<lambda>_. 0)) s
           in bnd (if p_kpagetable (procs s i) \<noteq> 0 \<and> p_sz (procs s i) > 0
                   then kvmdealloc (p_kpagetable (procs s i)) (p_sz (procs s i)) 0 s else Ret () s) (\<lambda>_ s.
              bnd (if p_kpagetable (procs s i) \<noteq> 0
                   then proc_free_kpagetable (p_kpagetable (procs s i)) s else Ret () s) (\<lambda>_ s.
              Ret () (upd_proc i (\<lambda>p. p\<lparr>p_kpagetable := 0, p_sz := 0, p_pid := 0, p_parent := None,
                p_name := (p_name p)[0 := 0], p_chan := None, p_killed := False, p_xstate := 0,
                p_state := UNUSED\<rparr>) s))))))))"

text \<open>\<open>allocproc\<close> from the label \<open>found\<close> on, with \<open>p->lock\<close> held. The failure of the
  kernel-stack allocation returns without releasing the lock.\<close>

definition allocproc_found :: "nat \<Rightarrow> 'x proc_state_scheme \<Rightarrow> (nat option, 'x proc_state_scheme) outcome" where
  "allocproc_found i s =
     (let bad = (\<lambda>s. bnd (freeproc i s) (\<lambda>_ s. bnd (release (ProcLock i) s) (\<lambda>_ s. Ret None s)))
      in bnd (allocpid s) (\<lambda>pid s.
         let s = upd_proc i (\<lambda>p. p\<lparr>p_pid := pid, p_state := USED\<rparr>) s
         in bnd (kalloc s) (\<lambda>tf s.
            let s = upd_proc i (p_trapframe_update (\<lambda>_. tf)) s
            in if tf = 0 then bad s
            else bnd (proc_pagetable i s) (\<lambda>pt s.
              let s = upd_proc i (p_pagetable_update (\<lambda>_. pt)) s
              in if pt = 0 then bad s
              else bnd (kalloc s) (\<lambda>us s.
                let s = upd_proc i (p_usyscall_update (\<lambda>_. us)) s
                in if us = 0 then bad s
                else
                  let s = s\<lparr>mem := store32 (mem s) us (p_pid (procs s i))\<rparr>
                  in bnd (mappages pt USYSCALL PGSIZE us (PTE_R OR PTE_U) s) (\<lambda>r s.
                     if r < 0 then bad s
                     else bnd (proc_kpagetable_init s) (\<lambda>kpt s.
                       let s = upd_proc i (p_kpagetable_update (\<lambda>_. kpt)) s
                       in if kpt = 0 then bad s
                       else bnd (kalloc s) (\<lambda>pa s.
                         if pa = 0 then bnd (freeproc i s) (\<lambda>_ s. Ret None s)
                         else
                           let s = upd_proc i (p_kstack_update (\<lambda>_. pa)) s
                           in bnd (kvmmap kpt (KSTACK i) pa PGSIZE (PTE_R OR PTE_W) s) (\<lambda>_ s.
                              Ret (Some i) (upd_proc i (p_context_update (\<lambda>_.
                                \<lparr>c_ra = sym_forkret (syms s), c_sp = pa + PGSIZE, c_sregs = replicate 12 0\<rparr>)) s))))))))))"

text \<open>The search loop: the slots from \<open>i\<close> on, \<open>k\<close> of them.\<close>

fun allocproc_from :: "nat \<Rightarrow> nat \<Rightarrow> 'x proc_state_scheme \<Rightarrow> (nat option, 'x proc_state_scheme) outcome" where
  "allocproc_from 0 i s = Ret None s"
| "allocproc_from (Suc k) i s =
     bnd (acquire (ProcLock i) s) (\<lambda>_ s.
     if p_state (procs s i) = UNUSED then allocproc_found i s
     else bnd (release (ProcLock i) s) (\<lambda>_ s. allocproc_from k (Suc i) s))"

definition allocproc :: "'x proc_state_scheme \<Rightarrow> (nat option, 'x proc_state_scheme) outcome" where
  "allocproc s = allocproc_from NPROC 0 s"

definition growproc :: "uint32 \<Rightarrow> 'x proc_state_scheme \<Rightarrow> (int, 'x proc_state_scheme) outcome" where
  "growproc n s =
     bnd (curproc s) (\<lambda>i s.
     let sz = p_sz (procs s i);
         pt = p_pagetable (procs s i);
         kpt = p_kpagetable (procs s i)
     in if sint n > 0 then
          if PGROUNDUP (sz + scast n) \<ge> USER_TOP then Ret (- 1) s
          else bnd (uvmalloc pt sz (sz + scast n) PTE_W s) (\<lambda>newsz s.
            if newsz = 0 then Ret (- 1) s
            else bnd (u2kvmcopy pt kpt sz newsz s) (\<lambda>_ s.
              Ret 0 (upd_proc i (p_sz_update (\<lambda>_. newsz)) s)))
        else if sint n < 0 then
          bnd (kvmdealloc kpt sz (sz + scast n) s) (\<lambda>_ s.
          bnd (uvmdealloc pt sz (sz + scast n) s) (\<lambda>newsz s.
            Ret 0 (upd_proc i (p_sz_update (\<lambda>_. newsz)) s)))
        else Ret 0 (upd_proc i (p_sz_update (\<lambda>_. sz)) s))"

section \<open>Scheduling\<close>

text \<open>\<open>sched\<close> up to \<open>swtch\<close>; the result is the interrupt flag of the thread, which it
  restores when it is switched back to.\<close>

definition sched_enter :: "'x proc_state_scheme \<Rightarrow> (bool, 'x proc_state_scheme) outcome" where
  "sched_enter s =
     bnd (curproc s) (\<lambda>i s.
     if \<not> holding (ProcLock i) s then Panic ''sched p->lock''
     else if noff (mycpu s) \<noteq> 1 then Panic ''sched locks''
     else if p_state (procs s i) = RUNNING then Panic ''sched running''
     else if intr_get s then Panic ''sched interruptible''
     else Ret (intena (mycpu s)) s)"

definition sched_leave :: "bool \<Rightarrow> 'x machine_scheme \<Rightarrow> 'x machine_scheme" where
  "sched_leave ie s = set_mycpu ((mycpu s)\<lparr>intena := ie\<rparr>) s"

definition sched :: "'x proc_state_scheme \<Rightarrow> (unit, 'x proc_state_scheme) outcome" where
  "sched s = bnd (sched_enter s) (\<lambda>ie s. bnd (Wait s) (\<lambda>(_ :: unit) s. Ret () (sched_leave ie s)))"

definition yield :: "'x proc_state_scheme \<Rightarrow> (unit, 'x proc_state_scheme) outcome" where
  "yield s =
     bnd (curproc s) (\<lambda>i s.
     bnd (acquire (ProcLock i) s) (\<lambda>_ s.
     bnd (sched (upd_proc i (p_state_update (\<lambda>_. RUNNABLE)) s)) (\<lambda>_ s.
     release (ProcLock i) s)))"

text \<open>The body of the scheduler's loop over the process table, on both sides of \<open>swtch\<close>.
  \<open>scheduler_pick\<close> tells whether it switched to the process.\<close>

definition scheduler_pick :: "nat \<Rightarrow> 'x proc_state_scheme \<Rightarrow> (bool, 'x proc_state_scheme) outcome" where
  "scheduler_pick i s =
     bnd (acquire (ProcLock i) s) (\<lambda>_ s.
     if p_state (procs s i) = RUNNABLE then
       let s = upd_proc i (p_state_update (\<lambda>_. RUNNING)) s;
           s = set_mycpu ((mycpu s)\<lparr>cpu_proc := Some i\<rparr>) s
       in Ret True (w_satp (MAKE_SATP (p_kpagetable (procs s i))) s)
     else bnd (release (ProcLock i) s) (\<lambda>_ s. Ret False s))"

definition scheduler_return :: "nat \<Rightarrow> 'x proc_state_scheme \<Rightarrow> (unit, 'x proc_state_scheme) outcome" where
  "scheduler_return i s =
     (let s = kvminithart s;
          s = set_mycpu ((mycpu s)\<lparr>cpu_proc := None\<rparr>) s
      in release (ProcLock i) s)"

text \<open>One pass of the scheduler from slot \<open>i\<close> on, until it switches to a process.\<close>

fun scheduler_scan :: "nat \<Rightarrow> nat \<Rightarrow> 'x proc_state_scheme \<Rightarrow> (nat option, 'x proc_state_scheme) outcome" where
  "scheduler_scan 0 i s = Ret None s"
| "scheduler_scan (Suc k) i s =
     bnd (scheduler_pick i s) (\<lambda>ok s. if ok then Ret (Some i) s else scheduler_scan k (Suc i) s)"

definition scheduler_start :: "'x proc_state_scheme \<Rightarrow> 'x proc_state_scheme" where
  "scheduler_start s = set_mycpu ((mycpu s)\<lparr>cpu_proc := None\<rparr>) s"

definition scheduler_pass :: "'x proc_state_scheme \<Rightarrow> (nat option, 'x proc_state_scheme) outcome" where
  "scheduler_pass s = scheduler_scan NPROC 0 (intr_on s)"

section \<open>sleep and wakeup\<close>

definition sleep_enter :: "chan \<Rightarrow> lockid \<Rightarrow> 'x proc_state_scheme \<Rightarrow> (nat, 'x proc_state_scheme) outcome" where
  "sleep_enter ch lk s =
     bnd (curproc s) (\<lambda>i s.
     bnd (acquire (ProcLock i) s) (\<lambda>_ s.
     bnd (release lk s) (\<lambda>_ s.
     Ret i (upd_proc i (\<lambda>p. p\<lparr>p_chan := Some ch, p_state := SLEEPING\<rparr>) s))))"

definition sleep_leave :: "nat \<Rightarrow> lockid \<Rightarrow> 'x proc_state_scheme \<Rightarrow> (unit, 'x proc_state_scheme) outcome" where
  "sleep_leave i lk s =
     (let s = upd_proc i (p_chan_update (\<lambda>_. None)) s
      in bnd (release (ProcLock i) s) (\<lambda>_ s. acquire lk s))"

definition sleep :: "chan \<Rightarrow> lockid \<Rightarrow> 'x proc_state_scheme \<Rightarrow> (unit, 'x proc_state_scheme) outcome" where
  "sleep ch lk s =
     bnd (sleep_enter ch lk s) (\<lambda>i s. bnd (sched s) (\<lambda>_ s. sleep_leave i lk s))"

text \<open>\<open>wakeup_on\<close> takes any channel, the null pointer included.\<close>

definition wakeup_on :: "chan option \<Rightarrow> 'x proc_state_scheme \<Rightarrow> (unit, 'x proc_state_scheme) outcome" where
  "wakeup_on ch s =
     forn NPROC 0 (\<lambda>i s. bnd (myproc s) (\<lambda>me s.
       if me \<noteq> Some i then
         bnd (acquire (ProcLock i) s) (\<lambda>_ s.
         let s = (if p_state (procs s i) = SLEEPING \<and> p_chan (procs s i) = ch
                  then upd_proc i (p_state_update (\<lambda>_. RUNNABLE)) s else s)
         in release (ProcLock i) s)
       else Ret () s)) s"

definition wakeup :: "chan \<Rightarrow> 'x proc_state_scheme \<Rightarrow> (unit, 'x proc_state_scheme) outcome" where
  "wakeup ch s = wakeup_on (Some ch) s"

fun kill_from :: "nat \<Rightarrow> nat \<Rightarrow> uint32 \<Rightarrow> 'x proc_state_scheme \<Rightarrow> (int, 'x proc_state_scheme) outcome" where
  "kill_from 0 i pid s = Ret (- 1) s"
| "kill_from (Suc k) i pid s =
     bnd (acquire (ProcLock i) s) (\<lambda>_ s.
     if p_pid (procs s i) = pid then
       let s = upd_proc i (p_killed_update (\<lambda>_. True)) s;
           s = (if p_state (procs s i) = SLEEPING then upd_proc i (p_state_update (\<lambda>_. RUNNABLE)) s else s)
       in bnd (release (ProcLock i) s) (\<lambda>_ s. Ret 0 s)
     else bnd (release (ProcLock i) s) (\<lambda>_ s. kill_from k (Suc i) pid s))"

definition kill :: "uint32 \<Rightarrow> 'x proc_state_scheme \<Rightarrow> (int, 'x proc_state_scheme) outcome" where
  "kill pid s = kill_from NPROC 0 pid s"

definition setkilled :: "nat \<Rightarrow> 'x proc_state_scheme \<Rightarrow> (unit, 'x proc_state_scheme) outcome" where
  "setkilled i s =
     bnd (acquire (ProcLock i) s) (\<lambda>_ s. release (ProcLock i) (upd_proc i (p_killed_update (\<lambda>_. True)) s))"

definition killed :: "nat \<Rightarrow> 'x proc_state_scheme \<Rightarrow> (bool, 'x proc_state_scheme) outcome" where
  "killed i s =
     bnd (acquire (ProcLock i) s) (\<lambda>_ s.
     let k = p_killed (procs s i) in bnd (release (ProcLock i) s) (\<lambda>_ s. Ret k s))"

definition state_name :: "procstate \<Rightarrow> string" where
  "state_name st = (case st of UNUSED \<Rightarrow> ''unused'' | USED \<Rightarrow> ''used'' | SLEEPING \<Rightarrow> ''sleep ''
     | RUNNABLE \<Rightarrow> ''runble'' | RUNNING \<Rightarrow> ''run   '' | ZOMBIE \<Rightarrow> ''zombie'')"

definition procdump :: "'x proc_state_scheme \<Rightarrow> (unit, 'x proc_state_scheme) outcome" where
  "procdump s =
     bnd (printf [CHR 10] [] s) (\<lambda>_ s.
     forn NPROC 0 (\<lambda>i s.
       if p_state (procs s i) = UNUSED then Ret () s
       else
         bnd (printf ''%d %s %s'' [AInt (p_pid (procs s i)),
           AStr (Some (str (state_name (p_state (procs s i))))), AStr (Some (p_name (procs s i)))] s) (\<lambda>_ s.
         printf [CHR 10] [] s)) s)"

end
