(* ===== verification/Vmcopyin.thy ===== *)
theory Vmcopyin
  imports Proc
begin

text \<open>
  Copies between user and kernel memory: \<open>src/kernel/vmcopyin.c\<close>, \<open>copyin\<close> and
  \<open>copyinstr\<close> of \<open>vm.c\<close>, \<open>either_copyin\<close> and \<open>either_copyout\<close> of \<open>proc.c\<close>.
  \<open>copyin_new\<close> dereferences user addresses directly and relies on the hardware to translate
  them through the process's kernel page table; the translation is the component
  \<open>mmu\<close> of the state. Kernel objects a copy reads or fills are byte lists.
\<close>

section \<open>Reading user memory through the kernel page table\<close>

definition vload :: "uint64 \<Rightarrow> 'x vm_state_scheme \<Rightarrow> (uint8, 'x vm_state_scheme) outcome" where
  "vload va s =
     (case mmu s (mem s) (satp s (tp s)) va of
        None \<Rightarrow> Panic ''kerneltrap''
      | Some pa \<Rightarrow> Ret (mem s pa) s)"

fun vload_bytes :: "uint64 \<Rightarrow> nat \<Rightarrow> 'x vm_state_scheme \<Rightarrow> (uint8 list, 'x vm_state_scheme) outcome" where
  "vload_bytes va 0 s = Ret [] s"
| "vload_bytes va (Suc n) s =
     bnd (vload va s) (\<lambda>c s. bnd (vload_bytes (va + 1) n s) (\<lambda>cs s. Ret (c # cs) s))"

text \<open>The result is the bytes copied to \<open>dst\<close>, or \<open>None\<close> for -1. \<open>memmove\<close> takes an
  \<open>uint\<close> length.\<close>

definition copyin_new :: "uint64 \<Rightarrow> uint64 \<Rightarrow> uint64 \<Rightarrow> 'x proc_state_scheme \<Rightarrow>
    (uint8 list option, 'x proc_state_scheme) outcome" where
  "copyin_new pagetable srcva len s =
     bnd (curproc s) (\<lambda>i s.
     let sz = p_sz (procs s i)
     in if srcva \<ge> sz \<or> srcva + len > sz \<or> srcva + len < srcva then Ret None s
        else bnd (vload_bytes srcva (unat (ucast len :: uint32)) s) (\<lambda>bs s. Ret (Some bs) s))"

text \<open>The loop of \<open>copyinstr_new\<close>: \<open>k\<close> more characters may be read.\<close>

fun copyinstr_loop :: "uint64 \<Rightarrow> uint64 \<Rightarrow> nat \<Rightarrow> 'x vm_state_scheme \<Rightarrow>
    (uint8 list option, 'x vm_state_scheme) outcome" where
  "copyinstr_loop sz va 0 s = Ret None s"
| "copyinstr_loop sz va (Suc k) s =
     (if va \<ge> sz then Ret None s
      else bnd (vload va s) (\<lambda>c s.
        if c = 0 then Ret (Some [c]) s
        else bnd (copyinstr_loop sz (va + 1) k s) (\<lambda>r s. Ret (map_option ((#) c) r) s)))"

definition copyinstr_new :: "uint64 \<Rightarrow> uint64 \<Rightarrow> nat \<Rightarrow> 'x proc_state_scheme \<Rightarrow>
    (uint8 list option, 'x proc_state_scheme) outcome" where
  "copyinstr_new pagetable srcva mx s =
     bnd (curproc s) (\<lambda>i s.
     let sz = p_sz (procs s i)
     in if srcva \<ge> sz then Ret None s else copyinstr_loop sz srcva mx s)"

definition copyin :: "uint64 \<Rightarrow> uint64 \<Rightarrow> uint64 \<Rightarrow> 'x proc_state_scheme \<Rightarrow>
    (uint8 list option, 'x proc_state_scheme) outcome" where
  "copyin pagetable srcva len s = copyin_new pagetable srcva len s"

definition copyinstr :: "uint64 \<Rightarrow> uint64 \<Rightarrow> nat \<Rightarrow> 'x proc_state_scheme \<Rightarrow>
    (uint8 list option, 'x proc_state_scheme) outcome" where
  "copyinstr pagetable srcva mx s = copyinstr_new pagetable srcva mx s"

text \<open>A destination or source is a user address, a kernel address of allocated memory, or a
  kernel object. Bytes copied to a kernel object are the result of the operation that
  copies.\<close>

datatype dst = DUser uint64 | DMem uint64 | DObj

datatype src = SUser uint64 | SObj "uint8 list"

fun dst_add :: "dst \<Rightarrow> nat \<Rightarrow> dst" where
  "dst_add (DUser a) n = DUser (a + of_nat n)"
| "dst_add (DMem a) n = DMem (a + of_nat n)"
| "dst_add DObj n = DObj"

fun src_add :: "src \<Rightarrow> nat \<Rightarrow> src" where
  "src_add (SUser a) n = SUser (a + of_nat n)"
| "src_add (SObj bs) n = SObj (drop n bs)"

definition either_copyout :: "dst \<Rightarrow> uint8 list \<Rightarrow> 'x proc_state_scheme \<Rightarrow> (int, 'x proc_state_scheme) outcome" where
  "either_copyout d bs s =
     bnd (myproc s) (\<lambda>p s.
     case d of
       DUser a \<Rightarrow> bnd (deref p s) (\<lambda>i s. copyout (p_pagetable (procs s i)) a bs s)
     | DMem a \<Rightarrow> Ret 0 (s\<lparr>mem := put_bytes (mem s) a bs\<rparr>)
     | DObj \<Rightarrow> Ret 0 s)"

definition either_copyin :: "src \<Rightarrow> nat \<Rightarrow> 'x proc_state_scheme \<Rightarrow> (uint8 list option, 'x proc_state_scheme) outcome" where
  "either_copyin sr len s =
     bnd (myproc s) (\<lambda>p s.
     case sr of
       SUser a \<Rightarrow> bnd (deref p s) (\<lambda>i s. copyin (p_pagetable (procs s i)) a (of_nat len) s)
     | SObj bs \<Rightarrow> Ret (Some (take len bs)) s)"

end
