(* ===== verification/Section.thy ===== *)
theory Section
  imports Vmcopyin
begin

text \<open>
  Critical sections in closed form. On a \<open>quiet\<close> hart, taking a free lock and giving it back
  is the identity, and \<open>held lk\<close> commutes with every update of the data the locks protect;
  so simplification runs the body of a section on the data and cancels the lock operations
  around it. The rest of the theory gives the closed forms of the operations of \<open>proc.c\<close>
  that wake, kill and switch processes.
\<close>

section \<open>Quiet harts\<close>

text \<open>The nesting count is consistent with the interrupt flag, and outside all sections the
  saved interrupt state is the current one.\<close>

definition quiet :: "'x machine_scheme \<Rightarrow> bool" where
  "quiet s \<longleftrightarrow> hart_ok s \<and> (noff (mycpu s) = 0 \<longrightarrow> intena (mycpu s) = intr_get s)"

lemma relax_quiet [simp]: "quiet s \<Longrightarrow> relax s = s"
  by (auto simp: quiet_def relax_def machine_defs intro!: machine.equality)

lemma quiet_held [simp]: "quiet s \<Longrightarrow> quiet (held lk s)"
  by (simp add: quiet_def hart_ok_def)

lemma lock_free_held [simp]: "lock_free lk (held lk' s) \<longleftrightarrow> lk \<noteq> lk' \<and> lock_free lk s"
  by (auto simp: lock_free_def held_def set_lock_def)

lemma cpu_proc_held [simp]: "cpu_proc (mycpu (held lk s)) = cpu_proc (mycpu s)"
  by (simp add: held_def set_lock_def push_off_def Let_def machine_defs)

lemma holding_held [simp]: "holding lk (held lk' s) \<longleftrightarrow> lk = lk' \<or> holding lk s"
  by (auto simp: holding_def held_def set_lock_def cpuid_def)

lemma release_held_same [simp]:
  assumes "quiet s" "lock_free lk s"
  shows "release lk (held lk s) = Ret () s"
proof -
  have "release lk (held lk s) = Ret () (unheld s (held lk s))"
    using assms by (intro release_held) (simp_all add: quiet_def)
  also have "unheld s (held lk s) = s"
    using assms by (simp add: unheld_def held_def set_lock_def push_off_def Let_def machine_defs)
  finally show ?thesis .
qed

lemma held_commute: "lk \<noteq> lk' \<Longrightarrow> quiet s \<Longrightarrow> held lk (held lk' s) = held lk' (held lk s)"
  by (auto simp: held_def set_lock_def push_off_def Let_def machine_defs quiet_def hart_ok_def fun_upd_twist
      intro!: machine.equality)

lemma release_held_other [simp]:
  "quiet s \<Longrightarrow> lock_free lk s \<Longrightarrow> lk \<noteq> lk' \<Longrightarrow> release lk (held lk' (held lk s)) = Ret () (held lk' s)"
  by (subst held_commute) (auto intro!: release_held_same)

lemma acquire_free [simp]: "lock_free lk s \<Longrightarrow> acquire lk s = Ret () (held lk s)"
  by (rule acquire_eq)

lemma myproc_quiet [simp]: "quiet s \<Longrightarrow> myproc s = Ret (cpu_proc (mycpu s)) s"
proof -
  assume q: "quiet s"
  have "cpu_proc (mycpu (push_off s)) = cpu_proc (mycpu s)"
    by (simp add: push_off_def Let_def machine_defs)
  with q show ?thesis by (simp add: myproc_def Let_def push_pop_off quiet_def)
qed

lemma curproc_quiet [simp]:
  "quiet s \<Longrightarrow> curproc s = (case cpu_proc (mycpu s) of None \<Rightarrow> Panic ''kerneltrap'' | Some i \<Rightarrow> Ret i s)"
  by (simp add: curproc_def deref_def)

lemma held_out_update [simp]:
  "lsr_update f1 (held lk s) = held lk (lsr_update f1 s)"
  "thr_update f2 (held lk s) = held lk (thr_update f2 s)"
  "panicked_update f3 (held lk s) = held lk (panicked_update f3 s)"
  "pr_locking_update f4 (held lk s) = held lk (pr_locking_update f4 s)"
  by (simp_all add: held_def set_lock_def push_off_def Let_def machine_defs)

lemma quiet_out_update [simp]:
  "quiet (lsr_update f1 s) = quiet s"
  "quiet (thr_update f2 s) = quiet s"
  "quiet (panicked_update f3 s) = quiet s"
  "quiet (pr_locking_update f4 s) = quiet s"
  by (simp_all add: quiet_def hart_ok_def machine_defs)

lemma lock_free_out_update [simp]:
  "lock_free lk (lsr_update f1 s) = lock_free lk s"
  "lock_free lk (thr_update f2 s) = lock_free lk s"
  "lock_free lk (panicked_update f3 s) = lock_free lk s"
  "lock_free lk (pr_locking_update f4 s) = lock_free lk s"
  by (simp_all add: lock_free_def)

lemma mycpu_out_update [simp]:
  "mycpu (lsr_update f1 s) = mycpu s"
  "mycpu (thr_update f2 s) = mycpu s"
  "mycpu (panicked_update f3 s) = mycpu s"
  "mycpu (pr_locking_update f4 s) = mycpu s"
  by (simp_all add: mycpu_def cpuid_def)

lemma intr_get_out_update [simp]:
  "intr_get (lsr_update f1 s) = intr_get s"
  "intr_get (thr_update f2 s) = intr_get s"
  "intr_get (panicked_update f3 s) = intr_get s"
  "intr_get (pr_locking_update f4 s) = intr_get s"
  by (simp_all add: intr_get_def)

lemma held_mem_update [simp]:
  "mem_update f1 (held lk s) = held lk (mem_update f1 s)"
  "syms_update f2 (held lk s) = held lk (syms_update f2 s)"
  "freelist_update f3 (held lk s) = held lk (freelist_update f3 s)"
  by (simp_all add: held_def set_lock_def push_off_def Let_def machine_defs)

lemma quiet_mem_update [simp]:
  "quiet (mem_update f1 s) = quiet s"
  "quiet (syms_update f2 s) = quiet s"
  "quiet (freelist_update f3 s) = quiet s"
  by (simp_all add: quiet_def hart_ok_def machine_defs)

lemma lock_free_mem_update [simp]:
  "lock_free lk (mem_update f1 s) = lock_free lk s"
  "lock_free lk (syms_update f2 s) = lock_free lk s"
  "lock_free lk (freelist_update f3 s) = lock_free lk s"
  by (simp_all add: lock_free_def)

lemma mycpu_mem_update [simp]:
  "mycpu (mem_update f1 s) = mycpu s"
  "mycpu (syms_update f2 s) = mycpu s"
  "mycpu (freelist_update f3 s) = mycpu s"
  by (simp_all add: mycpu_def cpuid_def)

lemma intr_get_mem_update [simp]:
  "intr_get (mem_update f1 s) = intr_get s"
  "intr_get (syms_update f2 s) = intr_get s"
  "intr_get (freelist_update f3 s) = intr_get s"
  by (simp_all add: intr_get_def)

lemma held_vm [simp]:
  "kernel_pagetable (held lk s) = kernel_pagetable s"
  "satp (held lk s) = satp s"
  "mmu (held lk s) = mmu s"
  by (simp_all add: held_def set_lock_def push_off_def Let_def machine_defs)

lemma held_vm_update [simp]:
  "kernel_pagetable_update f1 (held lk s) = held lk (kernel_pagetable_update f1 s)"
  "satp_update f2 (held lk s) = held lk (satp_update f2 s)"
  "mmu_update f3 (held lk s) = held lk (mmu_update f3 s)"
  by (simp_all add: held_def set_lock_def push_off_def Let_def machine_defs)

lemma quiet_vm_update [simp]:
  "quiet (kernel_pagetable_update f1 s) = quiet s"
  "quiet (satp_update f2 s) = quiet s"
  "quiet (mmu_update f3 s) = quiet s"
  by (simp_all add: quiet_def hart_ok_def machine_defs)

lemma lock_free_vm_update [simp]:
  "lock_free lk (kernel_pagetable_update f1 s) = lock_free lk s"
  "lock_free lk (satp_update f2 s) = lock_free lk s"
  "lock_free lk (mmu_update f3 s) = lock_free lk s"
  by (simp_all add: lock_free_def)

lemma mycpu_vm_update [simp]:
  "mycpu (kernel_pagetable_update f1 s) = mycpu s"
  "mycpu (satp_update f2 s) = mycpu s"
  "mycpu (mmu_update f3 s) = mycpu s"
  by (simp_all add: mycpu_def cpuid_def)

lemma intr_get_vm_update [simp]:
  "intr_get (kernel_pagetable_update f1 s) = intr_get s"
  "intr_get (satp_update f2 s) = intr_get s"
  "intr_get (mmu_update f3 s) = intr_get s"
  by (simp_all add: intr_get_def)

lemma held_proc [simp]:
  "procs (held lk s) = procs s"
  "initproc (held lk s) = initproc s"
  "nextpid (held lk s) = nextpid s"
  "ticks (held lk s) = ticks s"
  by (simp_all add: held_def set_lock_def push_off_def Let_def machine_defs)

lemma held_proc_update [simp]:
  "procs_update f1 (held lk s) = held lk (procs_update f1 s)"
  "initproc_update f2 (held lk s) = held lk (initproc_update f2 s)"
  "nextpid_update f3 (held lk s) = held lk (nextpid_update f3 s)"
  "ticks_update f4 (held lk s) = held lk (ticks_update f4 s)"
  by (simp_all add: held_def set_lock_def push_off_def Let_def machine_defs)

lemma quiet_proc_update [simp]:
  "quiet (procs_update f1 s) = quiet s"
  "quiet (initproc_update f2 s) = quiet s"
  "quiet (nextpid_update f3 s) = quiet s"
  "quiet (ticks_update f4 s) = quiet s"
  by (simp_all add: quiet_def hart_ok_def machine_defs)

lemma lock_free_proc_update [simp]:
  "lock_free lk (procs_update f1 s) = lock_free lk s"
  "lock_free lk (initproc_update f2 s) = lock_free lk s"
  "lock_free lk (nextpid_update f3 s) = lock_free lk s"
  "lock_free lk (ticks_update f4 s) = lock_free lk s"
  by (simp_all add: lock_free_def)

lemma mycpu_proc_update [simp]:
  "mycpu (procs_update f1 s) = mycpu s"
  "mycpu (initproc_update f2 s) = mycpu s"
  "mycpu (nextpid_update f3 s) = mycpu s"
  "mycpu (ticks_update f4 s) = mycpu s"
  by (simp_all add: mycpu_def cpuid_def)

lemma intr_get_proc_update [simp]:
  "intr_get (procs_update f1 s) = intr_get s"
  "intr_get (initproc_update f2 s) = intr_get s"
  "intr_get (nextpid_update f3 s) = intr_get s"
  "intr_get (ticks_update f4 s) = intr_get s"
  by (simp_all add: intr_get_def)

text \<open>Updates of the state in a fixed order, the lower layers innermost.\<close>

named_theorems upd_order

lemma upd_order_proc [upd_order]:
  "mem_update f1 (procs_update g1 s) = procs_update g1 (mem_update f1 s)"
  "freelist_update f2 (procs_update g2 s) = procs_update g2 (freelist_update f2 s)"
  "satp_update f3 (procs_update g3 s) = procs_update g3 (satp_update f3 s)"
  by simp_all

section \<open>Loops\<close>

lemma forn_seq:
  assumes "\<And>k. k < n \<Longrightarrow> body (i + k) (S k) = Ret () (S (Suc k))"
  shows "forn n i body (S 0) = Ret () (S n)"
  using assms
proof (induction n arbitrary: i S)
  case (Suc n)
  have "body i (S 0) = Ret () (S 1)" using Suc.prems [of 0] by simp
  moreover have "forn n (Suc i) body (S (Suc 0)) = Ret () (S (Suc n))"
    by (rule Suc.IH [of "Suc i" "\<lambda>k. S (Suc k)"]) (use Suc.prems in force)
  ultimately show ?case by simp
qed simp

section \<open>wakeup and kill\<close>

text \<open>The process table after a wakeup on channel \<open>ch\<close> by the process \<open>me\<close>: the first \<open>n\<close>
  slots have been visited.\<close>

definition woken_upto :: "nat \<Rightarrow> chan option \<Rightarrow> nat option \<Rightarrow> (nat \<Rightarrow> proc) \<Rightarrow> nat \<Rightarrow> proc" where
  "woken_upto n ch me ps i =
     (if i < n \<and> Some i \<noteq> me \<and> p_state (ps i) = SLEEPING \<and> p_chan (ps i) = ch
      then (ps i)\<lparr>p_state := RUNNABLE\<rparr> else ps i)"

abbreviation woken :: "chan option \<Rightarrow> nat option \<Rightarrow> (nat \<Rightarrow> proc) \<Rightarrow> nat \<Rightarrow> proc" where
  "woken \<equiv> woken_upto NPROC"

text \<open>No other hart is in a section of another process's lock.\<close>

definition procs_free :: "'x machine_scheme \<Rightarrow> bool" where
  "procs_free s \<longleftrightarrow> (\<forall>i < NPROC. Some i \<noteq> cpu_proc (mycpu s) \<longrightarrow> lock_free (ProcLock i) s)"

lemma woken_upto_Suc:
  "woken_upto (Suc k) ch me ps =
     (if Some k \<noteq> me \<and> p_state (ps k) = SLEEPING \<and> p_chan (ps k) = ch
      then (woken_upto k ch me ps)(k := (ps k)\<lparr>p_state := RUNNABLE\<rparr>) else woken_upto k ch me ps)"
  by (auto simp: woken_upto_def fun_eq_iff less_Suc_eq)

lemma wakeup_on_eq [simp]:
  assumes "quiet s" "procs_free s"
  shows "wakeup_on ch s = Ret () (s\<lparr>procs := woken ch (cpu_proc (mycpu s)) (procs s)\<rparr>)"
proof -
  let ?S = "\<lambda>k. s\<lparr>procs := woken_upto k ch (cpu_proc (mycpu s)) (procs s)\<rparr>"
  have 0: "?S 0 = s" by (auto simp: woken_upto_def intro!: proc_state.equality)
  have free: "lock_free (ProcLock k) s" if "k < NPROC" "Some k \<noteq> cpu_proc (mycpu s)" for k
    using that assms(2) by (auto simp: procs_free_def)
  have same: "woken_upto k ch me ps k = ps k" for k me ps by (simp add: woken_upto_def)
  have "wakeup_on ch (?S 0) = Ret () (?S NPROC)"
    unfolding wakeup_on_def
  proof (rule forn_seq)
    fix k assume k: "k < NPROC"
    show "bnd (myproc (?S k)) (\<lambda>me s.
        if me \<noteq> Some (0 + k) then bnd (acquire (ProcLock (0 + k)) s) (\<lambda>_ s.
          let s = if p_state (procs s (0 + k)) = SLEEPING \<and> p_chan (procs s (0 + k)) = ch
                  then upd_proc (0 + k) (p_state_update (\<lambda>_. RUNNABLE)) s else s
          in release (ProcLock (0 + k)) s) else Ret () s) = Ret () (?S (Suc k))"
      using assms(1) free [OF k]
      by (auto simp: woken_upto_Suc upd_proc_def same Let_def split: if_splits)
  qed
  then show ?thesis by (simp add: 0)
qed

lemma wakeup_eq [simp]:
  "quiet s \<Longrightarrow> procs_free s \<Longrightarrow>
    wakeup ch s = Ret () (s\<lparr>procs := woken (Some ch) (cpu_proc (mycpu s)) (procs s)\<rparr>)"
  by (simp add: wakeup_def)

lemma procs_free_update [simp]:
  "procs_free (held (ProcLock j) s) \<longleftrightarrow> procs_free s \<and> (j < NPROC \<longrightarrow> cpu_proc (mycpu s) = Some j)"
  "(\<And>i. lk \<noteq> ProcLock i) \<Longrightarrow> procs_free (held lk s) = procs_free s"
  by (auto simp: procs_free_def)

text \<open>\<open>kill\<close> stops at the first slot with the process identifier.\<close>

lemma kill_from_eq:
  assumes "quiet s" "\<And>j. j < i + k \<Longrightarrow> lock_free (ProcLock j) s"
  shows "kill_from k i pid s =
    (case find (\<lambda>j. p_pid (procs s j) = pid) [i..<i + k] of
       None \<Rightarrow> Ret (- 1) s
     | Some j \<Rightarrow> Ret 0 (upd_proc j (\<lambda>p. p\<lparr>p_killed := True,
         p_state := if p_state p = SLEEPING then RUNNABLE else p_state p\<rparr>) s))"
  using assms(2)
proof (induction k arbitrary: i)
  case (Suc k)
  have "[i..<i + Suc k] = i # [Suc i..<Suc i + k]" by (simp add: upt_conv_Cons)
  moreover have "kill_from k (Suc i) pid s =
    (case find (\<lambda>j. p_pid (procs s j) = pid) [Suc i..<Suc i + k] of
       None \<Rightarrow> Ret (- 1) s
     | Some j \<Rightarrow> Ret 0 (upd_proc j (\<lambda>p. p\<lparr>p_killed := True,
         p_state := if p_state p = SLEEPING then RUNNABLE else p_state p\<rparr>) s))"
    by (rule Suc.IH) (use Suc.prems in simp)
  ultimately show ?case
    using assms(1) Suc.prems [of i] by (simp add: Let_def upd_proc_def)
qed simp

section \<open>Switching\<close>

definition set_cpu_proc :: "nat option \<Rightarrow> 'x machine_scheme \<Rightarrow> 'x machine_scheme" where
  "set_cpu_proc p s = set_mycpu ((mycpu s)\<lparr>cpu_proc := p\<rparr>) s"

lemma set_cpu_proc_held [simp]:
  "set_mycpu ((mycpu (held lk s))\<lparr>cpu_proc := p\<rparr>) (held lk s) = held lk (set_cpu_proc p s)"
  by (auto simp: set_cpu_proc_def held_def set_lock_def push_off_def Let_def machine_defs
      intro!: machine.equality)

lemma set_cpu_proc_simps [simp]:
  "quiet (set_cpu_proc p s) = quiet s" "lock_free lk (set_cpu_proc p s) = lock_free lk s"
  "cpu_proc (mycpu (set_cpu_proc p s)) = p" "noff (mycpu (set_cpu_proc p s)) = noff (mycpu s)"
  "intr_get (set_cpu_proc p s) = intr_get s" "tp (set_cpu_proc p s) = tp s"
  "locks (set_cpu_proc p s) = locks s"
  by (auto simp: set_cpu_proc_def quiet_def hart_ok_def lock_free_def machine_defs)

lemma set_cpu_proc_out [simp]:
  "lsr (set_cpu_proc p s) = lsr s"
  "thr (set_cpu_proc p s) = thr s"
  "panicked (set_cpu_proc p s) = panicked s"
  "pr_locking (set_cpu_proc p s) = pr_locking s"
  by (simp_all add: set_cpu_proc_def machine_defs)

lemma set_cpu_proc_out_update [simp]:
  "lsr_update f1 (set_cpu_proc p s) = set_cpu_proc p (lsr_update f1 s)"
  "thr_update f2 (set_cpu_proc p s) = set_cpu_proc p (thr_update f2 s)"
  "panicked_update f3 (set_cpu_proc p s) = set_cpu_proc p (panicked_update f3 s)"
  "pr_locking_update f4 (set_cpu_proc p s) = set_cpu_proc p (pr_locking_update f4 s)"
  by (simp_all add: set_cpu_proc_def machine_defs)

lemma procs_free_out_update [simp]:
  "procs_free (lsr_update f1 s) = procs_free s"
  "procs_free (thr_update f2 s) = procs_free s"
  "procs_free (panicked_update f3 s) = procs_free s"
  "procs_free (pr_locking_update f4 s) = procs_free s"
  by (simp_all add: procs_free_def)

lemma set_cpu_proc_mem [simp]:
  "mem (set_cpu_proc p s) = mem s"
  "syms (set_cpu_proc p s) = syms s"
  "freelist (set_cpu_proc p s) = freelist s"
  by (simp_all add: set_cpu_proc_def machine_defs)

lemma set_cpu_proc_mem_update [simp]:
  "mem_update f1 (set_cpu_proc p s) = set_cpu_proc p (mem_update f1 s)"
  "syms_update f2 (set_cpu_proc p s) = set_cpu_proc p (syms_update f2 s)"
  "freelist_update f3 (set_cpu_proc p s) = set_cpu_proc p (freelist_update f3 s)"
  by (simp_all add: set_cpu_proc_def machine_defs)

lemma procs_free_mem_update [simp]:
  "procs_free (mem_update f1 s) = procs_free s"
  "procs_free (syms_update f2 s) = procs_free s"
  "procs_free (freelist_update f3 s) = procs_free s"
  by (simp_all add: procs_free_def)

lemma set_cpu_proc_vm [simp]:
  "kernel_pagetable (set_cpu_proc p s) = kernel_pagetable s"
  "satp (set_cpu_proc p s) = satp s"
  "mmu (set_cpu_proc p s) = mmu s"
  by (simp_all add: set_cpu_proc_def machine_defs)

lemma set_cpu_proc_vm_update [simp]:
  "kernel_pagetable_update f1 (set_cpu_proc p s) = set_cpu_proc p (kernel_pagetable_update f1 s)"
  "satp_update f2 (set_cpu_proc p s) = set_cpu_proc p (satp_update f2 s)"
  "mmu_update f3 (set_cpu_proc p s) = set_cpu_proc p (mmu_update f3 s)"
  by (simp_all add: set_cpu_proc_def machine_defs)

lemma procs_free_vm_update [simp]:
  "procs_free (kernel_pagetable_update f1 s) = procs_free s"
  "procs_free (satp_update f2 s) = procs_free s"
  "procs_free (mmu_update f3 s) = procs_free s"
  by (simp_all add: procs_free_def)

lemma set_cpu_proc_proc [simp]:
  "procs (set_cpu_proc p s) = procs s"
  "initproc (set_cpu_proc p s) = initproc s"
  "nextpid (set_cpu_proc p s) = nextpid s"
  "ticks (set_cpu_proc p s) = ticks s"
  by (simp_all add: set_cpu_proc_def machine_defs)

lemma set_cpu_proc_proc_update [simp]:
  "procs_update f1 (set_cpu_proc p s) = set_cpu_proc p (procs_update f1 s)"
  "initproc_update f2 (set_cpu_proc p s) = set_cpu_proc p (initproc_update f2 s)"
  "nextpid_update f3 (set_cpu_proc p s) = set_cpu_proc p (nextpid_update f3 s)"
  "ticks_update f4 (set_cpu_proc p s) = set_cpu_proc p (ticks_update f4 s)"
  by (simp_all add: set_cpu_proc_def machine_defs)

lemma procs_free_proc_update [simp]:
  "procs_free (procs_update f1 s) = procs_free s"
  "procs_free (initproc_update f2 s) = procs_free s"
  "procs_free (nextpid_update f3 s) = procs_free s"
  "procs_free (ticks_update f4 s) = procs_free s"
  by (simp_all add: procs_free_def)

lemma set_cpu_proc_same [simp]:
  "cpu_proc (mycpu s) = p \<Longrightarrow> set_cpu_proc p s = s"
  "set_cpu_proc p (set_cpu_proc q s) = set_cpu_proc p s"
  by (auto simp: set_cpu_proc_def machine_defs intro!: machine.equality)

lemma intena_held [simp]:
  "noff (mycpu s) = 0 \<Longrightarrow> intena (mycpu (held lk s)) = intr_get s"
  by (simp add: held_def set_lock_def push_off_def Let_def machine_defs)

lemma sched_leave_held [simp]:
  "noff (mycpu s) = 0 \<Longrightarrow> ie = intr_get s \<Longrightarrow> sched_leave ie (held lk s) = held lk s"
  by (auto simp: sched_leave_def held_def set_lock_def push_off_def Let_def machine_defs
      intro!: machine.equality)

lemma sched_enter_held [simp]:
  assumes "quiet s" "noff (mycpu s) = 0" "cpu_proc (mycpu s) = Some i" "p_state (procs s i) \<noteq> RUNNING"
  shows "sched_enter (held (ProcLock i) s) = Ret (intr_get s) (held (ProcLock i) s)"
  using assms by (simp add: sched_enter_def)

lemma scheduler_return_held [simp]:
  assumes "quiet s" "lock_free (ProcLock i) s"
  shows "scheduler_return i (held (ProcLock i) s) = Ret () (set_cpu_proc None (kvminithart s))"
  using assms by (simp add: scheduler_return_def Let_def kvminithart_def w_satp_def)

lemma scheduler_pick_eq [simp]:
  assumes "quiet s" "lock_free (ProcLock i) s" "p_state (procs s i) = RUNNABLE"
  shows "scheduler_pick i s = Ret True (held (ProcLock i) (set_cpu_proc (Some i)
    (s\<lparr>satp := (satp s)(tp s := MAKE_SATP (p_kpagetable (procs s i))),
        procs := (procs s)(i := (procs s i)\<lparr>p_state := RUNNING\<rparr>)\<rparr>)))"
  using assms by (simp add: scheduler_pick_def Let_def w_satp_def upd_proc_def upd_order)

lemma sleep_leave_held [simp]:
  assumes "quiet s" "lock_free (ProcLock i) s" "lock_free lk s" "lk \<noteq> ProcLock i"
  shows "sleep_leave i lk (held (ProcLock i) s) =
    Ret () (held lk (s\<lparr>procs := (procs s)(i := (procs s i)\<lparr>p_chan := None\<rparr>)\<rparr>))"
  using assms by (simp add: sleep_leave_def upd_proc_def)

lemma sleep_eq [simp]:
  assumes "quiet s" "noff (mycpu s) = 0" "cpu_proc (mycpu s) = Some i" "lock_free lk s" "lock_free (ProcLock i) s"
    "lk \<noteq> ProcLock i"
  shows "sleep ch lk (held lk s) =
    Wait (held (ProcLock i) (upd_proc i (\<lambda>p. p\<lparr>p_chan := Some ch, p_state := SLEEPING\<rparr>) s))"
  using assms by (simp add: sleep_def sleep_enter_def sched_def upd_proc_def)

text \<open>Process \<open>p\<close> runs on the current hart, on its own kernel page table, and no lock is held.\<close>

definition calm :: "nat \<Rightarrow> 'x proc_state_scheme \<Rightarrow> bool" where
  "calm p s \<longleftrightarrow> quiet s \<and> noff (mycpu s) = 0 \<and> cpu_proc (mycpu s) = Some p \<and> p < NPROC \<and> (\<forall>lk. lock_free lk s) \<and>
     p_state (procs s p) = RUNNING \<and> p_chan (procs s p) = None \<and>
     satp s (tp s) = MAKE_SATP (p_kpagetable (procs s p))"

lemma calmD:
  assumes "calm p s"
  shows "quiet s" "noff (mycpu s) = 0" "cpu_proc (mycpu s) = Some p" "lock_free lk s" "procs_free s"
    "curproc s = Ret p s" "myproc s = Ret (Some p) s"
  using assms by (auto simp: calm_def procs_free_def)

text \<open>Other processes may have been made runnable meanwhile.\<close>

definition others_woken :: "nat \<Rightarrow> (nat \<Rightarrow> proc) \<Rightarrow> (nat \<Rightarrow> proc) \<Rightarrow> bool" where
  "others_woken p ps ps' \<longleftrightarrow> ps' p = ps p \<and>
     (\<forall>j. ps' j = ps j \<or> p_state (ps j) = SLEEPING \<and> ps' j = (ps j)\<lparr>p_state := RUNNABLE\<rparr>)"

lemma others_woken_refl [simp]: "others_woken p ps ps"
  by (simp add: others_woken_def)

lemma others_woken_trans [trans]:
  assumes "others_woken p a b" "others_woken p b c"
  shows "others_woken p a c"
proof -
  have "c j = a j \<or> p_state (a j) = SLEEPING \<and> c j = (a j)\<lparr>p_state := RUNNABLE\<rparr>" for j
    using assms unfolding others_woken_def by (auto dest!: spec [of _ j])
  then show ?thesis using assms by (simp add: others_woken_def)
qed

lemma others_woken_woken [simp]: "others_woken p ps (woken_upto n ch (Some p) ps)"
  by (auto simp: others_woken_def woken_upto_def)

lemma calm_procs:
  "calm p s \<Longrightarrow> others_woken p (procs s) ps \<Longrightarrow> calm p (s\<lparr>procs := ps\<rparr>)"
  by (auto simp: calm_def others_woken_def)

lemma calm_out_update [simp]:
  "calm p (lsr_update f1 s) = calm p s"
  "calm p (thr_update f2 s) = calm p s"
  "calm p (panicked_update f3 s) = calm p s"
  "calm p (pr_locking_update f4 s) = calm p s"
  by (simp_all add: calm_def)

lemma calm_mem_update [simp]:
  "calm p (mem_update f1 s) = calm p s"
  "calm p (syms_update f2 s) = calm p s"
  "calm p (freelist_update f3 s) = calm p s"
  by (simp_all add: calm_def)

lemma calm_vm_update [simp]:
  "calm p (kernel_pagetable_update f1 s) = calm p s"
  "calm p (mmu_update f2 s) = calm p s"
  by (simp_all add: calm_def)

lemma calm_proc_update [simp]:
  "calm p (initproc_update f1 s) = calm p s"
  "calm p (nextpid_update f2 s) = calm p s"
  "calm p (ticks_update f3 s) = calm p s"
  by (simp_all add: calm_def)

section \<open>Blocked wakeups\<close>

text \<open>A lock of process \<open>i\<close> that another hart holds, seen from the running hart.\<close>

definition taken_elsewhere :: "nat \<Rightarrow> 'x machine_scheme \<Rightarrow> bool" where
  "taken_elsewhere i s \<longleftrightarrow> locked (locks s (ProcLock i)) \<and> lcpu (locks s (ProcLock i)) \<noteq> Some (tp s) \<and>
     cpu_proc (mycpu s) \<noteq> Some i"

lemma push_pop_elsewhere:
  "taken_elsewhere i (push_off s) = taken_elsewhere i s"
  "pop_off s = Ret () t \<Longrightarrow> taken_elsewhere i t = taken_elsewhere i s"
  by (auto simp: taken_elsewhere_def push_off_def pop_off_def Let_def machine_defs split: if_splits)

lemma myproc_elsewhere:
  "myproc s = Ret me t \<Longrightarrow> taken_elsewhere i t = taken_elsewhere i s \<and> (taken_elsewhere i s \<longrightarrow> me \<noteq> Some i)"
  by (auto simp: myproc_def Let_def bnd_eq_Ret push_pop_elsewhere)
    (auto simp: taken_elsewhere_def push_off_def Let_def machine_defs split: if_splits)

lemma acquire_elsewhere:
  assumes "acquire (ProcLock j) s = Ret () t" "taken_elsewhere i s"
  shows "i \<noteq> j \<and> taken_elsewhere i t"
proof -
  have "\<not> locked (locks s (ProcLock j))" and t: "t = acquire_mark (ProcLock j)
      (set_lock (ProcLock j) ((locks s (ProcLock j))\<lparr>locked := True\<rparr>) (push_off s))"
    using assms(1) by (auto simp: acquire_def acquire_enter_def test_and_set_def Let_def bnd_eq_Ret split: if_splits bool.splits)
  then have "i \<noteq> j" using assms(2) by (auto simp: taken_elsewhere_def)
  moreover have "taken_elsewhere i (push_off s)" using assms(2) by (simp add: push_pop_elsewhere)
  ultimately show ?thesis
    by (auto simp: t acquire_mark_def set_lock_def taken_elsewhere_def mycpu_def cpuid_def)
qed

lemma release_elsewhere:
  assumes "release (ProcLock j) s = Ret () t" "taken_elsewhere i s" "i \<noteq> j"
  shows "taken_elsewhere i t"
proof -
  let ?u = "lock_release (ProcLock j) (set_lock (ProcLock j) ((locks s (ProcLock j))\<lparr>lcpu := None\<rparr>) s)"
  have "pop_off ?u = Ret () t"
    using assms(1) by (auto simp: release_def release_enter_def bnd_eq_Ret split: if_splits)
  moreover have "taken_elsewhere i ?u"
    using assms(2,3) by (simp add: taken_elsewhere_def lock_release_def set_lock_def mycpu_def cpuid_def)
  ultimately show ?thesis by (simp add: push_pop_elsewhere)
qed

lemma taken_elsewhere_procs [simp]: "taken_elsewhere i (procs_update f s) = taken_elsewhere i s"
  by (simp add: taken_elsewhere_def)

lemma forn_blocked:
  assumes "\<And>j s t. P s \<Longrightarrow> body j s = Ret () t \<Longrightarrow> j \<noteq> i \<and> P t" and "P s" "j \<le> i" "i < j + n"
  shows "\<not> returns (forn n j body s)"
  using assms(2-4)
proof (induction n arbitrary: j s)
  case (Suc n)
  show ?case
  proof (cases "body j s")
    case (Ret x t)
    then have "j \<noteq> i" "P t" using assms(1) [OF Suc.prems(1), of j t] by auto
    then show ?thesis using Suc.IH [of t "Suc j"] Suc.prems(2,3) Ret by simp
  qed auto
qed simp

lemma wakeup_blocked:
  assumes "taken_elsewhere i s" "i < NPROC"
  shows "\<not> returns (wakeup ch s)"
  unfolding wakeup_def wakeup_on_def
proof (rule forn_blocked [where P = "taken_elsewhere i" and i = i])
  fix j and s t :: "'a proc_state_scheme"
  assume el: "taken_elsewhere i s"
  assume "bnd (myproc s) (\<lambda>me s.
      if me \<noteq> Some j then bnd (acquire (ProcLock j) s) (\<lambda>_ s.
        let s = if p_state (procs s j) = SLEEPING \<and> p_chan (procs s j) = Some ch
                then upd_proc j (p_state_update (\<lambda>_. RUNNABLE)) s else s
        in release (ProcLock j) s) else Ret () s) = Ret () t"
  then obtain me u where me: "myproc s = Ret me u"
    and body: "(if me \<noteq> Some j then bnd (acquire (ProcLock j) u) (\<lambda>_ s.
        let s = if p_state (procs s j) = SLEEPING \<and> p_chan (procs s j) = Some ch
                then upd_proc j (p_state_update (\<lambda>_. RUNNABLE)) s else s
        in release (ProcLock j) s) else Ret () u) = Ret () t"
    by (erule bnd_RetE)
  have u: "taken_elsewhere i u" "me \<noteq> Some i" using myproc_elsewhere [OF me, of i] el by auto
  show "j \<noteq> i \<and> taken_elsewhere i t"
  proof (cases "me = Some j")
    case True
    then show ?thesis using body u by auto
  next
    case False
    then obtain v where v: "acquire (ProcLock j) u = Ret () v"
      and rel: "release (ProcLock j) (if p_state (procs v j) = SLEEPING \<and> p_chan (procs v j) = Some ch
        then upd_proc j (p_state_update (\<lambda>_. RUNNABLE)) v else v) = Ret () t"
      using body by (auto simp: Let_def bnd_eq_Ret)
    have "i \<noteq> j" "taken_elsewhere i v" using acquire_elsewhere [OF v u(1)] by auto
    moreover have "taken_elsewhere i t"
      by (rule release_elsewhere [OF rel]) (use calculation in \<open>auto simp: upd_proc_def\<close>)
    ultimately show ?thesis by simp
  qed
qed (use assms in auto)

section \<open>Properties\<close>

text \<open>An example: hart 0 runs process 0, and process 1 sleeps on the clock.\<close>

definition unused_proc :: proc where
  "unused_proc = \<lparr>p_state = UNUSED, p_chan = None, p_killed = False, p_xstate = 0, p_pid = 0, p_parent = None,
     p_kstack = 0, p_sz = 0, p_pagetable = 0, p_kpagetable = 0, p_trapframe = 0,
     p_context = \<lparr>c_ra = 0, c_sp = 0, c_sregs = []\<rparr>, p_ofile = \<lambda>_. None, p_cwd = None,
     p_name = replicate 16 0, p_usyscall = 0\<rparr>"

definition two_procs :: proc_state where
  "two_procs = \<lparr>tp = 0, sstatus = \<lambda>_. 2,
     cpus = \<lambda>h. \<lparr>cpu_proc = (if h = 0 then Some 0 else None), noff = 0, intena = True\<rparr>,
     locks = \<lambda>_. \<lparr>locked = False, lname = [], lcpu = None\<rparr>,
     lsr = 0x20, thr = [], panicked = False, pr_locking = True,
     mem = \<lambda>_. 0, syms = boot_syms, freelist = 0, kernel_pagetable = 0x80001000, satp = \<lambda>_. 0, mmu = \<lambda>_ _ _. None,
     procs = (\<lambda>_. unused_proc)(0 := unused_proc\<lparr>p_state := RUNNING, p_pid := 1\<rparr>,
       1 := unused_proc\<lparr>p_state := SLEEPING, p_chan := Some ChTicks, p_pid := 2\<rparr>),
     initproc = Some 0, nextpid = 3, ticks = 0\<rparr>"

lemma two_procs_facts [simp]:
  "quiet two_procs" "procs_free two_procs" "lock_free lk two_procs" "cpu_proc (mycpu two_procs) = Some 0"
  "noff (mycpu two_procs) = 0" "tp two_procs = 0" "cpu_proc (cpus two_procs 1) = None"
  by (simp_all add: two_procs_def quiet_def hart_ok_def procs_free_def lock_free_def machine_defs SSTATUS_SIE_def)

lemma two_procs_procs:
  "procs two_procs = (\<lambda>_. unused_proc)(0 := unused_proc\<lparr>p_state := RUNNING, p_pid := 1\<rparr>,
     1 := unused_proc\<lparr>p_state := SLEEPING, p_chan := Some ChTicks, p_pid := 2\<rparr>)"
  by (simp add: two_procs_def)

text \<open>
  C23. \<open>wakeup\<close> always returns when no other hart is in a section of a process lock, and
  makes exactly the other processes sleeping on the channel runnable; nothing else changes.
\<close>

theorem wakeup_correct:
  assumes "quiet s" "procs_free s"
  shows "\<exists>t. wakeup ch s = Ret () t \<and> t = s\<lparr>procs := procs t\<rparr> \<and>
    (\<forall>i. procs t i =
       (if i < NPROC \<and> cpu_proc (mycpu s) \<noteq> Some i \<and> p_state (procs s i) = SLEEPING \<and> p_chan (procs s i) = Some ch
        then (procs s i)\<lparr>p_state := RUNNABLE\<rparr> else procs s i))"
  using assms by (auto simp: woken_upto_def)

theorem wakeup_correct_witness:
  "\<exists>t. wakeup ChTicks two_procs = Ret () t \<and> p_state (procs t 1) = RUNNABLE \<and> p_state (procs t 0) = RUNNING"
proof -
  obtain t where "wakeup ChTicks two_procs = Ret () t"
    and p: "\<forall>i. procs t i = (if i < NPROC \<and> cpu_proc (mycpu two_procs) \<noteq> Some i \<and>
      p_state (procs two_procs i) = SLEEPING \<and> p_chan (procs two_procs i) = Some ChTicks
      then (procs two_procs i)\<lparr>p_state := RUNNABLE\<rparr> else procs two_procs i)"
    using wakeup_correct [of two_procs ChTicks] by auto
  moreover have "p_state (procs t 1) = RUNNABLE" "p_state (procs t 0) = RUNNING"
    using spec [OF p, of 1] spec [OF p, of 0] by (simp_all add: two_procs_procs)
  ultimately show ?thesis by blast
qed

text \<open>
  C24. \<open>kill\<close> marks the first process with the given identifier as killed, makes it
  runnable if it sleeps, and returns 0; without such a process it returns -1 and changes
  nothing.
\<close>

theorem kill_correct:
  assumes "quiet s" "\<forall>i < NPROC. lock_free (ProcLock i) s"
  shows "(\<forall>i < NPROC. p_pid (procs s i) \<noteq> pid) \<and> kill pid s = Ret (- 1) s \<or>
    (\<exists>i < NPROC. p_pid (procs s i) = pid \<and> (\<forall>j < i. p_pid (procs s j) \<noteq> pid) \<and>
       kill pid s = Ret 0 (s\<lparr>procs := (procs s)(i := (procs s i)\<lparr>p_killed := True,
         p_state := if p_state (procs s i) = SLEEPING then RUNNABLE else p_state (procs s i)\<rparr>)\<rparr>))"
proof -
  let ?f = "find (\<lambda>j. p_pid (procs s j) = pid) [0..<NPROC]"
  have k: "kill pid s = (case ?f of None \<Rightarrow> Ret (- 1) s
     | Some j \<Rightarrow> Ret 0 (upd_proc j (\<lambda>p. p\<lparr>p_killed := True,
         p_state := if p_state p = SLEEPING then RUNNABLE else p_state p\<rparr>) s))"
    using kill_from_eq [OF assms(1), of 0 NPROC pid] assms(2) by (simp add: kill_def)
  show ?thesis
  proof (cases ?f)
    case None
    then have "kill pid s = Ret (- 1) s" by (simp add: k)
    moreover have "\<forall>i < NPROC. p_pid (procs s i) \<noteq> pid" using None by (auto simp: find_None_iff)
    ultimately show ?thesis by blast
  next
    case (Some i)
    then have "i < NPROC" "p_pid (procs s i) = pid" "\<forall>j < i. p_pid (procs s j) \<noteq> pid"
      by (auto simp: find_Some_iff)
    moreover have "kill pid s = Ret 0 (s\<lparr>procs := (procs s)(i := (procs s i)\<lparr>p_killed := True,
         p_state := if p_state (procs s i) = SLEEPING then RUNNABLE else p_state (procs s i)\<rparr>)\<rparr>)"
      by (simp only: k Some option.case upd_proc_def)
    ultimately show ?thesis by blast
  qed
qed

theorem kill_correct_witness:
  "\<exists>t. kill 2 two_procs = Ret 0 t \<and> p_killed (procs t 1) \<and> p_state (procs t 1) = RUNNABLE"
proof -
  have p: "p_pid (procs two_procs i) = (if i = 0 then 1 else if i = 1 then 2 else 0)" for i
    by (simp add: two_procs_procs unused_proc_def)
  have "\<not> (\<forall>i < NPROC. p_pid (procs two_procs i) \<noteq> 2)" using p [of 1] by (auto intro!: exI [of _ 1])
  then obtain i where i: "p_pid (procs two_procs i) = 2"
    and k: "kill 2 two_procs = Ret 0 (two_procs\<lparr>procs := (procs two_procs)(i := (procs two_procs i)\<lparr>p_killed := True,
      p_state := if p_state (procs two_procs i) = SLEEPING then RUNNABLE else p_state (procs two_procs i)\<rparr>)\<rparr>)"
    using kill_correct [of two_procs 2] by auto
  have "i = 1" using i by (auto simp: p split: if_splits)
  then show ?thesis using k by (auto simp: two_procs_procs)
qed





end
