(* ===== verification/Console.thy ===== *)
theory Console
  imports Section
begin

text \<open>
  The interrupt-driven half of the serial port, \<open>src/kernel/uart.c\<close>, and console line
  input, \<open>src/kernel/console.c\<close>. \<open>uart_in\<close> is the input waiting in the device, and
  \<open>uart_lsr\<close> tells from the bytes sent so far whether the device accepts another one.
\<close>

section \<open>UART\<close>

text \<open>The drivers a device switch entry can name.\<close>

datatype driver = ConsoleDriver

record cons_state = proc_state +
  uart_regs :: "(nat \<times> uint8) list"
  uart_in :: "uint8 list"
  uart_lsr :: "uint8 list \<Rightarrow> uint8"
  uart_tx_buf :: "nat \<Rightarrow> uint8"
  uart_tx_w :: uint64
  uart_tx_r :: uint64
  cons_buf :: "nat \<Rightarrow> uint8"
  cons_r :: uint32
  cons_w :: uint32
  cons_e :: uint32
  devsw :: "nat \<Rightarrow> driver option"

definition WriteReg :: "nat \<Rightarrow> uint8 \<Rightarrow> 'x cons_state_scheme \<Rightarrow> 'x cons_state_scheme" where
  "WriteReg r v s = s\<lparr>uart_regs := uart_regs s @ [(r, v)]\<rparr>"

definition uartinit :: "'x cons_state_scheme \<Rightarrow> 'x cons_state_scheme" where
  "uartinit s =
     (let s = WriteReg 1 0 s;
          s = WriteReg 3 0x80 s;
          s = WriteReg 0 3 s;
          s = WriteReg 1 0 s;
          s = WriteReg 3 3 s;
          s = WriteReg 2 (1 OR 6) s;
          s = WriteReg 1 (2 OR 1) s
      in initlock UartTxLock ''uart'' s)"

text \<open>The loop of \<open>uartstart\<close> runs at most once for each of the \<open>k\<close> buffered bytes.\<close>

fun uartstart_loop :: "nat \<Rightarrow> 'x cons_state_scheme \<Rightarrow> (unit, 'x cons_state_scheme) outcome" where
  "uartstart_loop k s =
     (if uart_tx_w s = uart_tx_r s then Ret () s
      else if uart_lsr s (thr s) AND LSR_TX_IDLE = 0 then Ret () s
      else case k of
        0 \<Rightarrow> NoFuel
      | Suc k \<Rightarrow>
          let c = uart_tx_buf s (unat (uart_tx_r s) mod 32);
              s = s\<lparr>uart_tx_r := uart_tx_r s + 1\<rparr>
          in bnd (wakeup ChUart s) (\<lambda>_ s. uartstart_loop k (s\<lparr>thr := thr s @ [c]\<rparr>)))"

definition uartstart :: "'x cons_state_scheme \<Rightarrow> (unit, 'x cons_state_scheme) outcome" where
  "uartstart s = uartstart_loop (unat (uart_tx_w s - uart_tx_r s)) s"

definition uartputc :: "uint8 \<Rightarrow> 'x cons_state_scheme \<Rightarrow> (unit, 'x cons_state_scheme) outcome" where
  "uartputc c s =
     bnd (acquire UartTxLock s) (\<lambda>_ s.
     if panicked s then Wait s
     else if uart_tx_w s = uart_tx_r s + 32 then sleep ChUart UartTxLock s
     else
       let s = s\<lparr>uart_tx_buf := (uart_tx_buf s)(unat (uart_tx_w s) mod 32 := c)\<rparr>;
           s = s\<lparr>uart_tx_w := uart_tx_w s + 1\<rparr>
       in bnd (uartstart s) (\<lambda>_ s. release UartTxLock s))"

definition uartgetc :: "'x cons_state_scheme \<Rightarrow> uint8 option \<times> 'x cons_state_scheme" where
  "uartgetc s = (case uart_in s of [] \<Rightarrow> (None, s) | c # cs \<Rightarrow> (Some c, s\<lparr>uart_in := cs\<rparr>))"

section \<open>Console\<close>

fun consolewrite_loop :: "src \<Rightarrow> nat \<Rightarrow> nat \<Rightarrow> 'x cons_state_scheme \<Rightarrow> (int, 'x cons_state_scheme) outcome" where
  "consolewrite_loop sr i 0 s = Ret (int i) s"
| "consolewrite_loop sr i (Suc k) s =
     bnd (either_copyin (src_add sr i) 1 s) (\<lambda>r s.
     case r of
       None \<Rightarrow> Ret (int i) s
     | Some cs \<Rightarrow> bnd (uartputc (chd cs) s) (\<lambda>_ s. consolewrite_loop sr (Suc i) k s))"

definition consolewrite :: "src \<Rightarrow> uint32 \<Rightarrow> 'x cons_state_scheme \<Rightarrow> (int, 'x cons_state_scheme) outcome" where
  "consolewrite sr n s = consolewrite_loop sr 0 (nat (sint n)) s"

text \<open>\<open>n\<close> more bytes wanted, \<open>got\<close> of them copied so far.\<close>

fun consoleread_loop :: "dst \<Rightarrow> nat \<Rightarrow> nat \<Rightarrow> 'x cons_state_scheme \<Rightarrow> (int, 'x cons_state_scheme) outcome" where
  "consoleread_loop d got 0 s = bnd (release ConsLock s) (\<lambda>_ s. Ret (int got) s)"
| "consoleread_loop d got (Suc n) s =
     (if cons_r s = cons_w s then
        bnd (curproc s) (\<lambda>i s. bnd (killed i s) (\<lambda>k s.
        if k then bnd (release ConsLock s) (\<lambda>_ s. Ret (- 1) s)
        else bnd (sleep ChCons ConsLock s) (\<lambda>_ s. Ret 0 s)))
      else
        let c = cons_buf s (unat (cons_r s) mod 128);
            s = s\<lparr>cons_r := cons_r s + 1\<rparr>
        in if c = 4 then
             bnd (release ConsLock (if got > 0 then s\<lparr>cons_r := cons_r s - 1\<rparr> else s)) (\<lambda>_ s. Ret (int got) s)
           else
             bnd (either_copyout d [c] s) (\<lambda>r s.
             if r = - 1 then bnd (release ConsLock s) (\<lambda>_ s. Ret (int got) s)
             else if c = 10 then bnd (release ConsLock s) (\<lambda>_ s. Ret (int (Suc got)) s)
             else consoleread_loop (dst_add d 1) (Suc got) n s))"

definition consoleread :: "dst \<Rightarrow> uint32 \<Rightarrow> 'x cons_state_scheme \<Rightarrow> (int, 'x cons_state_scheme) outcome" where
  "consoleread d n s = bnd (acquire ConsLock s) (\<lambda>_ s. consoleread_loop d 0 (nat (sint n)) s)"

text \<open>Control-U: \<open>k\<close> characters are being edited at most.\<close>

fun kill_line :: "nat \<Rightarrow> 'x cons_state_scheme \<Rightarrow> (unit, 'x cons_state_scheme) outcome" where
  "kill_line k s =
     (if cons_e s \<noteq> cons_w s \<and> cons_buf s (unat (cons_e s - 1) mod 128) \<noteq> 10 then
        case k of
          0 \<Rightarrow> NoFuel
        | Suc k \<Rightarrow> bnd (consputc 0x100 (s\<lparr>cons_e := cons_e s - 1\<rparr>)) (\<lambda>_ s. kill_line k s)
      else Ret () s)"

definition consoleintr :: "uint8 \<Rightarrow> 'x cons_state_scheme \<Rightarrow> (unit, 'x cons_state_scheme) outcome" where
  "consoleintr c s =
     bnd (acquire ConsLock s) (\<lambda>_ s.
     bnd (if c = 16 then procdump s
          else if c = 21 then kill_line (unat (cons_e s - cons_w s)) s
          else if c = 8 \<or> c = 0x7f then
            if cons_e s \<noteq> cons_w s then consputc 0x100 (s\<lparr>cons_e := cons_e s - 1\<rparr>) else Ret () s
          else if c \<noteq> 0 \<and> cons_e s - cons_r s < 128 then
            let c = (if c = 13 then 10 else c)
            in bnd (consputc (ucast c) s) (\<lambda>_ s.
               let s = s\<lparr>cons_buf := (cons_buf s)(unat (cons_e s) mod 128 := c), cons_e := cons_e s + 1\<rparr>
               in if c = 10 \<or> c = 4 \<or> cons_e s - cons_r s = 128
                  then wakeup ChCons (s\<lparr>cons_w := cons_e s\<rparr>)
                  else Ret () s)
          else Ret () s) (\<lambda>_ s.
     release ConsLock s))"

definition consoleinit :: "'x cons_state_scheme \<Rightarrow> 'x cons_state_scheme" where
  "consoleinit s =
     (let s = uartinit (initlock ConsLock ''cons'' s)
      in s\<lparr>devsw := (devsw s)(1 := Some ConsoleDriver)\<rparr>)"

text \<open>The receive loop of \<open>uartintr\<close>, once for each of the bytes waiting when it starts.\<close>

fun uartintr_loop :: "nat \<Rightarrow> 'x cons_state_scheme \<Rightarrow> (unit, 'x cons_state_scheme) outcome" where
  "uartintr_loop k s =
     (case uartgetc s of
        (None, s) \<Rightarrow> Ret () s
      | (Some c, s) \<Rightarrow>
          (case k of
             0 \<Rightarrow> NoFuel
           | Suc k \<Rightarrow> bnd (consoleintr c s) (\<lambda>_ s. uartintr_loop k s)))"

definition uartintr :: "'x cons_state_scheme \<Rightarrow> (unit, 'x cons_state_scheme) outcome" where
  "uartintr s =
     bnd (uartintr_loop (length (uart_in s)) s) (\<lambda>_ s.
     bnd (acquire UartTxLock s) (\<lambda>_ s.
     bnd (uartstart s) (\<lambda>_ s. release UartTxLock s)))"

section \<open>Sections\<close>

lemma held_cons [simp]:
  "uart_regs (held lk s) = uart_regs s"
  "uart_in (held lk s) = uart_in s"
  "uart_lsr (held lk s) = uart_lsr s"
  "uart_tx_buf (held lk s) = uart_tx_buf s"
  "uart_tx_w (held lk s) = uart_tx_w s"
  "uart_tx_r (held lk s) = uart_tx_r s"
  "cons_buf (held lk s) = cons_buf s"
  "cons_r (held lk s) = cons_r s"
  "cons_w (held lk s) = cons_w s"
  "cons_e (held lk s) = cons_e s"
  "devsw (held lk s) = devsw s"
  by (simp_all add: held_def set_lock_def push_off_def Let_def machine_defs)

lemma held_cons_update [simp]:
  "uart_regs_update f1 (held lk s) = held lk (uart_regs_update f1 s)"
  "uart_in_update f2 (held lk s) = held lk (uart_in_update f2 s)"
  "uart_lsr_update f3 (held lk s) = held lk (uart_lsr_update f3 s)"
  "uart_tx_buf_update f4 (held lk s) = held lk (uart_tx_buf_update f4 s)"
  "uart_tx_w_update f5 (held lk s) = held lk (uart_tx_w_update f5 s)"
  "uart_tx_r_update f6 (held lk s) = held lk (uart_tx_r_update f6 s)"
  "cons_buf_update f7 (held lk s) = held lk (cons_buf_update f7 s)"
  "cons_r_update f8 (held lk s) = held lk (cons_r_update f8 s)"
  "cons_w_update f9 (held lk s) = held lk (cons_w_update f9 s)"
  "cons_e_update f10 (held lk s) = held lk (cons_e_update f10 s)"
  "devsw_update f11 (held lk s) = held lk (devsw_update f11 s)"
  by (simp_all add: held_def set_lock_def push_off_def Let_def machine_defs)

lemma quiet_cons_update [simp]:
  "quiet (uart_regs_update f1 s) = quiet s"
  "quiet (uart_in_update f2 s) = quiet s"
  "quiet (uart_lsr_update f3 s) = quiet s"
  "quiet (uart_tx_buf_update f4 s) = quiet s"
  "quiet (uart_tx_w_update f5 s) = quiet s"
  "quiet (uart_tx_r_update f6 s) = quiet s"
  "quiet (cons_buf_update f7 s) = quiet s"
  "quiet (cons_r_update f8 s) = quiet s"
  "quiet (cons_w_update f9 s) = quiet s"
  "quiet (cons_e_update f10 s) = quiet s"
  "quiet (devsw_update f11 s) = quiet s"
  by (simp_all add: quiet_def hart_ok_def machine_defs)

lemma lock_free_cons_update [simp]:
  "lock_free lk (uart_regs_update f1 s) = lock_free lk s"
  "lock_free lk (uart_in_update f2 s) = lock_free lk s"
  "lock_free lk (uart_lsr_update f3 s) = lock_free lk s"
  "lock_free lk (uart_tx_buf_update f4 s) = lock_free lk s"
  "lock_free lk (uart_tx_w_update f5 s) = lock_free lk s"
  "lock_free lk (uart_tx_r_update f6 s) = lock_free lk s"
  "lock_free lk (cons_buf_update f7 s) = lock_free lk s"
  "lock_free lk (cons_r_update f8 s) = lock_free lk s"
  "lock_free lk (cons_w_update f9 s) = lock_free lk s"
  "lock_free lk (cons_e_update f10 s) = lock_free lk s"
  "lock_free lk (devsw_update f11 s) = lock_free lk s"
  by (simp_all add: lock_free_def)

lemma mycpu_cons_update [simp]:
  "mycpu (uart_regs_update f1 s) = mycpu s"
  "mycpu (uart_in_update f2 s) = mycpu s"
  "mycpu (uart_lsr_update f3 s) = mycpu s"
  "mycpu (uart_tx_buf_update f4 s) = mycpu s"
  "mycpu (uart_tx_w_update f5 s) = mycpu s"
  "mycpu (uart_tx_r_update f6 s) = mycpu s"
  "mycpu (cons_buf_update f7 s) = mycpu s"
  "mycpu (cons_r_update f8 s) = mycpu s"
  "mycpu (cons_w_update f9 s) = mycpu s"
  "mycpu (cons_e_update f10 s) = mycpu s"
  "mycpu (devsw_update f11 s) = mycpu s"
  by (simp_all add: mycpu_def cpuid_def)

lemma intr_get_cons_update [simp]:
  "intr_get (uart_regs_update f1 s) = intr_get s"
  "intr_get (uart_in_update f2 s) = intr_get s"
  "intr_get (uart_lsr_update f3 s) = intr_get s"
  "intr_get (uart_tx_buf_update f4 s) = intr_get s"
  "intr_get (uart_tx_w_update f5 s) = intr_get s"
  "intr_get (uart_tx_r_update f6 s) = intr_get s"
  "intr_get (cons_buf_update f7 s) = intr_get s"
  "intr_get (cons_r_update f8 s) = intr_get s"
  "intr_get (cons_w_update f9 s) = intr_get s"
  "intr_get (cons_e_update f10 s) = intr_get s"
  "intr_get (devsw_update f11 s) = intr_get s"
  by (simp_all add: intr_get_def)

lemma set_cpu_proc_cons [simp]:
  "uart_regs (set_cpu_proc p s) = uart_regs s"
  "uart_in (set_cpu_proc p s) = uart_in s"
  "uart_lsr (set_cpu_proc p s) = uart_lsr s"
  "uart_tx_buf (set_cpu_proc p s) = uart_tx_buf s"
  "uart_tx_w (set_cpu_proc p s) = uart_tx_w s"
  "uart_tx_r (set_cpu_proc p s) = uart_tx_r s"
  "cons_buf (set_cpu_proc p s) = cons_buf s"
  "cons_r (set_cpu_proc p s) = cons_r s"
  "cons_w (set_cpu_proc p s) = cons_w s"
  "cons_e (set_cpu_proc p s) = cons_e s"
  "devsw (set_cpu_proc p s) = devsw s"
  by (simp_all add: set_cpu_proc_def machine_defs)

lemma set_cpu_proc_cons_update [simp]:
  "uart_regs_update f1 (set_cpu_proc p s) = set_cpu_proc p (uart_regs_update f1 s)"
  "uart_in_update f2 (set_cpu_proc p s) = set_cpu_proc p (uart_in_update f2 s)"
  "uart_lsr_update f3 (set_cpu_proc p s) = set_cpu_proc p (uart_lsr_update f3 s)"
  "uart_tx_buf_update f4 (set_cpu_proc p s) = set_cpu_proc p (uart_tx_buf_update f4 s)"
  "uart_tx_w_update f5 (set_cpu_proc p s) = set_cpu_proc p (uart_tx_w_update f5 s)"
  "uart_tx_r_update f6 (set_cpu_proc p s) = set_cpu_proc p (uart_tx_r_update f6 s)"
  "cons_buf_update f7 (set_cpu_proc p s) = set_cpu_proc p (cons_buf_update f7 s)"
  "cons_r_update f8 (set_cpu_proc p s) = set_cpu_proc p (cons_r_update f8 s)"
  "cons_w_update f9 (set_cpu_proc p s) = set_cpu_proc p (cons_w_update f9 s)"
  "cons_e_update f10 (set_cpu_proc p s) = set_cpu_proc p (cons_e_update f10 s)"
  "devsw_update f11 (set_cpu_proc p s) = set_cpu_proc p (devsw_update f11 s)"
  by (simp_all add: set_cpu_proc_def machine_defs)

lemma procs_free_cons_update [simp]:
  "procs_free (uart_regs_update f1 s) = procs_free s"
  "procs_free (uart_in_update f2 s) = procs_free s"
  "procs_free (uart_lsr_update f3 s) = procs_free s"
  "procs_free (uart_tx_buf_update f4 s) = procs_free s"
  "procs_free (uart_tx_w_update f5 s) = procs_free s"
  "procs_free (uart_tx_r_update f6 s) = procs_free s"
  "procs_free (cons_buf_update f7 s) = procs_free s"
  "procs_free (cons_r_update f8 s) = procs_free s"
  "procs_free (cons_w_update f9 s) = procs_free s"
  "procs_free (cons_e_update f10 s) = procs_free s"
  "procs_free (devsw_update f11 s) = procs_free s"
  by (simp_all add: procs_free_def)

lemma calm_cons_update [simp]:
  "calm p (uart_regs_update f1 s) = calm p s"
  "calm p (uart_in_update f2 s) = calm p s"
  "calm p (uart_lsr_update f3 s) = calm p s"
  "calm p (uart_tx_buf_update f4 s) = calm p s"
  "calm p (uart_tx_w_update f5 s) = calm p s"
  "calm p (uart_tx_r_update f6 s) = calm p s"
  "calm p (cons_buf_update f7 s) = calm p s"
  "calm p (cons_r_update f8 s) = calm p s"
  "calm p (cons_w_update f9 s) = calm p s"
  "calm p (cons_e_update f10 s) = calm p s"
  "calm p (devsw_update f11 s) = calm p s"
  by (simp_all add: calm_def)

end
