(* ===== verification/Sleeplock.thy ===== *)
theory Sleeplock
  imports Console
begin

text \<open>
  Sleep locks: \<open>src/kernel/sleeplock.c\<close>. A thread that finds the lock taken sleeps, which is
  the outcome \<open>Wait\<close>.
\<close>

record sleeplock =
  sl_locked :: bool
  sl_name :: string
  sl_pid :: uint32

record sleep_state = cons_state +
  sleeplocks :: "sleepid \<Rightarrow> sleeplock"

text \<open>The spin lock that protects a sleep lock.\<close>

fun sl_lk :: "sleepid \<Rightarrow> lockid" where
  "sl_lk (BufSL n) = BufLk n"
| "sl_lk (InodeSL n) = InodeLk n"

definition set_sleeplock :: "sleepid \<Rightarrow> (sleeplock \<Rightarrow> sleeplock) \<Rightarrow> 'x sleep_state_scheme \<Rightarrow> 'x sleep_state_scheme" where
  "set_sleeplock sl f s = s\<lparr>sleeplocks := (sleeplocks s)(sl := f (sleeplocks s sl))\<rparr>"

definition initsleeplock :: "sleepid \<Rightarrow> string \<Rightarrow> 'x sleep_state_scheme \<Rightarrow> 'x sleep_state_scheme" where
  "initsleeplock sl name s =
     (let s = initlock (sl_lk sl) ''sleep lock'' s
      in set_sleeplock sl (\<lambda>_. \<lparr>sl_locked = False, sl_name = name, sl_pid = 0\<rparr>) s)"

definition acquiresleep :: "sleepid \<Rightarrow> 'x sleep_state_scheme \<Rightarrow> (unit, 'x sleep_state_scheme) outcome" where
  "acquiresleep sl s =
     bnd (acquire (sl_lk sl) s) (\<lambda>_ s.
     if sl_locked (sleeplocks s sl) then sleep (ChSleep sl) (sl_lk sl) s
     else
       let s = set_sleeplock sl (sl_locked_update (\<lambda>_. True)) s
       in bnd (curproc s) (\<lambda>i s.
          let s = set_sleeplock sl (sl_pid_update (\<lambda>_. p_pid (procs s i))) s
          in release (sl_lk sl) s))"

definition releasesleep :: "sleepid \<Rightarrow> 'x sleep_state_scheme \<Rightarrow> (unit, 'x sleep_state_scheme) outcome" where
  "releasesleep sl s =
     bnd (acquire (sl_lk sl) s) (\<lambda>_ s.
     let s = set_sleeplock sl (\<lambda>l. l\<lparr>sl_locked := False, sl_pid := 0\<rparr>) s
     in bnd (wakeup (ChSleep sl) s) (\<lambda>_ s. release (sl_lk sl) s))"

definition holdingsleep :: "sleepid \<Rightarrow> 'x sleep_state_scheme \<Rightarrow> (bool, 'x sleep_state_scheme) outcome" where
  "holdingsleep sl s =
     bnd (acquire (sl_lk sl) s) (\<lambda>_ s.
     bnd (if sl_locked (sleeplocks s sl)
          then bnd (curproc s) (\<lambda>i s. Ret (sl_pid (sleeplocks s sl) = p_pid (procs s i)) s)
          else Ret False s) (\<lambda>r s.
     bnd (release (sl_lk sl) s) (\<lambda>_ s. Ret r s)))"

section \<open>Closed forms\<close>

lemma held_sleep [simp]:
  "sleeplocks (held lk s) = sleeplocks s"
  by (simp_all add: held_def set_lock_def push_off_def Let_def machine_defs)

lemma held_sleep_update [simp]:
  "sleeplocks_update f1 (held lk s) = held lk (sleeplocks_update f1 s)"
  by (simp_all add: held_def set_lock_def push_off_def Let_def machine_defs)

lemma quiet_sleep_update [simp]:
  "quiet (sleeplocks_update f1 s) = quiet s"
  by (simp_all add: quiet_def hart_ok_def machine_defs)

lemma lock_free_sleep_update [simp]:
  "lock_free lk (sleeplocks_update f1 s) = lock_free lk s"
  by (simp_all add: lock_free_def)

lemma mycpu_sleep_update [simp]:
  "mycpu (sleeplocks_update f1 s) = mycpu s"
  by (simp_all add: mycpu_def cpuid_def)

lemma intr_get_sleep_update [simp]:
  "intr_get (sleeplocks_update f1 s) = intr_get s"
  by (simp_all add: intr_get_def)

lemma set_cpu_proc_sleep [simp]:
  "sleeplocks (set_cpu_proc p s) = sleeplocks s"
  by (simp_all add: set_cpu_proc_def machine_defs)

lemma set_cpu_proc_sleep_update [simp]:
  "sleeplocks_update f1 (set_cpu_proc p s) = set_cpu_proc p (sleeplocks_update f1 s)"
  by (simp_all add: set_cpu_proc_def machine_defs)

lemma procs_free_sleep_update [simp]:
  "procs_free (sleeplocks_update f1 s) = procs_free s"
  by (simp_all add: procs_free_def)

lemma calm_sleep_update [simp]:
  "calm p (sleeplocks_update f1 s) = calm p s"
  by (simp_all add: calm_def)

lemma sl_lk_neq [simp]: "sl_lk sl \<noteq> ProcLock i" "ProcLock i \<noteq> sl_lk sl"
  by (cases sl; simp)+

lemma sl_lk_inj [simp]: "sl_lk a = sl_lk b \<longleftrightarrow> a = b"
  by (cases a; cases b) auto

lemma procs_free_sl [simp]: "procs_free (held (sl_lk sl) s) = procs_free s"
  by (simp add: procs_free_def)

lemma acquiresleep_eq:
  assumes "quiet s" "lock_free (sl_lk sl) s" "cpu_proc (mycpu s) = Some i" "\<not> sl_locked (sleeplocks s sl)"
  shows "acquiresleep sl s = Ret () (s\<lparr>sleeplocks := (sleeplocks s)(sl := (sleeplocks s sl)\<lparr>sl_locked := True,
    sl_pid := p_pid (procs s i)\<rparr>)\<rparr>)"
  using assms by (simp add: acquiresleep_def set_sleeplock_def)

lemma releasesleep_eq:
  assumes "quiet s" "lock_free (sl_lk sl) s" "procs_free s"
  shows "releasesleep sl s = Ret () (s\<lparr>procs := woken (Some (ChSleep sl)) (cpu_proc (mycpu s)) (procs s),
    sleeplocks := (sleeplocks s)(sl := (sleeplocks s sl)\<lparr>sl_locked := False, sl_pid := 0\<rparr>)\<rparr>)"
  using assms by (simp add: releasesleep_def set_sleeplock_def)

lemma holdingsleep_eq:
  assumes "quiet s" "lock_free (sl_lk sl) s" "cpu_proc (mycpu s) = Some i"
  shows "holdingsleep sl s = Ret (sl_locked (sleeplocks s sl) \<and> sl_pid (sleeplocks s sl) = p_pid (procs s i)) s"
  using assms by (simp add: holdingsleep_def)

section \<open>Property\<close>


definition one_sleeper :: sleep_state where
  "one_sleeper = cons_state.extend (proc_state.extend two_procs
     \<lparr>uart_regs = [], uart_in = [], uart_lsr = \<lambda>_. 0x20, uart_tx_buf = \<lambda>_. 0, uart_tx_w = 0, uart_tx_r = 0,
      cons_buf = \<lambda>_. 0, cons_r = 0, cons_w = 0, cons_e = 0, devsw = \<lambda>_. None\<rparr>)
     \<lparr>sleeplocks = \<lambda>_. \<lparr>sl_locked = False, sl_name = [], sl_pid = 0\<rparr>\<rparr>"


end
