(* ===== verification/Virtio.thy ===== *)
theory Virtio
  imports Sleeplock
begin

text \<open>
  The disk driver: \<open>src/kernel/virtio_disk.c\<close>, with \<open>struct buf\<close> of \<open>buf.h\<close>. The device
  is not part of the kernel: its registers are read through \<open>vio_read\<close>, a function of the
  register writes so far, and what it does to the queue, the buffers and the disk when it
  has been notified is \<open>blkdev\<close>. \<open>image\<close> is the contents of the disk and \<open>hist\<close> every
  contents it had after a run of the device, the states a power failure can leave. A request sleeps until the interrupt; \<open>virtio_disk_rw\<close>
  spells out the switch to the scheduler, the work of the device, the interrupt handler and
  the switch back.
\<close>

section \<open>Buffers, the virtqueue and the device\<close>

definition BSIZE :: nat where [simp]: "BSIZE = 1024"

definition NUM :: nat where [simp]: "NUM = 8"

text \<open>\<open>b_prev\<close> and \<open>b_next\<close> are indices of buffers; the index \<open>NBUF\<close> is \<open>bcache.head\<close>.\<close>

record buf =
  b_valid :: bool
  b_disk :: bool
  b_dev :: uint32
  b_blockno :: uint32
  b_refcnt :: uint32
  b_prev :: nat
  b_next :: nat
  b_data :: "uint8 list"

text \<open>The addresses the driver puts in descriptors.\<close>

datatype dma = DmaNull | DmaOps nat | DmaData nat | DmaStatus nat

record virtq_desc =
  v_addr :: dma
  v_len :: uint32
  v_flags :: uint16
  v_next :: uint16

record virtio_blk_req =
  r_type :: uint32
  r_reserved :: uint32
  r_sector :: uint64

record vdisk =
  d_desc :: "nat \<Rightarrow> virtq_desc"
  d_avail_ring :: "nat \<Rightarrow> uint16"
  d_avail_idx :: uint16
  d_used_ring :: "nat \<Rightarrow> uint32"
  d_used_dev_idx :: uint16
  d_free :: "nat \<Rightarrow> bool"
  d_used_idx :: uint16
  d_info_b :: "nat \<Rightarrow> nat option"
  d_info_status :: "nat \<Rightarrow> uint8"
  d_ops :: "nat \<Rightarrow> virtio_blk_req"

type_synonym image = "uint64 \<Rightarrow> uint8"

record blk_state = sleep_state +
  bufs :: "nat \<Rightarrow> buf"
  disk :: vdisk
  image :: image
  hist :: "image list"
  vio_log :: "(nat \<times> uint32) list"
  vio_read :: "(nat \<times> uint32) list \<Rightarrow> nat \<Rightarrow> uint32"
  blkdev :: "vdisk \<Rightarrow> (nat \<Rightarrow> uint8 list) \<Rightarrow> image \<Rightarrow> vdisk \<times> (nat \<Rightarrow> uint8 list) \<times> image"
  vq_pages :: "uint64 \<times> uint64 \<times> uint64"

definition upd_buf :: "nat \<Rightarrow> (buf \<Rightarrow> buf) \<Rightarrow> 'x blk_state_scheme \<Rightarrow> 'x blk_state_scheme" where
  "upd_buf b f s = s\<lparr>bufs := (bufs s)(b := f (bufs s b))\<rparr>"

definition R_read :: "nat \<Rightarrow> 'x blk_state_scheme \<Rightarrow> uint32" where
  "R_read r s = vio_read s (vio_log s) r"

definition R_write :: "nat \<Rightarrow> uint32 \<Rightarrow> 'x blk_state_scheme \<Rightarrow> 'x blk_state_scheme" where
  "R_write r v s = s\<lparr>vio_log := vio_log s @ [(r, v)]\<rparr>"

definition device_run :: "'x blk_state_scheme \<Rightarrow> 'x blk_state_scheme" where
  "device_run s =
     (let (d, data, img) = blkdev s (disk s) (\<lambda>b. b_data (bufs s b)) (image s)
      in s\<lparr>disk := d, bufs := \<lambda>b. (bufs s b)\<lparr>b_data := data b\<rparr>, image := img, hist := hist s @ [img]\<rparr>)"

definition null_desc :: virtq_desc where
  "null_desc = \<lparr>v_addr = DmaNull, v_len = 0, v_flags = 0, v_next = 0\<rparr>"

section \<open>Initialization\<close>

text \<open>The feature bits the driver refuses.\<close>

definition virtio_features :: "uint32 \<Rightarrow> uint32" where
  "virtio_features f =
     fold (\<lambda>i f. unset_bit i f) [5, 7, 11, 12, 27, 29, 28] f"

definition virtio_disk_init :: "'x blk_state_scheme \<Rightarrow> (unit, 'x blk_state_scheme) outcome" where
  "virtio_disk_init s =
     (let s = initlock VdiskLock ''virtio_disk'' s
      in if R_read 0x000 s \<noteq> 0x74726976 \<or> R_read 0x004 s \<noteq> 2 \<or> R_read 0x008 s \<noteq> 2 \<or>
            R_read 0x00c s \<noteq> 0x554d4551 then Panic ''could not find virtio disk''
         else
           let s = R_write 0x070 0 s;
               s = R_write 0x070 1 s;
               s = R_write 0x070 3 s;
               s = R_write 0x020 (virtio_features (R_read 0x010 s)) s;
               s = R_write 0x070 11 s;
               status = R_read 0x070 s
           in if status AND 8 = 0 then Panic ''virtio disk FEATURES_OK unset''
              else
                let s = R_write 0x030 0 s
                in if R_read 0x044 s \<noteq> 0 then Panic ''virtio disk should not be ready''
                   else if R_read 0x034 s = 0 then Panic ''virtio disk has no queue 0''
                   else if R_read 0x034 s < 8 then Panic ''virtio disk max queue too short''
                   else
                     bnd (kalloc s) (\<lambda>d s.
                     bnd (kalloc s) (\<lambda>a s.
                     bnd (kalloc s) (\<lambda>u s.
                     if d = 0 \<or> a = 0 \<or> u = 0 then Panic ''virtio disk kalloc''
                     else
                       let s = s\<lparr>vq_pages := (d, a, u),
                             mem := memset (memset (memset (mem s) d 0 4096) a 0 4096) u 0 4096,
                             disk := (disk s)\<lparr>d_desc := \<lambda>_. null_desc, d_avail_ring := \<lambda>_. 0, d_avail_idx := 0,
                               d_used_ring := \<lambda>_. 0, d_used_dev_idx := 0\<rparr>\<rparr>;
                           s = R_write 0x038 8 s;
                           s = R_write 0x080 (ucast d) s;
                           s = R_write 0x084 (ucast (drop_bit 32 d)) s;
                           s = R_write 0x090 (ucast a) s;
                           s = R_write 0x094 (ucast (drop_bit 32 a)) s;
                           s = R_write 0x0a0 (ucast u) s;
                           s = R_write 0x0a4 (ucast (drop_bit 32 u)) s;
                           s = R_write 0x044 1 s;
                           s = s\<lparr>disk := (disk s)\<lparr>d_free := \<lambda>i. i < NUM \<or> d_free (disk s) i\<rparr>\<rparr>
                       in Ret () (R_write 0x070 (status OR 4) s)))))"

section \<open>Descriptors\<close>

fun alloc_desc_from :: "nat \<Rightarrow> nat \<Rightarrow> 'x blk_state_scheme \<Rightarrow> nat option \<times> 'x blk_state_scheme" where
  "alloc_desc_from 0 i s = (None, s)"
| "alloc_desc_from (Suc k) i s =
     (if d_free (disk s) i then (Some i, s\<lparr>disk := (disk s)\<lparr>d_free := (d_free (disk s))(i := False)\<rparr>\<rparr>)
      else alloc_desc_from k (Suc i) s)"

definition alloc_desc :: "'x blk_state_scheme \<Rightarrow> nat option \<times> 'x blk_state_scheme" where
  "alloc_desc s = alloc_desc_from NUM 0 s"

definition free_desc :: "nat \<Rightarrow> 'x blk_state_scheme \<Rightarrow> (unit, 'x blk_state_scheme) outcome" where
  "free_desc i s =
     (if i \<ge> NUM then Panic ''free_desc 1''
      else if d_free (disk s) i then Panic ''free_desc 2''
      else wakeup ChDiskFree (s\<lparr>disk := (disk s)\<lparr>d_desc := (d_desc (disk s))(i := null_desc),
             d_free := (d_free (disk s))(i := True)\<rparr>\<rparr>))"

text \<open>A chain has no more than \<open>NUM\<close> descriptors: freeing one twice panics.\<close>

fun free_chain_fuel :: "nat \<Rightarrow> nat \<Rightarrow> 'x blk_state_scheme \<Rightarrow> (unit, 'x blk_state_scheme) outcome" where
  "free_chain_fuel 0 i s = NoFuel"
| "free_chain_fuel (Suc k) i s =
     (let flag = v_flags (d_desc (disk s) i);
          nxt = v_next (d_desc (disk s) i)
      in bnd (free_desc i s) (\<lambda>_ s.
         if flag AND 1 \<noteq> 0 then free_chain_fuel k (unat nxt) s else Ret () s))"

definition free_chain :: "nat \<Rightarrow> 'x blk_state_scheme \<Rightarrow> (unit, 'x blk_state_scheme) outcome" where
  "free_chain i s = free_chain_fuel (Suc NUM) i s"

definition alloc3_desc :: "'x blk_state_scheme \<Rightarrow> ((nat \<times> nat \<times> nat) option, 'x blk_state_scheme) outcome" where
  "alloc3_desc s =
     (case alloc_desc s of
        (None, s) \<Rightarrow> Ret None s
      | (Some i, s) \<Rightarrow>
          (case alloc_desc s of
             (None, s) \<Rightarrow> bnd (free_desc i s) (\<lambda>_ s. Ret None s)
           | (Some j, s) \<Rightarrow>
               (case alloc_desc s of
                  (None, s) \<Rightarrow> bnd (free_desc i s) (\<lambda>_ s. bnd (free_desc j s) (\<lambda>_ s. Ret None s))
                | (Some k, s) \<Rightarrow> Ret (Some (i, j, k)) s)))"

section \<open>Requests\<close>

definition format_desc :: "nat \<Rightarrow> bool \<Rightarrow> uint64 \<Rightarrow> nat \<times> nat \<times> nat \<Rightarrow> vdisk \<Rightarrow> vdisk" where
  "format_desc b wr sector idx d =
     (let (i, j, k) = idx
      in d\<lparr>d_ops := (d_ops d)(i := \<lparr>r_type = (if wr then 1 else 0), r_reserved = 0, r_sector = sector\<rparr>),
           d_desc := (d_desc d)(
             i := \<lparr>v_addr = DmaOps i, v_len = 16, v_flags = 1, v_next = of_nat j\<rparr>,
             j := \<lparr>v_addr = DmaData b, v_len = 1024, v_flags = (if wr then 0 else 2) OR 1, v_next = of_nat k\<rparr>,
             k := \<lparr>v_addr = DmaStatus i, v_len = 1, v_flags = 2, v_next = 0\<rparr>),
           d_info_status := (d_info_status d)(i := 0xff),
           d_info_b := (d_info_b d)(i := Some b),
           d_avail_ring := (d_avail_ring d)(unat (d_avail_idx d) mod NUM := of_nat i),
           d_avail_idx := d_avail_idx d + 1\<rparr>)"

text \<open>The interrupt handler takes the completed requests off the used ring. There are at most
  \<open>2 ^ 16\<close> of them, as the indices are 16 bits wide.\<close>

fun virtio_intr_loop :: "nat \<Rightarrow> 'x blk_state_scheme \<Rightarrow> (unit, 'x blk_state_scheme) outcome" where
  "virtio_intr_loop 0 s = NoFuel"
| "virtio_intr_loop (Suc n) s =
     (if d_used_idx (disk s) = d_used_dev_idx (disk s) then Ret () s
      else
        let id = unat (d_used_ring (disk s) (unat (d_used_idx (disk s)) mod NUM))
        in if d_info_status (disk s) id \<noteq> 0 then Panic ''virtio_disk_intr status''
           else bnd (deref (d_info_b (disk s) id) s) (\<lambda>b s.
             let s = upd_buf b (b_disk_update (\<lambda>_. False)) s
             in bnd (wakeup (ChBuf b) s) (\<lambda>_ s.
                virtio_intr_loop n (s\<lparr>disk := (disk s)\<lparr>d_used_idx := d_used_idx (disk s) + 1\<rparr>\<rparr>))))"

definition virtio_disk_intr :: "'x blk_state_scheme \<Rightarrow> (unit, 'x blk_state_scheme) outcome" where
  "virtio_disk_intr s =
     bnd (acquire VdiskLock s) (\<lambda>_ s.
     let s = R_write 0x064 (R_read 0x060 s AND 3) s
     in bnd (virtio_intr_loop (2 ^ 16) s) (\<lambda>_ s. release VdiskLock s))"

text \<open>The wait for the interrupt: the caller sleeps, the device works and interrupts, and the
  scheduler picks the caller again.\<close>

definition virtio_wait :: "nat \<Rightarrow> 'x blk_state_scheme \<Rightarrow> (unit, 'x blk_state_scheme) outcome" where
  "virtio_wait b s =
     (if b_disk (bufs s b) then
        bnd (sleep_enter (ChBuf b) VdiskLock s) (\<lambda>i s.
        bnd (sched_enter s) (\<lambda>ie s.
        bnd (scheduler_return i s) (\<lambda>_ s.
        bnd (virtio_disk_intr (device_run s)) (\<lambda>_ s.
        bnd (scheduler_pick i s) (\<lambda>ok s.
        if ok then
          bnd (sleep_leave i VdiskLock (sched_leave ie s)) (\<lambda>_ s.
          if b_disk (bufs s b) then Wait s else Ret () s)
        else Wait s)))))
      else Ret () s)"

definition virtio_disk_rw :: "nat \<Rightarrow> bool \<Rightarrow> 'x blk_state_scheme \<Rightarrow> (unit, 'x blk_state_scheme) outcome" where
  "virtio_disk_rw b wr s =
     (let sector = ucast (b_blockno (bufs s b) * 2) :: uint64
      in bnd (acquire VdiskLock s) (\<lambda>_ s.
         bnd (alloc3_desc s) (\<lambda>idx s.
         case idx of
           None \<Rightarrow> sleep ChDiskFree VdiskLock s
         | Some (i, j, k) \<Rightarrow>
             let s = s\<lparr>disk := format_desc b wr sector (i, j, k) (disk s)\<rparr>;
                 s = upd_buf b (b_disk_update (\<lambda>_. True)) s;
                 s = R_write 0x050 0 s
             in bnd (virtio_wait b s) (\<lambda>_ s.
                let s = s\<lparr>disk := (disk s)\<lparr>d_info_b := (d_info_b (disk s))(i := None)\<rparr>\<rparr>
                in bnd (free_chain i s) (\<lambda>_ s. release VdiskLock s)))))"

section \<open>Sections\<close>

lemma held_blk [simp]:
  "bufs (held lk s) = bufs s"
  "disk (held lk s) = disk s"
  "image (held lk s) = image s"
  "hist (held lk s) = hist s"
  "vio_log (held lk s) = vio_log s"
  "vio_read (held lk s) = vio_read s"
  "blkdev (held lk s) = blkdev s"
  "vq_pages (held lk s) = vq_pages s"
  by (simp_all add: held_def set_lock_def push_off_def Let_def machine_defs)

lemma held_blk_update [simp]:
  "bufs_update f1 (held lk s) = held lk (bufs_update f1 s)"
  "disk_update f2 (held lk s) = held lk (disk_update f2 s)"
  "image_update f3 (held lk s) = held lk (image_update f3 s)"
  "hist_update f4 (held lk s) = held lk (hist_update f4 s)"
  "vio_log_update f5 (held lk s) = held lk (vio_log_update f5 s)"
  "vio_read_update f6 (held lk s) = held lk (vio_read_update f6 s)"
  "blkdev_update f7 (held lk s) = held lk (blkdev_update f7 s)"
  "vq_pages_update f8 (held lk s) = held lk (vq_pages_update f8 s)"
  by (simp_all add: held_def set_lock_def push_off_def Let_def machine_defs)

lemma quiet_blk_update [simp]:
  "quiet (bufs_update f1 s) = quiet s"
  "quiet (disk_update f2 s) = quiet s"
  "quiet (image_update f3 s) = quiet s"
  "quiet (hist_update f4 s) = quiet s"
  "quiet (vio_log_update f5 s) = quiet s"
  "quiet (vio_read_update f6 s) = quiet s"
  "quiet (blkdev_update f7 s) = quiet s"
  "quiet (vq_pages_update f8 s) = quiet s"
  by (simp_all add: quiet_def hart_ok_def machine_defs)

lemma lock_free_blk_update [simp]:
  "lock_free lk (bufs_update f1 s) = lock_free lk s"
  "lock_free lk (disk_update f2 s) = lock_free lk s"
  "lock_free lk (image_update f3 s) = lock_free lk s"
  "lock_free lk (hist_update f4 s) = lock_free lk s"
  "lock_free lk (vio_log_update f5 s) = lock_free lk s"
  "lock_free lk (vio_read_update f6 s) = lock_free lk s"
  "lock_free lk (blkdev_update f7 s) = lock_free lk s"
  "lock_free lk (vq_pages_update f8 s) = lock_free lk s"
  by (simp_all add: lock_free_def)

lemma mycpu_blk_update [simp]:
  "mycpu (bufs_update f1 s) = mycpu s"
  "mycpu (disk_update f2 s) = mycpu s"
  "mycpu (image_update f3 s) = mycpu s"
  "mycpu (hist_update f4 s) = mycpu s"
  "mycpu (vio_log_update f5 s) = mycpu s"
  "mycpu (vio_read_update f6 s) = mycpu s"
  "mycpu (blkdev_update f7 s) = mycpu s"
  "mycpu (vq_pages_update f8 s) = mycpu s"
  by (simp_all add: mycpu_def cpuid_def)

lemma intr_get_blk_update [simp]:
  "intr_get (bufs_update f1 s) = intr_get s"
  "intr_get (disk_update f2 s) = intr_get s"
  "intr_get (image_update f3 s) = intr_get s"
  "intr_get (hist_update f4 s) = intr_get s"
  "intr_get (vio_log_update f5 s) = intr_get s"
  "intr_get (vio_read_update f6 s) = intr_get s"
  "intr_get (blkdev_update f7 s) = intr_get s"
  "intr_get (vq_pages_update f8 s) = intr_get s"
  by (simp_all add: intr_get_def)

lemma set_cpu_proc_blk [simp]:
  "bufs (set_cpu_proc p s) = bufs s"
  "disk (set_cpu_proc p s) = disk s"
  "image (set_cpu_proc p s) = image s"
  "hist (set_cpu_proc p s) = hist s"
  "vio_log (set_cpu_proc p s) = vio_log s"
  "vio_read (set_cpu_proc p s) = vio_read s"
  "blkdev (set_cpu_proc p s) = blkdev s"
  "vq_pages (set_cpu_proc p s) = vq_pages s"
  by (simp_all add: set_cpu_proc_def machine_defs)

lemma set_cpu_proc_blk_update [simp]:
  "bufs_update f1 (set_cpu_proc p s) = set_cpu_proc p (bufs_update f1 s)"
  "disk_update f2 (set_cpu_proc p s) = set_cpu_proc p (disk_update f2 s)"
  "image_update f3 (set_cpu_proc p s) = set_cpu_proc p (image_update f3 s)"
  "hist_update f4 (set_cpu_proc p s) = set_cpu_proc p (hist_update f4 s)"
  "vio_log_update f5 (set_cpu_proc p s) = set_cpu_proc p (vio_log_update f5 s)"
  "vio_read_update f6 (set_cpu_proc p s) = set_cpu_proc p (vio_read_update f6 s)"
  "blkdev_update f7 (set_cpu_proc p s) = set_cpu_proc p (blkdev_update f7 s)"
  "vq_pages_update f8 (set_cpu_proc p s) = set_cpu_proc p (vq_pages_update f8 s)"
  by (simp_all add: set_cpu_proc_def machine_defs)

lemma procs_free_blk_update [simp]:
  "procs_free (bufs_update f1 s) = procs_free s"
  "procs_free (disk_update f2 s) = procs_free s"
  "procs_free (image_update f3 s) = procs_free s"
  "procs_free (hist_update f4 s) = procs_free s"
  "procs_free (vio_log_update f5 s) = procs_free s"
  "procs_free (vio_read_update f6 s) = procs_free s"
  "procs_free (blkdev_update f7 s) = procs_free s"
  "procs_free (vq_pages_update f8 s) = procs_free s"
  by (simp_all add: procs_free_def)

lemma calm_blk_update [simp]:
  "calm p (bufs_update f1 s) = calm p s"
  "calm p (disk_update f2 s) = calm p s"
  "calm p (image_update f3 s) = calm p s"
  "calm p (hist_update f4 s) = calm p s"
  "calm p (vio_log_update f5 s) = calm p s"
  "calm p (vio_read_update f6 s) = calm p s"
  "calm p (blkdev_update f7 s) = calm p s"
  "calm p (vq_pages_update f8 s) = calm p s"
  by (simp_all add: calm_def)

lemma upd_order_blk [upd_order]:
  "mem_update f1 (sleeplocks_update g1 s) = sleeplocks_update g1 (mem_update f1 s)"
  "satp_update f2 (sleeplocks_update g2 s) = sleeplocks_update g2 (satp_update f2 s)"
  "procs_update f3 (sleeplocks_update g3 s) = sleeplocks_update g3 (procs_update f3 s)"
  "mem_update f4 (bufs_update g4 s) = bufs_update g4 (mem_update f4 s)"
  "satp_update f5 (bufs_update g5 s) = bufs_update g5 (satp_update f5 s)"
  "procs_update f6 (bufs_update g6 s) = bufs_update g6 (procs_update f6 s)"
  "sleeplocks_update f7 (bufs_update g7 s) = bufs_update g7 (sleeplocks_update f7 s)"
  "mem_update f8 (disk_update g8 s) = disk_update g8 (mem_update f8 s)"
  "satp_update f9 (disk_update g9 s) = disk_update g9 (satp_update f9 s)"
  "procs_update f10 (disk_update g10 s) = disk_update g10 (procs_update f10 s)"
  "sleeplocks_update f11 (disk_update g11 s) = disk_update g11 (sleeplocks_update f11 s)"
  "bufs_update f12 (disk_update g12 s) = disk_update g12 (bufs_update f12 s)"
  "mem_update f13 (image_update g13 s) = image_update g13 (mem_update f13 s)"
  "satp_update f14 (image_update g14 s) = image_update g14 (satp_update f14 s)"
  "procs_update f15 (image_update g15 s) = image_update g15 (procs_update f15 s)"
  "sleeplocks_update f16 (image_update g16 s) = image_update g16 (sleeplocks_update f16 s)"
  "bufs_update f17 (image_update g17 s) = image_update g17 (bufs_update f17 s)"
  "disk_update f18 (image_update g18 s) = image_update g18 (disk_update f18 s)"
  "mem_update f19 (hist_update g19 s) = hist_update g19 (mem_update f19 s)"
  "satp_update f20 (hist_update g20 s) = hist_update g20 (satp_update f20 s)"
  "procs_update f21 (hist_update g21 s) = hist_update g21 (procs_update f21 s)"
  "sleeplocks_update f22 (hist_update g22 s) = hist_update g22 (sleeplocks_update f22 s)"
  "bufs_update f23 (hist_update g23 s) = hist_update g23 (bufs_update f23 s)"
  "disk_update f24 (hist_update g24 s) = hist_update g24 (disk_update f24 s)"
  "image_update f25 (hist_update g25 s) = hist_update g25 (image_update f25 s)"
  "mem_update f26 (vio_log_update g26 s) = vio_log_update g26 (mem_update f26 s)"
  "satp_update f27 (vio_log_update g27 s) = vio_log_update g27 (satp_update f27 s)"
  "procs_update f28 (vio_log_update g28 s) = vio_log_update g28 (procs_update f28 s)"
  "sleeplocks_update f29 (vio_log_update g29 s) = vio_log_update g29 (sleeplocks_update f29 s)"
  "bufs_update f30 (vio_log_update g30 s) = vio_log_update g30 (bufs_update f30 s)"
  "disk_update f31 (vio_log_update g31 s) = vio_log_update g31 (disk_update f31 s)"
  "image_update f32 (vio_log_update g32 s) = vio_log_update g32 (image_update f32 s)"
  "hist_update f33 (vio_log_update g33 s) = vio_log_update g33 (hist_update f33 s)"
  by simp_all

section \<open>Waiting for the device\<close>

lemma deref_Some [simp]: "deref (Some x) s = Ret x s"
  by (simp add: deref_def)

lemma virtio_intr_one:
  assumes "quiet s" "procs_free s"
    and "d_used_dev_idx (disk s) = d_used_idx (disk s) + 1"
    and "i = unat (d_used_ring (disk s) (unat (d_used_idx (disk s)) mod NUM))"
    and "d_info_status (disk s) i = 0" "d_info_b (disk s) i = Some b"
  shows "virtio_intr_loop (Suc (Suc n)) s = Ret () (s\<lparr>
    procs := woken (Some (ChBuf b)) (cpu_proc (mycpu s)) (procs s),
    bufs := (bufs s)(b := (bufs s b)\<lparr>b_disk := False\<rparr>),
    disk := (disk s)\<lparr>d_used_idx := d_used_idx (disk s) + 1\<rparr>\<rparr>)"
  using assms by (simp add: Let_def upd_buf_def)

text \<open>The device has completed one request, that of buffer \<open>b\<close>.\<close>

definition one_done :: "nat \<Rightarrow> vdisk \<Rightarrow> bool" where
  "one_done b d \<longleftrightarrow> d_used_dev_idx d = d_used_idx d + 1 \<and>
     (let i = unat (d_used_ring d (unat (d_used_idx d) mod NUM)) in d_info_status d i = 0 \<and> d_info_b d i = Some b)"

lemma virtio_disk_intr_eq:
  assumes "quiet s" "procs_free s" "lock_free VdiskLock s" "one_done b (disk s)"
  shows "virtio_disk_intr s = Ret () (s\<lparr>
    procs := woken (Some (ChBuf b)) (cpu_proc (mycpu s)) (procs s),
    bufs := (bufs s)(b := (bufs s b)\<lparr>b_disk := False\<rparr>),
    disk := (disk s)\<lparr>d_used_idx := d_used_idx (disk s) + 1\<rparr>,
    vio_log := vio_log s @ [(0x064, R_read 0x060 s AND 3)]\<rparr>)"
proof -
  let ?h = "held VdiskLock (s\<lparr>vio_log := vio_log s @ [(0x064, R_read 0x060 s AND 3)]\<rparr>)"
  have "(2 :: nat) ^ 16 = Suc (Suc 65534)" by simp
  then have "virtio_intr_loop (2 ^ 16) ?h = Ret () (?h\<lparr>
    procs := woken (Some (ChBuf b)) (cpu_proc (mycpu s)) (procs s),
    bufs := (bufs s)(b := (bufs s b)\<lparr>b_disk := False\<rparr>),
    disk := (disk s)\<lparr>d_used_idx := d_used_idx (disk s) + 1\<rparr>\<rparr>)"
    using virtio_intr_one [of ?h _ b 65534] assms by (simp add: one_done_def Let_def)
  then show ?thesis
    using assms by (simp add: virtio_disk_intr_def Let_def R_read_def R_write_def)
qed

lemma virtio_wait_eq:
  assumes "calm p s" "b_disk (bufs s b)"
    and dev: "blkdev s (disk s) (\<lambda>b. b_data (bufs s b)) (image s) = (d, data, img)" "one_done b d"
  shows "virtio_wait b (held VdiskLock s) = Ret () (held VdiskLock (s\<lparr>
    procs := woken (Some (ChBuf b)) (Some p) (procs s),
    bufs := (\<lambda>c. (bufs s c)\<lparr>b_data := data c\<rparr>)(b := (bufs s b)\<lparr>b_data := data b, b_disk := False\<rparr>),
    disk := d\<lparr>d_used_idx := d_used_idx d + 1\<rparr>, image := img, hist := hist s @ [img],
    vio_log := vio_log s @ [(0x064, R_read 0x060 s AND 3)]\<rparr>))"
proof -
  note c = calmD [OF assms(1)]
  have p: "p < NPROC" "p_state (procs s p) = RUNNING" "p_chan (procs s p) = None"
    "satp s (tp s) = MAKE_SATP (p_kpagetable (procs s p))"
    using assms(1) by (auto simp: calm_def)
  let ?t = "s\<lparr>satp := (satp s)(tp s := MAKE_SATP (kernel_pagetable s)),
      procs := (procs s)(p := (procs s p)\<lparr>p_chan := Some (ChBuf b), p_state := SLEEPING\<rparr>),
      bufs := \<lambda>c. (bufs s c)\<lparr>b_data := data c\<rparr>, disk := d, image := img, hist := hist s @ [img]\<rparr>"
  let ?ps = "woken (Some (ChBuf b)) None (procs ?t)"
  let ?u = "?t\<lparr>procs := ?ps, bufs := (bufs ?t)(b := (bufs ?t b)\<lparr>b_disk := False\<rparr>),
      disk := d\<lparr>d_used_idx := d_used_idx d + 1\<rparr>, vio_log := vio_log s @ [(0x064, R_read 0x060 s AND 3)]\<rparr>"
  have run: "device_run (set_cpu_proc None (kvminithart
      (s\<lparr>procs := (procs s)(p := (procs s p)\<lparr>p_chan := Some (ChBuf b), p_state := SLEEPING\<rparr>)\<rparr>))) = set_cpu_proc None ?t"
    using dev(1) by (simp add: device_run_def kvminithart_def w_satp_def upd_order)
  have intr: "virtio_disk_intr (set_cpu_proc None ?t) = Ret () (set_cpu_proc None ?u)"
    using virtio_disk_intr_eq [of "set_cpu_proc None ?t" b] c dev(2) by (simp add: procs_free_def R_read_def)
  have ps: "?ps p = (procs s p)\<lparr>p_chan := Some (ChBuf b), p_state := RUNNABLE\<rparr>"
    "?ps(p := procs s p) = woken (Some (ChBuf b)) (Some p) (procs s)"
    using p by (auto simp: woken_upto_def fun_eq_iff)
  have same: "(procs s p)\<lparr>p_state := RUNNING, p_chan := None\<rparr> = procs s p"
    "(satp s)(tp s := MAKE_SATP (p_kpagetable (procs s p))) = satp s"
    using p by (auto simp: fun_eq_iff)
  show ?thesis
    using c ps same assms(2) by (simp add: virtio_wait_def sleep_enter_def upd_proc_def run intr upd_order)
qed

section \<open>Descriptors in closed form\<close>

lemma alloc_desc_from_eq:
  assumes "j \<le> i" "i < j + k" "d_free (disk s) i" "\<And>m. j \<le> m \<Longrightarrow> m < i \<Longrightarrow> \<not> d_free (disk s) m"
  shows "alloc_desc_from k j s = (Some i, s\<lparr>disk := (disk s)\<lparr>d_free := (d_free (disk s))(i := False)\<rparr>\<rparr>)"
  using assms
proof (induction k arbitrary: j)
  case 0
  show ?case using "0.prems"(1,2) by simp
next
  case (Suc k)
  show ?case
  proof (cases "i = j")
    case True
    show ?thesis using Suc.prems(3) unfolding True by (simp add: fun_upd_def)
  next
    case False
    then have "\<not> d_free (disk s) j" "Suc j \<le> i" using Suc.prems(1,4) by auto
    then show ?thesis using Suc.prems(2-4) Suc.IH [of "Suc j"] by simp
  qed
qed

lemma alloc_desc_eq:
  assumes "i < NUM" "d_free (disk s) i" "\<And>m. m < i \<Longrightarrow> \<not> d_free (disk s) m"
  shows "alloc_desc s = (Some i, s\<lparr>disk := (disk s)\<lparr>d_free := (d_free (disk s))(i := False)\<rparr>\<rparr>)"
  unfolding alloc_desc_def by (rule alloc_desc_from_eq) (use assms in auto)

lemma alloc3_desc_eq:
  assumes "\<forall>i < NUM. d_free (disk s) i"
  shows "alloc3_desc s = Ret (Some (0, 1, 2))
    (s\<lparr>disk := (disk s)\<lparr>d_free := (d_free (disk s))(0 := False, 1 := False, 2 := False)\<rparr>\<rparr>)"
proof -
  let ?s1 = "s\<lparr>disk := (disk s)\<lparr>d_free := (d_free (disk s))(0 := False)\<rparr>\<rparr>"
  let ?s2 = "s\<lparr>disk := (disk s)\<lparr>d_free := (d_free (disk s))(0 := False, 1 := False)\<rparr>\<rparr>"
  have "alloc_desc s = (Some 0, ?s1)" by (rule alloc_desc_eq) (use assms in auto)
  moreover have "alloc_desc ?s1 = (Some 1, ?s2)"
    by (subst alloc_desc_eq [where i = 1]) (use assms in auto)
  moreover have "alloc_desc ?s2 = (Some 2, s\<lparr>disk := (disk s)\<lparr>d_free := (d_free (disk s))(0 := False, 1 := False, 2 := False)\<rparr>\<rparr>)"
    by (subst alloc_desc_eq [where i = 2]) (use assms in \<open>auto simp: less_2_cases_iff\<close>)
  ultimately show ?thesis by (simp add: alloc3_desc_def)
qed

lemma free_desc_eq:
  assumes "quiet s" "procs_free s" "i < NUM" "\<not> d_free (disk s) i"
  shows "free_desc i s = Ret () (s\<lparr>procs := woken (Some ChDiskFree) (cpu_proc (mycpu s)) (procs s),
    disk := (disk s)\<lparr>d_desc := (d_desc (disk s))(i := null_desc), d_free := (d_free (disk s))(i := True)\<rparr>\<rparr>)"
  using assms by (simp add: free_desc_def upd_order)

lemma woken_upto_idem [simp]: "woken_upto n ch me (woken_upto n ch me ps) = woken_upto n ch me ps"
  by (auto simp: woken_upto_def fun_eq_iff)

lemma unat_of_small [simp]: "i < NUM \<Longrightarrow> unat (of_nat i :: uint16) = i"
  by (simp add: unat_of_nat)

lemma free_chain_eq:
  assumes "quiet s" "procs_free s" "i < NUM" "j < NUM" "k < NUM" "i \<noteq> j" "i \<noteq> k" "j \<noteq> k"
    and "\<not> d_free (disk s) i" "\<not> d_free (disk s) j" "\<not> d_free (disk s) k"
    and "v_flags (d_desc (disk s) i) AND 1 \<noteq> 0" "v_next (d_desc (disk s) i) = of_nat j"
    and "v_flags (d_desc (disk s) j) AND 1 \<noteq> 0" "v_next (d_desc (disk s) j) = of_nat k"
    and "v_flags (d_desc (disk s) k) AND 1 = 0"
  shows "free_chain i s = Ret () (s\<lparr>procs := woken (Some ChDiskFree) (cpu_proc (mycpu s)) (procs s),
    disk := (disk s)\<lparr>d_desc := (d_desc (disk s))(i := null_desc, j := null_desc, k := null_desc),
      d_free := (d_free (disk s))(i := True, j := True, k := True)\<rparr>\<rparr>)"
proof -
  have "Suc NUM = Suc (Suc (Suc 6))" by simp
  then show ?thesis
    unfolding free_chain_def using assms
    by (simp only: free_chain_fuel.simps Let_def) (simp add: free_desc_eq upd_order unat_of_nat)
qed

section \<open>Requests and the device\<close>

text \<open>
  What the driver relies on: a device that finds one new entry in the available ring, the
  head of a chain of a request header, a data buffer and a status byte, transfers the data,
  stores the status 0 and puts the head into the used ring.
\<close>

definition chain_ok :: "vdisk \<Rightarrow> nat \<Rightarrow> nat \<Rightarrow> bool" where
  "chain_ok d i b \<longleftrightarrow>
     (let j = unat (v_next (d_desc d i)); k = unat (v_next (d_desc d j))
      in v_addr (d_desc d i) = DmaOps i \<and> v_flags (d_desc d i) AND 1 \<noteq> 0 \<and>
         v_addr (d_desc d j) = DmaData b \<and> v_len (d_desc d j) = 1024 \<and> v_flags (d_desc d j) AND 1 \<noteq> 0 \<and>
         (r_type (d_ops d i) = 0 \<and> v_flags (d_desc d j) AND 2 \<noteq> 0 \<or>
          r_type (d_ops d i) = 1 \<and> v_flags (d_desc d j) AND 2 = 0) \<and>
         v_addr (d_desc d k) = DmaStatus i \<and> v_flags (d_desc d k) AND 2 \<noteq> 0)"

definition completed :: "vdisk \<Rightarrow> nat \<Rightarrow> vdisk" where
  "completed d i = d\<lparr>d_used_ring := (d_used_ring d)(unat (d_used_dev_idx d) mod NUM := of_nat i),
     d_used_dev_idx := d_used_dev_idx d + 1, d_info_status := (d_info_status d)(i := 0)\<rparr>"

definition serves ::
  "(vdisk \<Rightarrow> (nat \<Rightarrow> uint8 list) \<Rightarrow> image \<Rightarrow> vdisk \<times> (nat \<Rightarrow> uint8 list) \<times> image) \<Rightarrow> bool" where
  "serves dev \<longleftrightarrow> (\<forall>d data img b.
     let i = unat (d_avail_ring d (unat (d_used_dev_idx d) mod NUM)); pos = r_sector (d_ops d i) * 512
     in d_avail_idx d = d_used_dev_idx d + 1 \<and> chain_ok d i b \<longrightarrow>
        dev d data img =
          (if r_type (d_ops d i) = 1 then (completed d i, data, put_bytes img pos (data b))
           else (completed d i, data(b := bytes_at img pos 1024), img)))"

text \<open>No request is outstanding.\<close>

definition vd_idle :: "vdisk \<Rightarrow> bool" where
  "vd_idle d \<longleftrightarrow> (\<forall>i < NUM. d_free d i) \<and> d_avail_idx d = d_used_dev_idx d \<and> d_used_idx d = d_used_dev_idx d"

text \<open>Block \<open>bn\<close> of the disk.\<close>

definition blk_read :: "image \<Rightarrow> uint32 \<Rightarrow> uint8 list" where
  "blk_read img bn = bytes_at img (ucast bn * 1024) BSIZE"

definition blk_write :: "image \<Rightarrow> uint32 \<Rightarrow> uint8 list \<Rightarrow> image" where
  "blk_write img bn bs = put_bytes img (ucast bn * 1024) bs"

lemma sector_pos:
  assumes "unat (bn :: uint32) < 2 ^ 31"
  shows "(ucast (bn * 2) :: uint64) * 512 = ucast bn * 1024"
proof -
  have "unat (bn * 2) = unat bn * 2" using assms by (simp add: unat_word_ariths)
  then have "(ucast (bn * 2) :: uint64) = ucast bn * 2"
    by (metis of_nat_unat of_nat_mult of_nat_numeral)
  then show ?thesis by simp
qed

lemma format_desc_facts:
  fixes bn :: uint32 and b :: nat and wr :: bool and d :: vdisk
  defines "d' \<equiv> format_desc b wr (ucast (bn * 2)) (0, 1, 2) d"
  shows "chain_ok d' 0 b" "unat (d_avail_ring d' (unat (d_avail_idx d) mod NUM)) = 0"
    "d_avail_idx d' = d_avail_idx d + 1" "d_used_dev_idx d' = d_used_dev_idx d" "d_used_idx d' = d_used_idx d"
    "r_type (d_ops d' 0) = (if wr then 1 else 0)" "r_sector (d_ops d' 0) = ucast (bn * 2)"
    "d_info_b d' 0 = Some b" "d_free d' = d_free d"
    "d_desc d' 0 = \<lparr>v_addr = DmaOps 0, v_len = 16, v_flags = 1, v_next = 1\<rparr>"
    "d_desc d' 1 = \<lparr>v_addr = DmaData b, v_len = 1024, v_flags = (if wr then 0 else 2) OR 1, v_next = 2\<rparr>"
    "d_desc d' 2 = \<lparr>v_addr = DmaStatus 0, v_len = 1, v_flags = 2, v_next = 0\<rparr>"
  by (simp_all add: d'_def format_desc_def chain_ok_def Let_def)

lemma virtio_disk_rw_eq:
  assumes "calm p s" "vd_idle (disk s)" "serves (blkdev s)" "unat (b_blockno (bufs s b)) < 2 ^ 31"
  defines "bn \<equiv> b_blockno (bufs s b)"
  shows "\<exists>ps d l. virtio_disk_rw b wr s = Ret () (s\<lparr>procs := ps,
      bufs := (bufs s)(b := (bufs s b)\<lparr>b_data := (if wr then b_data (bufs s b) else blk_read (image s) bn), b_disk := False\<rparr>),
      disk := d, image := (if wr then blk_write (image s) bn (b_data (bufs s b)) else image s),
      hist := hist s @ [if wr then blk_write (image s) bn (b_data (bufs s b)) else image s], vio_log := l\<rparr>) \<and>
    others_woken p (procs s) ps \<and> vd_idle d"
proof -
  note c = calmD [OF assms(1)]
  have idle: "\<forall>i < NUM. d_free (disk s) i" "d_avail_idx (disk s) = d_used_dev_idx (disk s)"
    "d_used_idx (disk s) = d_used_dev_idx (disk s)" using assms(2) by (auto simp: vd_idle_def)
  let ?d0 = "(disk s)\<lparr>d_free := (d_free (disk s))(0 := False, 1 := False, 2 := False)\<rparr>"
  let ?d1 = "format_desc b wr (ucast (bn * 2)) (0, 1, 2) ?d0"
  let ?s1 = "s\<lparr>bufs := (bufs s)(b := (bufs s b)\<lparr>b_disk := True\<rparr>), disk := ?d1, vio_log := vio_log s @ [(0x050, 0)]\<rparr>"
  note f = format_desc_facts [of b wr bn ?d0]
  have alloc: "alloc3_desc (held VdiskLock s) = Ret (Some (0, 1, 2)) (held VdiskLock (s\<lparr>disk := ?d0\<rparr>))"
    using alloc3_desc_eq [of "held VdiskLock s"] idle(1) by simp
  let ?pos = "ucast bn * 1024 :: uint64"
  let ?data = "\<lambda>b. b_data (bufs s b)"
  have data: "(\<lambda>c. b_data (bufs ?s1 c)) = ?data" by auto
  have dev: "blkdev s ?d1 ?data (image s) = (completed ?d1 0,
      if wr then ?data else ?data(b := blk_read (image s) bn),
      if wr then blk_write (image s) bn (?data b) else image s)"
    using assms(3,4) f(1-7) idle(2) sector_pos [of bn]
    unfolding serves_def Let_def by (auto simp: bn_def blk_read_def blk_write_def dest!: spec [of _ ?d1])
  have fin: "one_done b (completed ?d1 0)"
    using f(2,4,5,8) idle(2,3) by (simp add: one_done_def completed_def Let_def)
  let ?dat = "if wr then ?data else ?data(b := blk_read (image s) bn)"
  let ?img = "if wr then blk_write (image s) bn (?data b) else image s"
  let ?d2 = "(completed ?d1 0)\<lparr>d_used_idx := d_used_idx (disk s) + 1\<rparr>"
  let ?s2 = "s\<lparr>procs := woken (Some (ChBuf b)) (Some p) (procs s),
      bufs := (bufs s)(b := (bufs s b)\<lparr>b_data := ?dat b, b_disk := False\<rparr>),
      disk := ?d2, image := ?img, hist := hist s @ [?img],
      vio_log := vio_log s @ [(0x050, 0), (0x064, R_read 0x060 ?s1 AND 3)]\<rparr>"
  have "(\<lambda>c. (bufs ?s1 c)\<lparr>b_data := ?dat c\<rparr>)(b := (bufs ?s1 b)\<lparr>b_data := ?dat b, b_disk := False\<rparr>) = bufs ?s2"
    by (auto simp: fun_eq_iff)
  then have wait: "virtio_wait b (held VdiskLock ?s1) = Ret () (held VdiskLock ?s2)"
    using virtio_wait_eq [of p ?s1 b] assms(1) dev fin f(5) data by (simp add: upd_order completed_def)
  let ?d3 = "?d2\<lparr>d_info_b := (d_info_b ?d2)(0 := None)\<rparr>"
  let ?d4 = "?d3\<lparr>d_desc := (d_desc ?d3)(0 := null_desc, 1 := null_desc, 2 := null_desc),
    d_free := (d_free ?d3)(0 := True, 1 := True, 2 := True)\<rparr>"
  let ?ps = "woken (Some ChDiskFree) (Some p) (procs ?s2)"
  have chain: "free_chain 0 (held VdiskLock (?s2\<lparr>disk := ?d3\<rparr>)) = Ret () (held VdiskLock (?s2\<lparr>procs := ?ps, disk := ?d4\<rparr>))"
    using free_chain_eq [of "held VdiskLock (?s2\<lparr>disk := ?d3\<rparr>)" 0 1 2] c f(9-12)
    by (simp add: upd_order completed_def)
  have "virtio_disk_rw b wr s = Ret () (?s2\<lparr>procs := ?ps, disk := ?d4\<rparr>)"
    using c alloc wait chain
    by (simp add: virtio_disk_rw_def Let_def upd_buf_def R_write_def upd_order flip: bn_def)
  moreover have "others_woken p (procs s) ?ps"
    using others_woken_trans [OF others_woken_woken others_woken_woken] by simp
  moreover have "vd_idle ?d4"
    using idle f(3-5,9) by (auto simp: vd_idle_def completed_def)
  ultimately show ?thesis by (intro exI [of _ ?ps] exI [of _ ?d4]) (auto simp: upd_order)
qed

lemma length_blk_read [simp]: "length (blk_read img bn) = BSIZE"
  by (simp add: blk_read_def bytes_at_def)

lemma blk_pos:
  fixes bn bn' :: uint32 and j :: nat
  assumes "j < 1024"
  shows "unat (ucast bn * 1024 + of_nat j - ucast bn' * 1024 :: uint64) < 1024 \<longleftrightarrow> bn = bn'"
proof -
  let ?a = "ucast bn * 1024 + of_nat j :: uint64" and ?b = "ucast bn' * 1024 :: uint64"
  have a: "unat ?a = unat bn * 1024 + j"
    using assms unsigned_less [of bn, where ?'a = nat] by (simp add: unat_word_ariths unat_of_nat)
  have b: "unat ?b = unat bn' * 1024"
    using unsigned_less [of bn', where ?'a = nat] by (simp add: unat_word_ariths)
  have lt: "unat bn < 2 ^ 32" "unat bn' < 2 ^ 32" using unsigned_less [of bn, where ?'a = nat] unsigned_less [of bn', where ?'a = nat] by simp_all
  have "unat (?a - ?b) = (if unat ?b \<le> unat ?a then unat ?a - unat ?b else unat ?a + 2 ^ 64 - unat ?b)"
    by (simp add: unat_sub_if_size word_size)
  also have "\<dots> = (if unat bn' * 1024 \<le> unat bn * 1024 + j then unat bn * 1024 + j - unat bn' * 1024
      else unat bn * 1024 + j + 2 ^ 64 - unat bn' * 1024)"
    by (simp only: a b)
  finally show ?thesis
    using lt assms by (auto simp: word_unat_eq_iff split: if_splits)
qed

lemma blk_read_write:
  assumes "length bs = BSIZE"
  shows "blk_read (blk_write img bn bs) bn' = (if bn = bn' then bs else blk_read img bn')"
proof (rule nth_equalityI)
  fix j assume "j < length (blk_read (blk_write img bn bs) bn')"
  then have j: "j < 1024" by simp
  show "blk_read (blk_write img bn bs) bn' ! j = (if bn = bn' then bs else blk_read img bn') ! j"
    using j blk_pos [OF j, of bn' bn] assms
    by (auto simp: blk_read_def blk_write_def bytes_at_def put_bytes_def unat_of_nat)
qed (use assms in simp)

section \<open>Property\<close>

text \<open>
  C13. \<open>virtio_disk_rw\<close> returns, for a device that serves requests as documented. Reading
  fills the buffer with the contents of its block and leaves the disk alone; writing stores
  the buffer in its block and leaves every other block alone. The driver is idle again, all
  descriptors are free, the process runs as before with no lock held, and no process but
  sleeping ones has changed.
\<close>

theorem virtio_disk_rw_correct:
  assumes "calm p s" "vd_idle (disk s)" "serves (blkdev s)" "unat (b_blockno (bufs s b)) < 2 ^ 31"
    and "length (b_data (bufs s b)) = BSIZE"
  shows "\<exists>t. virtio_disk_rw b wr s = Ret () t \<and> calm p t \<and> vd_idle (disk t) \<and>
    others_woken p (procs s) (procs t) \<and>
    (\<forall>c. c \<noteq> b \<longrightarrow> bufs t c = bufs s c) \<and> \<not> b_disk (bufs t b) \<and> b_blockno (bufs t b) = b_blockno (bufs s b) \<and>
    b_data (bufs t b) = (if wr then b_data (bufs s b) else blk_read (image s) (b_blockno (bufs s b))) \<and>
    (\<forall>bn. blk_read (image t) bn =
       (if wr \<and> bn = b_blockno (bufs s b) then b_data (bufs s b) else blk_read (image s) bn))"
proof -
  obtain ps d l where t: "virtio_disk_rw b wr s = Ret () (s\<lparr>procs := ps,
      bufs := (bufs s)(b := (bufs s b)\<lparr>b_data := (if wr then b_data (bufs s b) else blk_read (image s) (b_blockno (bufs s b))),
        b_disk := False\<rparr>),
      disk := d, image := (if wr then blk_write (image s) (b_blockno (bufs s b)) (b_data (bufs s b)) else image s),
      hist := hist s @ [if wr then blk_write (image s) (b_blockno (bufs s b)) (b_data (bufs s b)) else image s],
      vio_log := l\<rparr>)" (is "_ = Ret () ?t")
    and ps: "others_woken p (procs s) ps" "vd_idle d"
    using virtio_disk_rw_eq [OF assms(1-4), of wr] by blast
  have "calm p ?t" using calm_procs [OF assms(1) ps(1)] by simp
  then show ?thesis using t ps assms(5) by (intro exI [of _ ?t]) (auto simp: blk_read_write)
qed

text \<open>A device that serves requests, and a state that uses it.\<close>

definition virtio_blk :: "vdisk \<Rightarrow> (nat \<Rightarrow> uint8 list) \<Rightarrow> image \<Rightarrow> vdisk \<times> (nat \<Rightarrow> uint8 list) \<times> image" where
  "virtio_blk d data img =
     (let i = unat (d_avail_ring d (unat (d_used_dev_idx d) mod NUM));
          pos = r_sector (d_ops d i) * 512
      in case v_addr (d_desc d (unat (v_next (d_desc d i)))) of
           DmaData b \<Rightarrow>
             if r_type (d_ops d i) = 1 then (completed d i, data, put_bytes img pos (data b))
             else (completed d i, data(b := bytes_at img pos 1024), img)
         | _ \<Rightarrow> (d, data, img))"

lemma serves_virtio_blk: "serves virtio_blk"
  by (auto simp: serves_def virtio_blk_def chain_ok_def Let_def)

definition idle_disk :: vdisk where
  "idle_disk = \<lparr>d_desc = \<lambda>_. null_desc, d_avail_ring = \<lambda>_. 0, d_avail_idx = 0, d_used_ring = \<lambda>_. 0,
     d_used_dev_idx = 0, d_free = \<lambda>_. True, d_used_idx = 0, d_info_b = \<lambda>_. None, d_info_status = \<lambda>_. 0,
     d_ops = \<lambda>_. \<lparr>r_type = 0, r_reserved = 0, r_sector = 0\<rparr>\<rparr>"

definition empty_buf :: buf where
  "empty_buf = \<lparr>b_valid = False, b_disk = False, b_dev = 0, b_blockno = 0, b_refcnt = 0, b_prev = 0, b_next = 0,
     b_data = replicate 1024 0\<rparr>"

definition disk_state :: blk_state where
  "disk_state = sleep_state.extend (one_sleeper\<lparr>satp := \<lambda>_. MAKE_SATP 0\<rparr>)
     \<lparr>bufs = (\<lambda>_. empty_buf)(3 := empty_buf\<lparr>b_blockno := 7\<rparr>), disk = idle_disk, image = \<lambda>_. 5, hist = [], vio_log = [],
      vio_read = \<lambda>_ _. 0, blkdev = virtio_blk, vq_pages = (0, 0, 0)\<rparr>"

lemma disk_state_facts:
  "calm 0 disk_state" "vd_idle (disk disk_state)" "serves (blkdev disk_state)"
  "bufs disk_state 3 = empty_buf\<lparr>b_blockno := 7\<rparr>" "image disk_state = (\<lambda>_. 5)"
  by (simp_all add: disk_state_def sleep_state.defs one_sleeper_def cons_state.defs two_procs_def proc_state.defs
      calm_def quiet_def hart_ok_def lock_free_def machine_defs SSTATUS_SIE_def unused_proc_def vd_idle_def
      idle_disk_def serves_virtio_blk)

theorem virtio_disk_rw_correct_witness:
  "\<exists>t. virtio_disk_rw 3 False disk_state = Ret () t \<and> b_data (bufs t 3) = replicate 1024 5 \<and> vd_idle (disk t)"
proof -
  have "blk_read (\<lambda>_. 5) 7 = replicate 1024 5"
    by (intro nth_equalityI) (simp_all add: blk_read_def bytes_at_def)
  then show ?thesis
    using virtio_disk_rw_correct [OF disk_state_facts(1-3), of 3 False]
    by (auto simp: disk_state_facts(4,5) empty_buf_def)
qed

end
