(* ===== verification/Bio.thy ===== *)
theory Bio
  imports Virtio
begin

text \<open>
  The buffer cache: \<open>src/kernel/bio.c\<close>. The LRU list is kept in the \<open>b_prev\<close> and
  \<open>b_next\<close> fields, with \<open>NBUF\<close> for \<open>bcache.head\<close>.
\<close>

section \<open>Operations\<close>

definition bhead :: nat where [simp]: "bhead = 30"

text \<open>\<open>b->next = bcache.head.next\<close> and the three assignments that follow it: insertion of \<open>b\<close>
  at the front of the list.\<close>

definition list_push :: "nat \<Rightarrow> 'x blk_state_scheme \<Rightarrow> 'x blk_state_scheme" where
  "list_push b s =
     (let s = upd_buf b (\<lambda>x. x\<lparr>b_next := b_next (bufs s bhead), b_prev := bhead\<rparr>) s;
          s = upd_buf (b_next (bufs s bhead)) (b_prev_update (\<lambda>_. b)) s
      in upd_buf bhead (b_next_update (\<lambda>_. b)) s)"

definition list_remove :: "nat \<Rightarrow> 'x blk_state_scheme \<Rightarrow> 'x blk_state_scheme" where
  "list_remove b s =
     (let s = upd_buf (b_next (bufs s b)) (b_prev_update (\<lambda>_. b_prev (bufs s b))) s
      in upd_buf (b_prev (bufs s b)) (b_next_update (\<lambda>_. b_next (bufs s b))) s)"

definition binit :: "'x blk_state_scheme \<Rightarrow> (unit, 'x blk_state_scheme) outcome" where
  "binit s =
     (let s = initlock BcacheLock ''bcache'' s;
          s = upd_buf bhead (\<lambda>x. x\<lparr>b_prev := bhead, b_next := bhead\<rparr>) s
      in forn NBUF 0 (\<lambda>b s. Ret () (list_push b (initsleeplock (BufSL b) ''buffer'' s))) s)"

text \<open>The two searches of \<open>bget\<close> follow the list; they end after at most \<open>NBUF\<close> steps on a
  well-formed list, and \<open>None\<close> in the second position stands for a longer one.\<close>

fun find_cached :: "nat \<Rightarrow> (nat \<Rightarrow> buf) \<Rightarrow> uint32 \<Rightarrow> uint32 \<Rightarrow> nat \<Rightarrow> nat option option" where
  "find_cached 0 bs dev blockno b = None"
| "find_cached (Suc k) bs dev blockno b =
     (if b = bhead then Some None
      else if b_dev (bs b) = dev \<and> b_blockno (bs b) = blockno then Some (Some b)
      else find_cached k bs dev blockno (b_next (bs b)))"

fun find_unused :: "nat \<Rightarrow> (nat \<Rightarrow> buf) \<Rightarrow> nat \<Rightarrow> nat option option" where
  "find_unused 0 bs b = None"
| "find_unused (Suc k) bs b =
     (if b = bhead then Some None
      else if b_refcnt (bs b) = 0 then Some (Some b)
      else find_unused k bs (b_prev (bs b)))"

definition bget :: "uint32 \<Rightarrow> uint32 \<Rightarrow> 'x blk_state_scheme \<Rightarrow> (nat, 'x blk_state_scheme) outcome" where
  "bget dev blockno s =
     bnd (acquire BcacheLock s) (\<lambda>_ s.
     case find_cached (Suc NBUF) (bufs s) dev blockno (b_next (bufs s bhead)) of
       None \<Rightarrow> NoFuel
     | Some (Some b) \<Rightarrow>
         let s = upd_buf b (\<lambda>x. x\<lparr>b_refcnt := b_refcnt x + 1\<rparr>) s
         in bnd (release BcacheLock s) (\<lambda>_ s. bnd (acquiresleep (BufSL b) s) (\<lambda>_ s. Ret b s))
     | Some None \<Rightarrow>
         (case find_unused (Suc NBUF) (bufs s) (b_prev (bufs s bhead)) of
            None \<Rightarrow> NoFuel
          | Some None \<Rightarrow> Panic ''bget: no buffers''
          | Some (Some b) \<Rightarrow>
              let s = upd_buf b (\<lambda>x. x\<lparr>b_dev := dev, b_blockno := blockno, b_valid := False, b_refcnt := 1\<rparr>) s
              in bnd (release BcacheLock s) (\<lambda>_ s. bnd (acquiresleep (BufSL b) s) (\<lambda>_ s. Ret b s))))"

definition bread :: "uint32 \<Rightarrow> uint32 \<Rightarrow> 'x blk_state_scheme \<Rightarrow> (nat, 'x blk_state_scheme) outcome" where
  "bread dev blockno s =
     bnd (bget dev blockno s) (\<lambda>b s.
     if \<not> b_valid (bufs s b) then
       bnd (virtio_disk_rw b False s) (\<lambda>_ s. Ret b (upd_buf b (b_valid_update (\<lambda>_. True)) s))
     else Ret b s)"

definition bwrite :: "nat \<Rightarrow> 'x blk_state_scheme \<Rightarrow> (unit, 'x blk_state_scheme) outcome" where
  "bwrite b s =
     bnd (holdingsleep (BufSL b) s) (\<lambda>h s.
     if \<not> h then Panic ''bwrite'' else virtio_disk_rw b True s)"

definition brelse :: "nat \<Rightarrow> 'x blk_state_scheme \<Rightarrow> (unit, 'x blk_state_scheme) outcome" where
  "brelse b s =
     bnd (holdingsleep (BufSL b) s) (\<lambda>h s.
     if \<not> h then Panic ''brelse''
     else
       bnd (releasesleep (BufSL b) s) (\<lambda>_ s.
       bnd (acquire BcacheLock s) (\<lambda>_ s.
       let s = upd_buf b (\<lambda>x. x\<lparr>b_refcnt := b_refcnt x - 1\<rparr>) s;
           s = (if b_refcnt (bufs s b) = 0 then list_push b (list_remove b s) else s)
       in release BcacheLock s)))"

definition bpin :: "nat \<Rightarrow> 'x blk_state_scheme \<Rightarrow> (unit, 'x blk_state_scheme) outcome" where
  "bpin b s =
     bnd (acquire BcacheLock s) (\<lambda>_ s.
     release BcacheLock (upd_buf b (\<lambda>x. x\<lparr>b_refcnt := b_refcnt x + 1\<rparr>) s))"

definition bunpin :: "nat \<Rightarrow> 'x blk_state_scheme \<Rightarrow> (unit, 'x blk_state_scheme) outcome" where
  "bunpin b s =
     bnd (acquire BcacheLock s) (\<lambda>_ s.
     release BcacheLock (upd_buf b (\<lambda>x. x\<lparr>b_refcnt := b_refcnt x - 1\<rparr>) s))"

section \<open>The list\<close>

text \<open>Successive elements of a walk point at each other. \<open>lru bs xs\<close>: the list runs through all
  buffers, in the order \<open>xs\<close>, and back to its head.\<close>

fun dll :: "(nat \<Rightarrow> nat) \<Rightarrow> (nat \<Rightarrow> nat) \<Rightarrow> nat list \<Rightarrow> bool" where
  "dll nx pv (x # y # zs) \<longleftrightarrow> nx x = y \<and> pv y = x \<and> dll nx pv (y # zs)"
| "dll nx pv zs \<longleftrightarrow> True"

definition lru :: "(nat \<Rightarrow> buf) \<Rightarrow> nat list \<Rightarrow> bool" where
  "lru bs xs \<longleftrightarrow> distinct xs \<and> set xs = {..<NBUF} \<and>
     dll (\<lambda>b. b_next (bs b)) (\<lambda>b. b_prev (bs b)) (bhead # xs @ [bhead])"

lemma dll_append: "dll nx pv (as @ x # cs) \<longleftrightarrow> dll nx pv (as @ [x]) \<and> dll nx pv (x # cs)"
proof (induction as)
  case (Cons a as)
  then show ?case by (cases as) auto
qed simp

lemma dll_cong:
  assumes "\<And>x. x \<in> set (butlast zs) \<Longrightarrow> nx x = nx' x" "\<And>x. x \<in> set (tl zs) \<Longrightarrow> pv x = pv' x"
  shows "dll nx pv zs \<longleftrightarrow> dll nx' pv' zs"
  using assms
proof (induction nx pv zs rule: dll.induct)
  case (1 nx pv x y zs)
  have "dll nx pv (y # zs) \<longleftrightarrow> dll nx' pv' (y # zs)"
    by (rule "1.IH") (use "1.prems" in \<open>auto dest: list.set_sel(2)\<close>)
  then show ?case using "1.prems"(1) [of x] "1.prems"(2) [of y] by simp
qed simp_all

lemma dll_join:
  assumes "dll nx pv (ls @ [p])" "dll nx pv (n # rs)" "p \<notin> set ls" "n \<notin> set (tl (ls @ [p]))"
    "p \<notin> set (butlast (n # rs))" "n \<notin> set rs"
  shows "dll (nx(p := n)) (pv(n := p)) (ls @ p # n # rs)"
proof -
  have "dll (nx(p := n)) (pv(n := p)) (ls @ [p]) \<longleftrightarrow> dll nx pv (ls @ [p])"
  proof (rule dll_cong)
    show "x \<in> set (butlast (ls @ [p])) \<Longrightarrow> (nx(p := n)) x = nx x" for x using assms(3) by auto
    show "x \<in> set (tl (ls @ [p])) \<Longrightarrow> (pv(n := p)) x = pv x" for x using assms(4) by (cases "x = n") simp_all
  qed
  moreover have "dll (nx(p := n)) (pv(n := p)) (n # rs) \<longleftrightarrow> dll nx pv (n # rs)"
  proof (rule dll_cong)
    show "x \<in> set (butlast (n # rs)) \<Longrightarrow> (nx(p := n)) x = nx x" for x using assms(5) by (cases "x = p") simp_all
    show "x \<in> set (tl (n # rs)) \<Longrightarrow> (pv(n := p)) x = pv x" for x using assms(6) by auto
  qed
  ultimately show ?thesis using assms(1,2) by (simp add: dll_append [of _ _ ls p "n # rs"])
qed

lemma dll_push:
  assumes "dll nx pv (h # ys @ [h])" "b \<notin> set ys" "b \<noteq> h" "distinct ys" "h \<notin> set ys"
  shows "dll (nx(b := nx h, h := b)) (pv(b := h, nx h := b)) (h # b # ys @ [h])"
proof -
  obtain y zs where y: "ys @ [h] = y # zs" by (cases "ys @ [h]") auto
  have nh: "nx h = y" and d: "dll nx pv (y # zs)" using assms(1) y by simp_all
  have in_y: "set (y # zs) = insert h (set ys)" using y [symmetric] by simp
  have bl: "butlast (y # zs) = ys" using y [symmetric] by simp
  have "y \<notin> set zs" using y assms(4,5) by (cases ys) auto
  moreover have "dll (nx(b := y, h := b)) (pv(b := h, y := b)) (y # zs) \<longleftrightarrow> dll nx pv (y # zs)"
  proof (rule dll_cong)
    show "x \<in> set (butlast (y # zs)) \<Longrightarrow> (nx(b := y, h := b)) x = nx x" for x using assms(2,5) unfolding bl by auto
    show "x \<in> set (tl (y # zs)) \<Longrightarrow> (pv(b := h, y := b)) x = pv x" for x
      using assms(2,3) in_y \<open>y \<notin> set zs\<close> by auto
  qed
  moreover have "b \<noteq> y" using in_y assms(2,3) by auto
  ultimately show ?thesis using assms(3) d by (simp add: nh y)
qed

lemma dll_first: "dll nx pv (h # ys @ [h]) \<Longrightarrow> nx h = hd (ys @ [h])"
  by (cases ys) auto

lemma dll_snoc:
  assumes "xs \<noteq> []"
  shows "dll nx pv (xs @ [y]) \<longleftrightarrow> dll nx pv xs \<and> nx (last xs) = y \<and> pv y = last xs"
proof -
  have e: "xs @ [y] = butlast xs @ last xs # [y]" using assms by simp
  show ?thesis unfolding e by (subst dll_append) (simp add: assms)
qed

lemma dll_last: "dll nx pv (h # ys @ [h]) \<Longrightarrow> pv h = last (h # ys)"
  using dll_snoc [of "h # ys" nx pv h] by simp

lemma find_cached_dll:
  assumes "dll (\<lambda>b. b_next (bs b)) pv (ys @ [bhead])" "bhead \<notin> set ys" "length ys < k"
  shows "find_cached k bs dev bno (hd (ys @ [bhead])) = Some (find (\<lambda>b. b_dev (bs b) = dev \<and> b_blockno (bs b) = bno) ys)"
  using assms
proof (induction ys arbitrary: k)
  case Nil
  then show ?case by (cases k) auto
next
  case (Cons y ys)
  obtain k' where k: "k = Suc k'" "length ys < k'" using Cons.prems(3) by (cases k) auto
  obtain z zs where z: "ys @ [bhead] = z # zs" by (cases "ys @ [bhead]") auto
  have "b_next (bs y) = hd (ys @ [bhead])" "dll (\<lambda>b. b_next (bs b)) pv (ys @ [bhead])" using Cons.prems(1) z by auto
  then show ?case using Cons.IH [of k'] Cons.prems(2) k by simp
qed

lemma find_unused_dll:
  assumes "dll nx (\<lambda>b. b_prev (bs b)) (bhead # ys)" "bhead \<notin> set ys" "length ys < k"
  shows "find_unused k bs (last (bhead # ys)) = Some (find (\<lambda>b. b_refcnt (bs b) = 0) (rev ys))"
  using assms
proof (induction ys arbitrary: k rule: rev_induct)
  case Nil
  then show ?case by (cases k) auto
next
  case (snoc y ys)
  obtain k' where k: "k = Suc k'" "length ys < k'" using snoc.prems(3) by (cases k) auto
  have "b_prev (bs y) = last (bhead # ys)" "dll nx (\<lambda>b. b_prev (bs b)) (bhead # ys)"
    using snoc.prems(1) dll_snoc [of "bhead # ys" nx _ y] by simp_all
  then show ?case using snoc.IH [of k'] snoc.prems(2) k by simp
qed

lemma lru_cong:
  assumes "\<And>b. b_next (bs b) = b_next (bs' b)" "\<And>b. b_prev (bs b) = b_prev (bs' b)"
  shows "lru bs xs \<longleftrightarrow> lru bs' xs"
  using assms by (simp add: lru_def)

lemma lru_head: "lru bs xs \<Longrightarrow> bhead \<notin> set xs"
  by (simp add: lru_def)

lemma lru_length: "lru bs xs \<Longrightarrow> length xs = NBUF"
  using distinct_card [of xs] by (simp add: lru_def)

text \<open>The searches of \<open>bget\<close> end: they visit each buffer at most once.\<close>

lemma lru_find_cached:
  assumes "lru bs xs"
  shows "find_cached (Suc NBUF) bs dev bno (b_next (bs bhead)) =
    Some (find (\<lambda>b. b_dev (bs b) = dev \<and> b_blockno (bs b) = bno) xs)"
proof -
  have d: "dll (\<lambda>b. b_next (bs b)) (\<lambda>b. b_prev (bs b)) (bhead # xs @ [bhead])" using assms by (simp add: lru_def)
  then have "dll (\<lambda>b. b_next (bs b)) (\<lambda>b. b_prev (bs b)) (xs @ [bhead])" by (cases xs) auto
  from find_cached_dll [OF this] show ?thesis
    using dll_first [OF d] lru_head [OF assms] lru_length [OF assms] by simp
qed

lemma lru_find_unused:
  assumes "lru bs xs"
  shows "find_unused (Suc NBUF) bs (b_prev (bs bhead)) = Some (find (\<lambda>b. b_refcnt (bs b) = 0) (rev xs))"
proof -
  have d: "dll (\<lambda>b. b_next (bs b)) (\<lambda>b. b_prev (bs b)) (bhead # xs @ [bhead])" using assms by (simp add: lru_def)
  then have "dll (\<lambda>b. b_next (bs b)) (\<lambda>b. b_prev (bs b)) (bhead # xs)" using dll_snoc [of "bhead # xs"] by simp
  from find_unused_dll [OF this] show ?thesis
    using dll_last [OF d] lru_head [OF assms] lru_length [OF assms] by simp
qed

lemma list_push_links:
  assumes "b \<noteq> bhead"
  shows "(\<lambda>c. b_next (bufs (list_push b s) c)) = (\<lambda>c. b_next (bufs s c))(b := b_next (bufs s bhead), bhead := b)"
    "(\<lambda>c. b_prev (bufs (list_push b s) c)) = (\<lambda>c. b_prev (bufs s c))(b := bhead, b_next (bufs s bhead) := b)"
  using assms by (auto simp: list_push_def upd_buf_def Let_def fun_eq_iff)

lemma list_remove_links:
  assumes "b_next (bufs s b) \<noteq> b"
  shows "(\<lambda>c. b_next (bufs (list_remove b s) c)) = (\<lambda>c. b_next (bufs s c))(b_prev (bufs s b) := b_next (bufs s b))"
    "(\<lambda>c. b_prev (bufs (list_remove b s) c)) = (\<lambda>c. b_prev (bufs s c))(b_next (bufs s b) := b_prev (bufs s b))"
  using assms by (auto simp: list_remove_def upd_buf_def Let_def fun_eq_iff)

lemma list_remove_dll:
  assumes "dll (\<lambda>c. b_next (bufs s c)) (\<lambda>c. b_prev (bufs s c)) (h # as @ b # cs @ [h])"
    "distinct (h # as @ b # cs)"
  shows "dll (\<lambda>c. b_next (bufs (list_remove b s) c)) (\<lambda>c. b_prev (bufs (list_remove b s) c)) (h # as @ cs @ [h])"
proof -
  let ?nx = "\<lambda>c. b_next (bufs s c)" and ?pv = "\<lambda>c. b_prev (bufs s c)"
  obtain ls p where l: "h # as = ls @ [p]" by (cases "h # as" rule: rev_cases) auto
  obtain n rs where r: "cs @ [h] = n # rs" by (cases "cs @ [h]") auto
  have e: "h # as @ b # cs @ [h] = ls @ p # b # n # rs" "h # as @ cs @ [h] = ls @ p # n # rs"
    using l r by (metis append_Cons append_Nil append_assoc)+
  have d: "dll ?nx ?pv (ls @ [p])" "dll ?nx ?pv (p # b # n # rs)"
    using assms(1) unfolding e dll_append [of _ _ ls p "b # n # rs"] by simp_all
  have tl_l: "tl (ls @ [p]) = as" using l [symmetric] by simp
  have bl_r: "butlast (n # rs) = cs" using r [symmetric] by simp
  have p: "p \<in> set (h # as)" "p \<notin> set ls" using l assms(2) by (metis distinct.simps(2) distinct_append not_distinct_conv_prefix in_set_conv_decomp append_Cons)+
  have n: "n \<in> set (cs @ [h])" "n \<notin> set rs" using r assms(2) by (cases cs; auto)+
  have "p \<notin> set (butlast (n # rs))" using p(1) assms(2) unfolding bl_r by auto
  moreover have "n \<notin> set (tl (ls @ [p]))" using n(1) assms(2) unfolding tl_l by auto
  moreover have "n \<noteq> b" using n(1) assms(2) by auto
  ultimately show ?thesis
    using dll_join [of ?nx ?pv ls p n rs] d p(2) n(2) unfolding e by (simp add: list_remove_links)
qed

lemma lru_move:
  assumes "lru (bufs s) xs" "b < NBUF"
  shows "lru (bufs (list_push b (list_remove b s))) (b # remove1 b xs)"
proof -
  have x: "distinct xs" "set xs = {..<NBUF}" using assms(1) by (auto simp: lru_def)
  then obtain as cs where xs: "xs = as @ b # cs" "b \<notin> set as" using assms(2) split_list_first [of b xs] by auto
  have r: "remove1 b xs = as @ cs" using xs by (simp add: remove1_append)
  have h: "distinct (bhead # as @ b # cs)" using x lru_head [OF assms(1)] xs by auto
  have "dll (\<lambda>c. b_next (bufs (list_remove b s) c)) (\<lambda>c. b_prev (bufs (list_remove b s) c)) (bhead # (as @ cs) @ [bhead])"
    using list_remove_dll [OF _ h, of s] assms(1) xs(1) by (simp add: lru_def)
  from dll_push [OF this, of b] have "dll (\<lambda>c. b_next (bufs (list_push b (list_remove b s)) c))
      (\<lambda>c. b_prev (bufs (list_push b (list_remove b s)) c)) (bhead # b # (as @ cs) @ [bhead])"
    using h by (auto simp: list_push_links)
  then show ?thesis unfolding r using x xs h by (auto simp: lru_def)
qed

lemma upd_order_buf [upd_order]:
  "b_valid_update f1 (b_disk_update g1 s) = b_disk_update g1 (b_valid_update f1 s)"
  "b_valid_update f2 (b_dev_update g2 s) = b_dev_update g2 (b_valid_update f2 s)"
  "b_disk_update f3 (b_dev_update g3 s) = b_dev_update g3 (b_disk_update f3 s)"
  "b_valid_update f4 (b_blockno_update g4 s) = b_blockno_update g4 (b_valid_update f4 s)"
  "b_disk_update f5 (b_blockno_update g5 s) = b_blockno_update g5 (b_disk_update f5 s)"
  "b_dev_update f6 (b_blockno_update g6 s) = b_blockno_update g6 (b_dev_update f6 s)"
  "b_valid_update f7 (b_refcnt_update g7 s) = b_refcnt_update g7 (b_valid_update f7 s)"
  "b_disk_update f8 (b_refcnt_update g8 s) = b_refcnt_update g8 (b_disk_update f8 s)"
  "b_dev_update f9 (b_refcnt_update g9 s) = b_refcnt_update g9 (b_dev_update f9 s)"
  "b_blockno_update f10 (b_refcnt_update g10 s) = b_refcnt_update g10 (b_blockno_update f10 s)"
  "b_valid_update f11 (b_prev_update g11 s) = b_prev_update g11 (b_valid_update f11 s)"
  "b_disk_update f12 (b_prev_update g12 s) = b_prev_update g12 (b_disk_update f12 s)"
  "b_dev_update f13 (b_prev_update g13 s) = b_prev_update g13 (b_dev_update f13 s)"
  "b_blockno_update f14 (b_prev_update g14 s) = b_prev_update g14 (b_blockno_update f14 s)"
  "b_refcnt_update f15 (b_prev_update g15 s) = b_prev_update g15 (b_refcnt_update f15 s)"
  "b_valid_update f16 (b_next_update g16 s) = b_next_update g16 (b_valid_update f16 s)"
  "b_disk_update f17 (b_next_update g17 s) = b_next_update g17 (b_disk_update f17 s)"
  "b_dev_update f18 (b_next_update g18 s) = b_next_update g18 (b_dev_update f18 s)"
  "b_blockno_update f19 (b_next_update g19 s) = b_next_update g19 (b_blockno_update f19 s)"
  "b_refcnt_update f20 (b_next_update g20 s) = b_next_update g20 (b_refcnt_update f20 s)"
  "b_prev_update f21 (b_next_update g21 s) = b_next_update g21 (b_prev_update f21 s)"
  "b_valid_update f22 (b_data_update g22 s) = b_data_update g22 (b_valid_update f22 s)"
  "b_disk_update f23 (b_data_update g23 s) = b_data_update g23 (b_disk_update f23 s)"
  "b_dev_update f24 (b_data_update g24 s) = b_data_update g24 (b_dev_update f24 s)"
  "b_blockno_update f25 (b_data_update g25 s) = b_data_update g25 (b_blockno_update f25 s)"
  "b_refcnt_update f26 (b_data_update g26 s) = b_data_update g26 (b_refcnt_update f26 s)"
  "b_prev_update f27 (b_data_update g27 s) = b_data_update g27 (b_prev_update f27 s)"
  "b_next_update f28 (b_data_update g28 s) = b_data_update g28 (b_next_update f28 s)"
  by simp_all

lemma list_push_held [simp]: "list_push b (held lk s) = held lk (list_push b s)"
  by (simp add: list_push_def upd_buf_def Let_def)

lemma list_remove_held [simp]: "list_remove b (held lk s) = held lk (list_remove b s)"
  by (simp add: list_remove_def upd_buf_def Let_def)

lemma list_move_state: "list_push b (list_remove b s) = s\<lparr>bufs := bufs (list_push b (list_remove b s))\<rparr>"
  by (simp add: list_push_def list_remove_def upd_buf_def Let_def)

lemma initlock_bufs [simp]: "bufs (initlock lk nm s) = bufs s" "bufs (initsleeplock sl nm s) = bufs s"
  by (simp_all add: initlock_def initsleeplock_def set_lock_def set_sleeplock_def Let_def)

lemma list_push_frame [simp]:
  "b_valid (bufs (list_push b s) c) = b_valid (bufs s c)" "b_dev (bufs (list_push b s) c) = b_dev (bufs s c)"
  "b_blockno (bufs (list_push b s) c) = b_blockno (bufs s c)" "b_refcnt (bufs (list_push b s) c) = b_refcnt (bufs s c)"
  "b_data (bufs (list_push b s) c) = b_data (bufs s c)"
  by (simp_all add: list_push_def upd_buf_def Let_def)

lemma list_remove_frame [simp]:
  "b_valid (bufs (list_remove b s) c) = b_valid (bufs s c)" "b_dev (bufs (list_remove b s) c) = b_dev (bufs s c)"
  "b_blockno (bufs (list_remove b s) c) = b_blockno (bufs s c)" "b_refcnt (bufs (list_remove b s) c) = b_refcnt (bufs s c)"
  "b_data (bufs (list_remove b s) c) = b_data (bufs s c)"
  by (simp_all add: list_remove_def upd_buf_def Let_def)

lemma forn_rule:
  assumes "P i s" "\<And>k s. i \<le> k \<Longrightarrow> k < i + n \<Longrightarrow> P k s \<Longrightarrow> \<exists>t. body k s = Ret () t \<and> P (Suc k) t"
  shows "\<exists>t. forn n i body s = Ret () t \<and> P (i + n) t"
  using assms
proof (induction n arbitrary: i s)
  case (Suc n)
  obtain t where t: "body i s = Ret () t" "P (Suc i) t" using Suc.prems(2) [of i s] Suc.prems(1) by auto
  have "\<exists>u. forn n (Suc i) body t = Ret () u \<and> P (Suc i + n) u"
    by (rule Suc.IH [OF t(2)]) (use Suc.prems(2) in simp)
  then show ?case using t(1) by simp
qed simp

text \<open>\<open>binit\<close> links all buffers, the last one first.\<close>

lemma binit_lru:
  obtains t where "binit s = Ret () t" "lru (bufs t) (rev [0..<NBUF])" "image t = image s"
    "\<forall>b. b_valid (bufs t b) = b_valid (bufs s b) \<and> b_dev (bufs t b) = b_dev (bufs s b) \<and>
      b_blockno (bufs t b) = b_blockno (bufs s b) \<and> b_refcnt (bufs t b) = b_refcnt (bufs s b) \<and> b_data (bufs t b) = b_data (bufs s b)"
    "\<forall>b < NBUF. \<not> sl_locked (sleeplocks t (BufSL b))"
proof -
  let ?P = "\<lambda>k t. dll (\<lambda>b. b_next (bufs t b)) (\<lambda>b. b_prev (bufs t b)) (bhead # rev [0..<k] @ [bhead]) \<and> image t = image s \<and>
    (\<forall>b. b_valid (bufs t b) = b_valid (bufs s b) \<and> b_dev (bufs t b) = b_dev (bufs s b) \<and>
      b_blockno (bufs t b) = b_blockno (bufs s b) \<and> b_refcnt (bufs t b) = b_refcnt (bufs s b) \<and> b_data (bufs t b) = b_data (bufs s b)) \<and>
    (\<forall>b < k. \<not> sl_locked (sleeplocks t (BufSL b)))"
  let ?s = "upd_buf bhead (\<lambda>x. x\<lparr>b_prev := bhead, b_next := bhead\<rparr>) (initlock BcacheLock ''bcache'' s)"
  let ?body = "\<lambda>b s. Ret () (list_push b (initsleeplock (BufSL b) ''buffer'' s))"
  have "\<exists>t. forn NBUF 0 ?body ?s = Ret () t \<and> ?P (0 + NBUF) t"
  proof (rule forn_rule)
    show "?P 0 ?s" by (auto simp: upd_buf_def initlock_def set_lock_def)
  next
    fix k t assume k: "k < 0 + NBUF" and P: "?P k t"
    let ?t = "initsleeplock (BufSL k) ''buffer'' t"
    have d: "dll (\<lambda>b. b_next (bufs ?t b)) (\<lambda>b. b_prev (bufs ?t b)) (bhead # rev [0..<k] @ [bhead])" using P by simp
    have "image (list_push k ?t) = image t" "sleeplocks (list_push k ?t) = (sleeplocks t)(BufSL k := \<lparr>sl_locked = False, sl_name = ''buffer'', sl_pid = 0\<rparr>)"
      by (simp_all add: list_push_def upd_buf_def Let_def initsleeplock_def initlock_def set_lock_def set_sleeplock_def)
    moreover have "dll (\<lambda>b. b_next (bufs (list_push k ?t) b)) (\<lambda>b. b_prev (bufs (list_push k ?t) b)) (bhead # rev [0..<Suc k] @ [bhead])"
      using dll_push [OF d, of k] k by (simp add: list_push_links del: dll.simps)
    ultimately show "\<exists>u. ?body k t = Ret () u \<and> ?P (Suc k) u"
      using P by (simp add: less_Suc_eq del: dll.simps upt_Suc)
  qed
  then show thesis using that by (auto simp: binit_def Let_def lru_def atLeast0LessThan simp del: forn.simps)
qed

end
