(* ===== verification/Cache.thy ===== *)
theory Cache
  imports Bio
begin

text \<open>
  What the buffer cache promises its clients, the log and the file system: \<open>bread\<close>,
  \<open>bwrite\<close>, \<open>brelse\<close>, \<open>bpin\<close> and \<open>bunpin\<close> as operations on the contents of blocks.
  \<open>view\<close> is the contents of each block as the kernel sees it, \<open>ref\<close> the number of
  references to each cached block, \<open>lck\<close> the locked blocks and \<open>spare\<close> the number of
  buffers that can be recycled.
\<close>

section \<open>The contents of the cache\<close>

definition slot :: "(nat \<Rightarrow> buf) \<Rightarrow> uint32 \<Rightarrow> nat option" where
  "slot bs bn = find (\<lambda>b. b_dev (bs b) = 1 \<and> b_blockno (bs b) = bn) [0..<NBUF]"

definition view :: "'x blk_state_scheme \<Rightarrow> uint32 \<Rightarrow> uint8 list" where
  "view s bn = (case slot (bufs s) bn of
     None \<Rightarrow> blk_read (image s) bn
   | Some b \<Rightarrow> if b_valid (bufs s b) then b_data (bufs s b) else blk_read (image s) bn)"

definition ref :: "'x blk_state_scheme \<Rightarrow> uint32 \<Rightarrow> nat" where
  "ref s bn = (case slot (bufs s) bn of None \<Rightarrow> 0 | Some b \<Rightarrow> unat (b_refcnt (bufs s b)))"

definition lck :: "'x blk_state_scheme \<Rightarrow> uint32 \<Rightarrow> bool" where
  "lck s bn = (case slot (bufs s) bn of None \<Rightarrow> False | Some b \<Rightarrow> sl_locked (sleeplocks s (BufSL b)))"

definition spare :: "'x blk_state_scheme \<Rightarrow> nat" where
  "spare s = card {b. b < NBUF \<and> b_refcnt (bufs s b) = 0}"

definition once :: "(nat \<Rightarrow> buf) \<Rightarrow> bool" where
  "once bs \<longleftrightarrow> (\<forall>b < NBUF. \<forall>c < NBUF. b_dev (bs b) = 1 \<and> b_dev (bs c) = 1 \<and> b_blockno (bs b) = b_blockno (bs c) \<longrightarrow> b = c)"

text \<open>The invariant of the cache: the list is well formed, a block has at most one buffer,
  a buffer in use by nobody is unlocked and holds what the disk holds.\<close>

definition bcache_inv :: "'x blk_state_scheme \<Rightarrow> bool" where
  "bcache_inv s \<longleftrightarrow> (\<exists>xs. lru (bufs s) xs) \<and>
     once (bufs s) \<and>
     (\<forall>b < NBUF. length (b_data (bufs s b)) = BSIZE) \<and>
     (\<forall>b < NBUF. b_refcnt (bufs s b) = 0 \<longrightarrow> \<not> sl_locked (sleeplocks s (BufSL b))) \<and>
     (\<forall>b < NBUF. b_refcnt (bufs s b) = 0 \<and> b_dev (bufs s b) = 1 \<and> b_valid (bufs s b) \<longrightarrow>
        b_data (bufs s b) = blk_read (image s) (b_blockno (bufs s b)))"

text \<open>\<open>owns_buf p s bn b\<close>: process \<open>p\<close> has block \<open>bn\<close> in buffer \<open>b\<close>, as \<open>bread\<close> returns it.\<close>

definition owns_buf :: "nat \<Rightarrow> 'x blk_state_scheme \<Rightarrow> uint32 \<Rightarrow> nat \<Rightarrow> bool" where
  "owns_buf p s bn b \<longleftrightarrow> b < NBUF \<and> b_dev (bufs s b) = 1 \<and> b_blockno (bufs s b) = bn \<and> b_valid (bufs s b) \<and>
     b_refcnt (bufs s b) \<noteq> 0 \<and>
     sl_locked (sleeplocks s (BufSL b)) \<and> sl_pid (sleeplocks s (BufSL b)) = p_pid (procs s p)"

text \<open>A process that can use the cache, and what an operation leaves alone.\<close>

definition ready :: "nat \<Rightarrow> 'x blk_state_scheme \<Rightarrow> bool" where
  "ready p s \<longleftrightarrow> calm p s \<and> vd_idle (disk s) \<and> serves (blkdev s) \<and> bcache_inv s"

definition io_frame :: "nat \<Rightarrow> 'x blk_state_scheme \<Rightarrow> 'x blk_state_scheme \<Rightarrow> bool" where
  "io_frame p s t \<longleftrightarrow> t = s\<lparr>procs := procs t, sleeplocks := sleeplocks t, bufs := bufs t, disk := disk t,
       image := image t, hist := hist t, vio_log := vio_log t\<rparr> \<and>
     others_woken p (procs s) (procs t) \<and> (\<forall>i. sleeplocks t (InodeSL i) = sleeplocks s (InodeSL i))"

lemma cache_cong:
  assumes "bufs t = bufs s" "image t = image s" "sleeplocks t = sleeplocks s"
  shows "view t = view s" "ref t = ref s" "lck t = lck s" "spare t = spare s" "bcache_inv t = bcache_inv s"
  unfolding view_def ref_def lck_def spare_def bcache_inv_def assms by (rule refl)+

lemma slot_cong:
  assumes "\<And>b. b < NBUF \<Longrightarrow> b_dev (bs b) = b_dev (bs' b) \<and> b_blockno (bs b) = b_blockno (bs' b)"
  shows "slot bs = slot bs'"
  unfolding slot_def fun_eq_iff using assms by (auto intro!: find_cong)

lemma slot_SomeD:
  assumes "slot bs bn = Some b"
  shows "b < NBUF" "b_dev (bs b) = 1" "b_blockno (bs b) = bn"
  using assms by (auto simp: slot_def find_Some_iff)

lemma slot_NoneD: "slot bs bn = None \<Longrightarrow> b < NBUF \<Longrightarrow> b_dev (bs b) = 1 \<Longrightarrow> b_blockno (bs b) \<noteq> bn"
  by (auto simp: slot_def find_None_iff)

lemma slot_eq:
  assumes "once bs" "b < NBUF" "b_dev (bs b) = 1" "b_blockno (bs b) = bn"
  shows "slot bs bn = Some b"
proof (cases "slot bs bn")
  case None
  then show ?thesis using assms slot_NoneD by blast
next
  case (Some c)
  note c = slot_SomeD [OF this]
  show ?thesis using assms c Some by (auto simp: once_def simp del: NBUF_def)
qed

lemma bcache_invD:
  assumes "bcache_inv s"
  shows "once (bufs s)" "b < NBUF \<Longrightarrow> length (b_data (bufs s b)) = BSIZE"
    "b < NBUF \<Longrightarrow> b_refcnt (bufs s b) = 0 \<Longrightarrow> \<not> sl_locked (sleeplocks s (BufSL b))"
    "b < NBUF \<Longrightarrow> b_refcnt (bufs s b) = 0 \<Longrightarrow> b_dev (bufs s b) = 1 \<Longrightarrow> b_valid (bufs s b) \<Longrightarrow>
      b_data (bufs s b) = blk_read (image s) (b_blockno (bufs s b))"
  using assms by (simp_all add: bcache_inv_def)

text \<open>The effect of an update of the buffer of a block, or of the recycling of a buffer.\<close>

definition can_hold :: "(nat \<Rightarrow> buf) \<Rightarrow> uint32 \<Rightarrow> nat \<Rightarrow> bool" where
  "can_hold bs bn b \<longleftrightarrow> b < NBUF \<and> (slot bs bn = Some b \<or> slot bs bn = None \<and> b_refcnt (bs b) = 0)"

lemma once_upd:
  assumes "once bs" "can_hold bs bn b" "b_dev x = 1" "b_blockno x = bn"
  shows "once (bs(b := x))"
proof -
  have key: "c = b" if "c < NBUF" "b_dev (bs c) = 1" "b_blockno (bs c) = bn" for c
    using slot_eq [OF assms(1) that] assms(2) by (auto simp: can_hold_def)
  show ?thesis unfolding once_def
  proof (intro allI impI)
    fix a c assume ac: "a < NBUF" "c < NBUF" and e: "b_dev ((bs(b := x)) a) = 1 \<and> b_dev ((bs(b := x)) c) = 1 \<and>
      b_blockno ((bs(b := x)) a) = b_blockno ((bs(b := x)) c)"
    consider "a = b" "c = b" | "a = b" "c \<noteq> b" | "a \<noteq> b" "c = b" | "a \<noteq> b" "c \<noteq> b" by blast
    then show "a = c"
    proof cases
      case 2
      then show ?thesis using key [OF ac(2)] e assms(4) by (metis fun_upd_apply)
    next
      case 3
      then show ?thesis using key [OF ac(1)] e assms(4) by (metis fun_upd_apply)
    next
      case 4
      then show ?thesis using assms(1) ac e unfolding once_def by (metis fun_upd_apply)
    qed simp
  qed
qed

lemma slot_upd:
  assumes "once bs" "can_hold bs bn b" "b_dev x = 1" "b_blockno x = bn"
  shows "slot (bs(b := x)) bn' =
    (if bn' = bn then Some b else if slot bs bn' = Some b then None else slot bs bn')"
proof -
  note o = once_upd [OF assms]
  have b: "b < NBUF" using assms(2) by (simp add: can_hold_def)
  consider (this) "bn' = bn" | (gone) "bn' \<noteq> bn" "slot bs bn' = Some b" | (other) c where "bn' \<noteq> bn" "slot bs bn' = Some c" "c \<noteq> b"
    | (none) "bn' \<noteq> bn" "slot bs bn' = None" by (cases "slot bs bn'") auto
  then show ?thesis
  proof cases
    case this
    then show ?thesis using slot_eq [OF o b, of bn] assms(3,4) by simp
  next
    case gone
    have "c = b" if "c < NBUF" "b_dev (bs c) = 1" "b_blockno (bs c) = bn'" for c
      using slot_eq [OF assms(1) that] gone(2) by simp
    then have "slot (bs(b := x)) bn' = None" using gone(1) assms(4) by (auto simp: slot_def find_None_iff)
    then show ?thesis using gone by simp
  next
    case (other c)
    then show ?thesis using slot_eq [OF o, of c bn'] slot_SomeD [OF other(2)] by simp
  next
    case none
    then have "slot (bs(b := x)) bn' = None" using slot_NoneD [OF none(2)] assms(4) by (auto simp: slot_def find_None_iff)
    then show ?thesis using none by simp
  qed
qed

lemma abs_upd:
  assumes "bcache_inv s" "can_hold (bufs s) bn b" "b_dev x = 1" "b_blockno x = bn" "bufs t = (bufs s)(b := x)"
    "image t = image s" "sleeplocks t = (sleeplocks s)(BufSL b := l)"
  shows "view t = (view s)(bn := if b_valid x then b_data x else blk_read (image s) bn)"
    "ref t = (ref s)(bn := unat (b_refcnt x))" "lck t = (lck s)(bn := sl_locked l)"
proof -
  note sl = slot_upd [OF bcache_invD(1) [OF assms(1)] assms(2-4)] and inv = bcache_invD [OF assms(1)]
  have old: "b_refcnt (bufs s b) = 0" "b_dev (bufs s b) = 1" "b_blockno (bufs s b) = bn'" "b < NBUF"
    if "slot (bufs s) bn' = Some b" "bn' \<noteq> bn" for bn'
    using assms(2) slot_SomeD [OF that(1)] slot_SomeD [of "bufs s" bn b] that(2) by (auto simp: can_hold_def)
  show "view t = (view s)(bn := if b_valid x then b_data x else blk_read (image s) bn)"
  proof
    fix k show "view t k = ((view s)(bn := if b_valid x then b_data x else blk_read (image s) bn)) k"
      using old [of k] inv(4) [of b] by (cases "slot (bufs s) k") (auto simp: view_def assms(5,6) sl)
  qed
  show "ref t = (ref s)(bn := unat (b_refcnt x))"
  proof
    fix k show "ref t k = ((ref s)(bn := unat (b_refcnt x))) k"
      using old [of k] by (cases "slot (bufs s) k") (auto simp: ref_def assms(5) sl)
  qed
  show "lck t = (lck s)(bn := sl_locked l)"
  proof
    fix k show "lck t k = ((lck s)(bn := sl_locked l)) k"
      using old [of k] inv(3) [of b] by (cases "slot (bufs s) k") (auto simp: lck_def assms(5,7) sl)
  qed
qed

lemma inv_upd:
  assumes "bcache_inv s" "can_hold (bufs s) bn b" "b_dev x = 1" "b_blockno x = bn" "bufs t = (bufs s)(b := x)"
    "image t = image s" "sleeplocks t = (sleeplocks s)(BufSL b := l)"
    "b_next x = b_next (bufs s b)" "b_prev x = b_prev (bufs s b)" "length (b_data x) = BSIZE"
    "b_refcnt x = 0 \<Longrightarrow> \<not> sl_locked l \<and> (b_valid x \<longrightarrow> b_data x = blk_read (image s) bn)"
  shows "bcache_inv t"
proof -
  obtain xs where "lru (bufs s) xs" using assms(1) by (auto simp: bcache_inv_def)
  then have "lru (bufs t) xs" by (subst lru_cong [of _ "bufs s"]) (auto simp: assms(5,8,9))
  moreover have "once (bufs t)" using once_upd [OF bcache_invD(1) [OF assms(1)] assms(2-4)] assms(5) by simp
  ultimately show ?thesis
    using bcache_invD [OF assms(1)] assms(3,4,5,6,7,10,11) unfolding bcache_inv_def by (auto simp del: NBUF_def)
qed

lemma spare_upd:
  assumes "b < NBUF" "bufs t = (bufs s)(b := x)"
  shows "spare t = spare s - (if b_refcnt (bufs s b) = 0 then 1 else 0) + (if b_refcnt x = 0 then 1 else 0)"
proof -
  let ?a = "{c. c < NBUF \<and> b_refcnt (bufs s c) = 0}"
  have "{c. c < NBUF \<and> b_refcnt (bufs t c) = 0} = (if b_refcnt x = 0 then insert b (?a - {b}) else ?a - {b})"
    using assms by (auto split: if_splits)
  moreover have "card (?a - {b}) = card ?a - (if b_refcnt (bufs s b) = 0 then 1 else 0)"
    using assms(1) by (auto simp: card_Diff_singleton_if)
  moreover have "card (insert b (?a - {b})) = Suc (card (?a - {b}))" by (rule card_insert_disjoint) auto
  ultimately show ?thesis unfolding spare_def by (simp del: insert_Diff_single NBUF_def)
qed

lemma owns_upd:
  assumes "bcache_inv s" "can_hold (bufs s) bn b" "b_dev x = 1" "b_blockno x = bn" "bufs t = (bufs s)(b := x)"
    "sleeplocks t = (sleeplocks s)(BufSL b := l)" "procs t p = procs s p" "bn' \<noteq> bn"
  shows "owns_buf p t bn' c \<longleftrightarrow> owns_buf p s bn' c"
proof (cases "c = b")
  case True
  have "\<not> owns_buf p s bn' b"
    using assms(2,8) slot_SomeD [of "bufs s" bn b] by (auto simp: owns_buf_def can_hold_def)
  then show ?thesis using True assms(4,5,8) by (simp add: owns_buf_def)
qed (use assms(5-7) in \<open>simp add: owns_buf_def\<close>)

lemma owns_slot:
  assumes "bcache_inv s" "owns_buf p s bn b"
  shows "slot (bufs s) bn = Some b" "can_hold (bufs s) bn b" "view s bn = b_data (bufs s b)"
    "ref s bn = unat (b_refcnt (bufs s b))" "lck s bn"
  using slot_eq [OF bcache_invD(1) [OF assms(1)], of b bn] assms(2)
  by (auto simp: owns_buf_def can_hold_def view_def ref_def lck_def)

lemma length_view [simp]: "bcache_inv s \<Longrightarrow> length (view s bn) = BSIZE"
  using bcache_invD(2) [of s] slot_SomeD [of "bufs s" bn] by (auto simp: view_def split: option.splits)

lemma find_lru:
  assumes "bcache_inv s" "lru (bufs s) xs"
  shows "find (\<lambda>b. b_dev (bufs s b) = 1 \<and> b_blockno (bufs s b) = bn) xs = slot (bufs s) bn"
proof (cases "find (\<lambda>b. b_dev (bufs s b) = 1 \<and> b_blockno (bufs s b) = bn) xs")
  case None
  then have "slot (bufs s) bn = None" using assms(2) by (auto simp: find_None_iff lru_def slot_def)
  then show ?thesis using None by simp
next
  case (Some b)
  then have "b \<in> set xs" "b_dev (bufs s b) = 1" "b_blockno (bufs s b) = bn" by (auto simp: find_Some_iff)
  then show ?thesis using slot_eq [OF bcache_invD(1) [OF assms(1)], of b] assms(2) Some by (auto simp: lru_def)
qed

section \<open>bread\<close>

lemma readyD:
  assumes "ready p s"
  shows "calm p s" "vd_idle (disk s)" "serves (blkdev s)" "bcache_inv s"
  using assms by (auto simp: ready_def)

definition got :: "nat \<Rightarrow> uint32 \<Rightarrow> nat \<Rightarrow> 'x blk_state_scheme \<Rightarrow> 'x blk_state_scheme" where
  "got p bn b s = s\<lparr>sleeplocks := (sleeplocks s)(BufSL b := (sleeplocks s (BufSL b))\<lparr>sl_locked := True,
     sl_pid := p_pid (procs s p)\<rparr>), bufs := (bufs s)(b := (bufs s b)\<lparr>b_valid := slot (bufs s) bn = Some b \<and> b_valid (bufs s b),
     b_dev := 1, b_blockno := bn, b_refcnt := of_nat (ref s bn) + 1\<rparr>)\<rparr>"

lemma buf_same:
  "b_dev x = 1 \<Longrightarrow> b_blockno x = bn \<Longrightarrow>
    x\<lparr>b_dev := 1, b_blockno := bn, b_refcnt := r\<rparr> = x\<lparr>b_refcnt := r\<rparr>"
  by simp

lemma bget_eq:
  assumes "ready p s" "\<not> lck s bn" "ref s bn = 0 \<longrightarrow> 0 < spare s"
  obtains b where "bget 1 bn s = Ret b (got p bn b s)"
    "can_hold (bufs s) bn b"
proof -
  note c = calmD [OF readyD(1) [OF assms(1)]] and inv = readyD(4) [OF assms(1)]
  obtain xs where xs: "lru (bufs s) xs" using inv by (auto simp: bcache_inv_def)
  note f = lru_find_cached [OF xs, of 1 bn, unfolded find_lru [OF inv xs]] and u = lru_find_unused [OF xs]
  show thesis
  proof (cases "slot (bufs s) bn")
    case (Some b)
    note b = slot_SomeD [OF Some]
    have "\<not> sl_locked (sleeplocks s (BufSL b))" using assms(2) Some by (simp add: lck_def)
    then have "bget 1 bn s = Ret b (got p bn b s)"
      using f b Some
      by (simp add: c buf_same bget_def upd_buf_def acquiresleep_eq ref_def got_def upd_order del: find_cached.simps NBUF_def)
    then show thesis using that b(1) Some unfolding can_hold_def by blast
  next
    case None
    then have "{b. b < NBUF \<and> b_refcnt (bufs s b) = 0} \<noteq> {}"
      using assms(3) by (simp add: ref_def spare_def card_gt_0_iff del: Collect_empty_eq)
    then obtain b where b: "find (\<lambda>b. b_refcnt (bufs s b) = 0) (rev xs) = Some b"
      using xs by (cases "find (\<lambda>b. b_refcnt (bufs s b) = 0) (rev xs)") (auto simp: find_None_iff lru_def)
    then have "b \<in> set (rev xs)" and b0: "b_refcnt (bufs s b) = 0"
      unfolding find_Some_iff by (auto simp del: length_rev set_rev)
    then have "b < NBUF" using xs by (simp add: lru_def del: NBUF_def)
    then have "\<not> sl_locked (sleeplocks s (BufSL b))" using inv b0 by (simp add: bcache_inv_def)
    then have "bget 1 bn s = Ret b (got p bn b s)"
      using f b u None
      by (simp add: c bget_def upd_buf_def acquiresleep_eq ref_def got_def upd_order del: find_cached.simps find_unused.simps NBUF_def)
    then show thesis using that \<open>b < NBUF\<close> None b0 unfolding can_hold_def by blast
  qed
qed

definition loaded :: "nat \<Rightarrow> uint32 \<Rightarrow> nat \<Rightarrow> bool \<Rightarrow> 'x blk_state_scheme \<Rightarrow> 'x blk_state_scheme" where
  "loaded p bn b dk s = s\<lparr>sleeplocks := (sleeplocks s)(BufSL b := (sleeplocks s (BufSL b))\<lparr>sl_locked := True,
     sl_pid := p_pid (procs s p)\<rparr>), bufs := (bufs s)(b := (bufs s b)\<lparr>b_valid := True, b_disk := dk, b_dev := 1,
     b_blockno := bn, b_refcnt := of_nat (ref s bn) + 1, b_data := view s bn\<rparr>)\<rparr>"

lemma bread_eq:
  assumes "ready p s" "\<not> lck s bn" "ref s bn = 0 \<longrightarrow> 0 < spare s" "unat bn < 2 ^ 31"
  obtains b dk ps d h l where
    "bread 1 bn s = Ret b ((loaded p bn b dk s)\<lparr>procs := ps, disk := d, hist := h, vio_log := l\<rparr>)"
    "can_hold (bufs s) bn b"
    "others_woken p (procs s) ps" "vd_idle d" "h = hist s \<or> h = hist s @ [image s]"
proof -
  obtain b where b: "bget 1 bn s = Ret b (got p bn b s)"
    "can_hold (bufs s) bn b"
    using bget_eq [OF assms(1-3)] by blast
  show thesis
  proof (cases "slot (bufs s) bn = Some b \<and> b_valid (bufs s b)")
    case True
    then have "bread 1 bn s = Ret b (loaded p bn b (b_disk (bufs s b)) s)"
      by (simp add: bread_def b(1) got_def loaded_def view_def)
    then show thesis
      using that [of b "vio_log s" "hist s" "disk s" "procs s" "b_disk (bufs s b)"] b(2) readyD(2) [OF assms(1)]
      by (simp add: loaded_def)
  next
    case False
    have g: "calm p (got p bn b s)" "vd_idle (disk (got p bn b s))" "serves (blkdev (got p bn b s))"
      "b_blockno (bufs (got p bn b s) b) = bn"
      using readyD [OF assms(1)] by (simp_all add: got_def)
    obtain ps d l where rw: "virtio_disk_rw b False (got p bn b s) = Ret () ((got p bn b s)\<lparr>procs := ps,
        bufs := (bufs (got p bn b s))(b := (bufs (got p bn b s) b)\<lparr>b_data := blk_read (image s) bn, b_disk := False\<rparr>),
        disk := d, hist := hist s @ [image s], vio_log := l\<rparr>)" "others_woken p (procs s) ps" "vd_idle d"
      using virtio_disk_rw_eq [OF g(1-3), of b False] g(4) assms(4) by (auto simp: got_def)
    have "view s bn = blk_read (image s) bn" using False b(2) by (auto simp: view_def can_hold_def)
    then have "bread 1 bn s = Ret b ((loaded p bn b False s)\<lparr>procs := ps, disk := d, hist := hist s @ [image s], vio_log := l\<rparr>)"
      using False by (auto simp: bread_def b(1) rw(1)) (auto simp: got_def loaded_def upd_buf_def upd_order)
    then show thesis using that b(2) rw(2,3) by blast
  qed
qed

section \<open>The operations on the contents\<close>

lemma io_frame_simps [simp]: "io_frame p s s"
  by (simp add: io_frame_def)

lemma io_frame_trans [trans]:
  assumes "io_frame p s t" "io_frame p t u"
  shows "io_frame p s u"
proof -
  let ?f = "\<lambda>s u. s\<lparr>procs := procs u, sleeplocks := sleeplocks u, bufs := bufs u, disk := disk u,
    image := image u, hist := hist u, vio_log := vio_log u\<rparr>"
  have "t = ?f s t" "u = ?f t u" using assms by (simp_all add: io_frame_def)
  then have "u = ?f (?f s t) u" by metis
  then have "u = ?f s u" by (simp add: upd_order)
  moreover have "others_woken p (procs s) (procs u)"
    using assms others_woken_trans unfolding io_frame_def by blast
  moreover have "\<forall>i. sleeplocks u (InodeSL i) = sleeplocks s (InodeSL i)"
    using assms unfolding io_frame_def by presburger
  ultimately show ?thesis unfolding io_frame_def by blast
qed

lemma bread_spec:
  assumes "ready p s" "\<not> lck s bn" "ref s bn = 0 \<longrightarrow> 0 < spare s" "unat bn < 2 ^ 31" "ref s bn < 2 ^ 32 - 1"
  obtains b t where "bread 1 bn s = Ret b t" "ready p t" "io_frame p s t" "owns_buf p t bn b"
    "view t = view s" "ref t = (ref s)(bn := Suc (ref s bn))" "lck t = (lck s)(bn := True)"
    "spare t = spare s - (if ref s bn = 0 then 1 else 0)" "image t = image s" "hist t = hist s \<or> hist t = hist s @ [image s]"
    "\<forall>bn' c. bn' \<noteq> bn \<longrightarrow> owns_buf p t bn' c = owns_buf p s bn' c"
proof -
  note inv = readyD(4) [OF assms(1)]
  obtain b dk ps d h l where b: "bread 1 bn s = Ret b ((loaded p bn b dk s)\<lparr>procs := ps, disk := d, hist := h, vio_log := l\<rparr>)"
      (is "_ = Ret b ?t") "can_hold (bufs s) bn b" "others_woken p (procs s) ps" "vd_idle d" "h = hist s \<or> h = hist s @ [image s]"
    by (rule bread_eq [OF assms(1-4)])
  let ?x = "(bufs s b)\<lparr>b_valid := True, b_disk := dk, b_dev := 1, b_blockno := bn, b_refcnt := of_nat (ref s bn) + 1, b_data := view s bn\<rparr>"
  let ?l = "(sleeplocks s (BufSL b))\<lparr>sl_locked := True, sl_pid := p_pid (procs s p)\<rparr>"
  have t: "bufs ?t = (bufs s)(b := ?x)" "image ?t = image s" "sleeplocks ?t = (sleeplocks s)(BufSL b := ?l)" "procs ?t = ps"
    by (simp_all add: loaded_def)
  have p: "ps p = procs s p" using b(3) by (simp add: others_woken_def)
  have r: "unat (of_nat (ref s bn) + 1 :: uint32) = Suc (ref s bn)"
    using assms(5) by (simp add: unat_word_ariths unat_of_nat)
  then have r0: "of_nat (ref s bn) + 1 \<noteq> (0 :: uint32)" by (metis unat_0 nat.distinct(1))
  have bN: "b < NBUF" using b(2) by (simp add: can_hold_def)
  have free: "b_refcnt (bufs s b) = 0 \<longleftrightarrow> ref s bn = 0"
    using b(2) by (auto simp: can_hold_def ref_def unat_eq_zero)
  have inv': "bcache_inv ?t"
    by (rule inv_upd [OF inv b(2) _ _ t(1-3)]) (use inv r0 in simp_all)
  show thesis
  proof (rule that [OF b(1)])
    show "ready p ?t"
      using readyD [OF assms(1)] b(3,4) inv' by (simp add: ready_def loaded_def calm_procs upd_order)
    show "io_frame p s ?t"
      using b(3) by (simp add: io_frame_def loaded_def upd_order)
    show "owns_buf p ?t bn b" using bN r0 p by (simp add: owns_buf_def loaded_def)
    show "view ?t = view s" using abs_upd(1) [OF inv b(2) _ _ t(1-3)] by simp
    show "ref ?t = (ref s)(bn := Suc (ref s bn))" using abs_upd(2) [OF inv b(2) _ _ t(1-3)] r by simp
    show "lck ?t = (lck s)(bn := True)" using abs_upd(3) [OF inv b(2) _ _ t(1-3)] by simp
    show "spare ?t = spare s - (if ref s bn = 0 then 1 else 0)" using spare_upd [OF bN t(1)] r0 free by simp
    show "\<forall>bn' c. bn' \<noteq> bn \<longrightarrow> owns_buf p ?t bn' c = owns_buf p s bn' c"
      using owns_upd [OF inv b(2) _ _ t(1,3), of p] p by simp
  qed (use b(5) in \<open>simp_all add: loaded_def\<close>)
qed

text \<open>Updates of an owned buffer that keep its block: writing its data, and its reference count.\<close>

lemma owned_upd:
  assumes "ready p s" "owns_buf p s bn b" "length (b_data x) = BSIZE" "b_refcnt x \<noteq> 0"
    "x = (bufs s b)\<lparr>b_disk := dk, b_refcnt := b_refcnt x, b_data := b_data x\<rparr>"
  defines "t \<equiv> s\<lparr>bufs := (bufs s)(b := x)\<rparr>"
  shows "ready p t" "io_frame p s t" "owns_buf p t bn b" "view t = (view s)(bn := b_data x)"
    "ref t = (ref s)(bn := unat (b_refcnt x))" "lck t = lck s" "spare t = spare s"
    "bn' \<noteq> bn \<Longrightarrow> owns_buf p t bn' c = owns_buf p s bn' c"
proof -
  note inv = readyD(4) [OF assms(1)] and o = owns_slot [OF readyD(4) [OF assms(1)] assms(2)]
  have own: "b < NBUF" "b_dev (bufs s b) = 1" "b_blockno (bufs s b) = bn" "b_valid (bufs s b)" "b_refcnt (bufs s b) \<noteq> 0"
    "sl_locked (sleeplocks s (BufSL b))" "sl_pid (sleeplocks s (BufSL b)) = p_pid (procs s p)"
    using assms(2) by (auto simp: owns_buf_def)
  have "b_dev x = b_dev (bufs s b)" "b_blockno x = b_blockno (bufs s b)" "b_valid x = b_valid (bufs s b)"
    "b_next x = b_next (bufs s b)" "b_prev x = b_prev (bufs s b)" by (subst assms(5), simp)+
  then have x: "b_dev x = 1" "b_blockno x = bn" "b_valid x" "b_next x = b_next (bufs s b)" "b_prev x = b_prev (bufs s b)"
    using own by simp_all
  have t: "bufs t = (bufs s)(b := x)" "image t = image s" "sleeplocks t = (sleeplocks s)(BufSL b := sleeplocks s (BufSL b))"
    by (simp_all add: t_def)
  have inv': "bcache_inv t"
    by (rule inv_upd [OF inv o(2) x(1,2) t(1-3) x(4,5)]) (use assms(3,4) in simp_all)
  show "ready p t" using readyD [OF assms(1)] inv' by (simp add: ready_def t_def)
  show "io_frame p s t" by (simp add: io_frame_def t_def upd_order)
  show "owns_buf p t bn b" using own x assms(4) by (simp add: owns_buf_def t_def)
  show "view t = (view s)(bn := b_data x)" using abs_upd(1) [OF inv o(2) x(1,2) t(1-3)] x(3) by simp
  show "ref t = (ref s)(bn := unat (b_refcnt x))" by (rule abs_upd(2) [OF inv o(2) x(1,2) t(1-3)])
  show "lck t = lck s" using abs_upd(3) [OF inv o(2) x(1,2) t(1-3)] o(5) own(6) by (auto simp: fun_eq_iff)
  show "spare t = spare s" using spare_upd [OF own(1) t(1)] own(5) assms(4) by simp
  show "owns_buf p t bn' c = owns_buf p s bn' c" if "bn' \<noteq> bn"
    by (rule owns_upd [OF inv o(2) x(1,2) t(1,3) _ that]) (simp add: t_def)
qed

lemma put_data_spec:
  assumes "ready p s" "owns_buf p s bn b" "length d = BSIZE"
  defines "t \<equiv> upd_buf b (b_data_update (\<lambda>_. d)) s"
  shows "ready p t" "io_frame p s t" "owns_buf p t bn b" "view t = (view s)(bn := d)" "ref t = ref s" "lck t = lck s"
    "spare t = spare s" "image t = image s" "hist t = hist s" "bn' \<noteq> bn \<Longrightarrow> owns_buf p t bn' c = owns_buf p s bn' c"
proof -
  let ?x = "(bufs s b)\<lparr>b_data := d\<rparr>"
  have t: "t = s\<lparr>bufs := (bufs s)(b := ?x)\<rparr>" by (simp add: t_def upd_buf_def)
  have "b_refcnt ?x \<noteq> 0" using assms(2) by (simp add: owns_buf_def)
  note u = owned_upd [OF assms(1,2) _ this, of "b_disk (bufs s b)"]
  show "ready p t" "io_frame p s t" "owns_buf p t bn b" "view t = (view s)(bn := d)" "lck t = lck s"
    "spare t = spare s" "bn' \<noteq> bn \<Longrightarrow> owns_buf p t bn' c = owns_buf p s bn' c"
    using u assms(3) unfolding t by simp_all
  show "ref t = ref s" using u(5) assms(3) owns_slot(4) [OF readyD(4) [OF assms(1)] assms(2)] unfolding t by (simp add: fun_eq_iff)
qed (simp_all add: t_def upd_buf_def)

lemma bpin_spec:
  assumes "ready p s" "owns_buf p s bn b" "ref s bn < 2 ^ 32 - 1"
  obtains t where "bpin b s = Ret () t" "ready p t" "io_frame p s t" "owns_buf p t bn b" "view t = view s"
    "ref t = (ref s)(bn := Suc (ref s bn))" "lck t = lck s" "spare t = spare s" "image t = image s" "hist t = hist s"
    "\<forall>bn' c. bn' \<noteq> bn \<longrightarrow> owns_buf p t bn' c = owns_buf p s bn' c"
proof -
  note c = calmD [OF readyD(1) [OF assms(1)]] and o = owns_slot [OF readyD(4) [OF assms(1)] assms(2)]
  let ?x = "(bufs s b)\<lparr>b_refcnt := b_refcnt (bufs s b) + 1\<rparr>"
  let ?t = "s\<lparr>bufs := (bufs s)(b := ?x)\<rparr>"
  have r: "unat (b_refcnt (bufs s b) + 1) = Suc (ref s bn)"
    using assms(3) o(4) by (simp add: unat_word_ariths)
  then have "b_refcnt (bufs s b) + 1 \<noteq> 0" by (metis nat.distinct(1) unat_0)
  then have "b_refcnt ?x \<noteq> 0" by simp
  note u = owned_upd [OF assms(1,2) _ this, of "b_disk (bufs s b)"]
  have len: "length (b_data ?x) = BSIZE" using bcache_invD(2) [OF readyD(4) [OF assms(1)]] assms(2) by (simp add: owns_buf_def)
  have eq: "bpin b s = Ret () ?t" by (simp add: bpin_def c upd_buf_def)
  show thesis
    by (rule that [OF eq]) (use u len r o in \<open>simp_all add: fun_eq_iff\<close>)
qed

lemma bunpin_spec:
  assumes "ready p s" "owns_buf p s bn b" "1 < ref s bn"
  obtains t where "bunpin b s = Ret () t" "ready p t" "io_frame p s t" "owns_buf p t bn b" "view t = view s"
    "ref t = (ref s)(bn := ref s bn - 1)" "lck t = lck s" "spare t = spare s" "image t = image s" "hist t = hist s"
    "\<forall>bn' c. bn' \<noteq> bn \<longrightarrow> owns_buf p t bn' c = owns_buf p s bn' c"
proof -
  note c = calmD [OF readyD(1) [OF assms(1)]] and o = owns_slot [OF readyD(4) [OF assms(1)] assms(2)]
  let ?x = "(bufs s b)\<lparr>b_refcnt := b_refcnt (bufs s b) - 1\<rparr>"
  let ?t = "s\<lparr>bufs := (bufs s)(b := ?x)\<rparr>"
  have r: "unat (b_refcnt (bufs s b) - 1) = ref s bn - 1"
    using assms(3) o(4) by (simp add: unat_sub_if_size)
  then have "b_refcnt ?x \<noteq> 0" using assms(3) by auto
  note u = owned_upd [OF assms(1,2) _ this, of "b_disk (bufs s b)"]
  have len: "length (b_data ?x) = BSIZE" using bcache_invD(2) [OF readyD(4) [OF assms(1)]] assms(2) by (simp add: owns_buf_def)
  have eq: "bunpin b s = Ret () ?t" by (simp add: bunpin_def c upd_buf_def)
  show thesis
    by (rule that [OF eq]) (use u len r o in \<open>simp_all add: fun_eq_iff\<close>)
qed

text \<open>Writing an owned block to the disk changes nothing but the disk.\<close>

lemma image_upd:
  assumes "bcache_inv s" "owns_buf p s bn b"
  defines "t \<equiv> s\<lparr>image := blk_write (image s) bn (view s bn)\<rparr>"
  shows "bcache_inv t" "view t = view s" "ref t = ref s" "lck t = lck s" "spare t = spare s"
proof -
  note o = owns_slot [OF assms(1,2)]
  have rd: "blk_read (image t) k = (if bn = k then view s bn else blk_read (image s) k)" for k
    using assms(1) by (simp add: t_def blk_read_write)
  have "b_blockno (bufs s c) \<noteq> bn" if "c < NBUF" "b_refcnt (bufs s c) = 0" "b_dev (bufs s c) = 1" for c
  proof
    assume "b_blockno (bufs s c) = bn"
    then have "c = b" using slot_eq [OF bcache_invD(1) [OF assms(1)] that(1,3)] o(1) by simp
    then show False using that(2) assms(2) by (simp add: owns_buf_def)
  qed
  then show "bcache_inv t"
    using assms(1) unfolding bcache_inv_def rd by (auto simp: t_def simp del: NBUF_def)
  show "view t = view s"
  proof
    fix k
    have "slot (bufs t) k = slot (bufs s) k" by (simp add: t_def)
    then show "view t k = view s k" using o(1,3) rd [of k] assms(2)
      by (cases "k = bn") (auto simp: view_def owns_buf_def t_def split: option.splits)
  qed
qed (simp_all add: t_def ref_def lck_def spare_def fun_eq_iff split: option.split)

lemma bwrite_spec:
  assumes "ready p s" "owns_buf p s bn b" "unat bn < 2 ^ 31"
  obtains t where "bwrite b s = Ret () t" "ready p t" "io_frame p s t" "owns_buf p t bn b" "view t = view s" "ref t = ref s"
    "lck t = lck s" "spare t = spare s" "image t = blk_write (image s) bn (view s bn)" "hist t = hist s @ [image t]"
    "\<forall>bn' c. bn' \<noteq> bn \<longrightarrow> owns_buf p t bn' c = owns_buf p s bn' c"
proof -
  note r = readyD [OF assms(1)] and c = calmD [OF readyD(1) [OF assms(1)]] and o = owns_slot [OF readyD(4) [OF assms(1)] assms(2)]
  let ?x = "(bufs s b)\<lparr>b_disk := False\<rparr>" and ?img = "blk_write (image s) bn (view s bn)"
  let ?s = "s\<lparr>bufs := (bufs s)(b := ?x)\<rparr>"
  have own: "b_blockno (bufs s b) = bn" "b < NBUF" "b_refcnt ?x \<noteq> 0" "length (b_data ?x) = BSIZE"
    using assms(2) bcache_invD(2) [OF r(4)] by (simp_all add: owns_buf_def)
  obtain ps d l where rw: "virtio_disk_rw b True s = Ret () (s\<lparr>procs := ps, bufs := (bufs s)(b := ?x), disk := d,
      image := ?img, hist := hist s @ [?img], vio_log := l\<rparr>)" (is "_ = Ret () ?t")
    "others_woken p (procs s) ps" "vd_idle d"
    using virtio_disk_rw_eq [OF r(1-3), of b True] own(1) assms(3) o(3) by auto
  have p: "ps p = procs s p" using rw(2) by (simp add: others_woken_def)
  have eq: "bwrite b s = Ret () ?t"
    using assms(2) rw(1) by (simp add: bwrite_def holdingsleep_eq c owns_buf_def)
  note u = owned_upd [OF assms(1,2) own(4,3), of False]
  have u1: "ready p ?s" "owns_buf p ?s bn b" and abs: "view ?s = view s" "ref ?s = ref s" "lck ?s = lck s" "spare ?s = spare s"
    using u o by (simp_all add: fun_eq_iff)
  note i = image_upd [OF readyD(4) [OF u1(1)] u1(2)]
  have t: "bufs ?t = bufs (?s\<lparr>image := ?img\<rparr>)" "image ?t = image (?s\<lparr>image := ?img\<rparr>)"
    "sleeplocks ?t = sleeplocks (?s\<lparr>image := ?img\<rparr>)" by simp_all
  note t = cache_cong [OF t]
  have inv: "bcache_inv ?t" using i(1) unfolding t(5) by (simp add: abs)
  show thesis
  proof (rule that [OF eq])
    show "ready p ?t" using r rw(2,3) inv by (simp add: ready_def calm_procs)
    show "io_frame p s ?t" using rw(2) by (simp add: io_frame_def upd_order)
    show "owns_buf p ?t bn b" using assms(2) p by (simp add: owns_buf_def)
    show "view ?t = view s" "ref ?t = ref s" "lck ?t = lck s" "spare ?t = spare s" using i(2-5) unfolding t(1-4) by (simp_all add: abs)
    show "\<forall>bn' c. bn' \<noteq> bn \<longrightarrow> owns_buf p ?t bn' c = owns_buf p s bn' c" using p by (simp add: owns_buf_def)
  qed simp_all
qed

text \<open>The place of a buffer in the list does not matter to the contents.\<close>

lemma move_same:
  assumes "bcache_inv s" "b < NBUF"
  defines "t \<equiv> list_push b (list_remove b s)"
  shows "bcache_inv t" "view t = view s" "ref t = ref s" "lck t = lck s" "spare t = spare s"
    "owns_buf p t bn c = owns_buf p s bn c"
proof -
  have f: "image t = image s" "sleeplocks t = sleeplocks s" "procs t = procs s"
    by (simp_all add: t_def list_push_def list_remove_def upd_buf_def Let_def)
  have x: "b_valid (bufs t c) = b_valid (bufs s c)" "b_dev (bufs t c) = b_dev (bufs s c)"
    "b_blockno (bufs t c) = b_blockno (bufs s c)" "b_refcnt (bufs t c) = b_refcnt (bufs s c)"
    "b_data (bufs t c) = b_data (bufs s c)" for c by (simp_all add: t_def)
  have sl: "slot (bufs t) = slot (bufs s)" by (rule slot_cong) (simp add: x)
  show "bcache_inv t" using assms(1) lru_move [of s _ b] assms(2) unfolding bcache_inv_def once_def x f by (auto simp: t_def)
  show "view t = view s" unfolding view_def x sl f ..
  show "ref t = ref s" unfolding ref_def x sl ..
  show "lck t = lck s" unfolding lck_def sl f ..
  show "spare t = spare s" unfolding spare_def x ..
  show "owns_buf p t bn c = owns_buf p s bn c" unfolding owns_buf_def x f ..
qed

lemma brelse_eq:
  assumes "ready p s" "owns_buf p s bn b"
  defines "s1 \<equiv> s\<lparr>procs := woken (Some (ChSleep (BufSL b))) (Some p) (procs s),
    sleeplocks := (sleeplocks s)(BufSL b := (sleeplocks s (BufSL b))\<lparr>sl_locked := False, sl_pid := 0\<rparr>),
    bufs := (bufs s)(b := (bufs s b)\<lparr>b_refcnt := b_refcnt (bufs s b) - 1\<rparr>)\<rparr>"
  shows "brelse b s = Ret () (if b_refcnt (bufs s b) = 1 then list_push b (list_remove b s1) else s1)"
proof -
  note c = calmD [OF readyD(1) [OF assms(1)]]
  have h: "holdingsleep (BufSL b) s = Ret True s"
    using assms(2) by (simp add: c holdingsleep_eq owns_buf_def)
  have q: "quiet s1" "\<And>lk. lock_free lk s1" by (simp_all add: s1_def c)
  have mv: "list_push b (list_remove b s1) = s1\<lparr>bufs := bufs (list_push b (list_remove b s1))\<rparr>" by (rule list_move_state)
  have "release BcacheLock (held BcacheLock (list_push b (list_remove b s1))) = Ret () (list_push b (list_remove b s1))"
    by (subst mv, subst (2) mv) (simp add: q)
  moreover have "release BcacheLock (held BcacheLock s1) = Ret () s1" by (simp add: q)
  ultimately show ?thesis
    using releasesleep_eq [of s "BufSL b"] h unfolding s1_def
    by (cases "b_refcnt (bufs s b) = 1") (simp_all add: brelse_def c upd_buf_def upd_order)
qed

lemma brelse_spec:
  assumes "ready p s" "owns_buf p s bn b" "ref s bn = 1 \<Longrightarrow> blk_read (image s) bn = view s bn"
  obtains t where "brelse b s = Ret () t" "ready p t" "io_frame p s t" "view t = view s"
    "ref t = (ref s)(bn := ref s bn - 1)" "lck t = (lck s)(bn := False)"
    "spare t = spare s + (if ref s bn = 1 then 1 else 0)" "image t = image s" "hist t = hist s"
    "\<forall>bn' c. bn' \<noteq> bn \<longrightarrow> owns_buf p t bn' c = owns_buf p s bn' c"
proof -
  note r = readyD [OF assms(1)] and o = owns_slot [OF readyD(4) [OF assms(1)] assms(2)]
  have own: "b < NBUF" "b_dev (bufs s b) = 1" "b_blockno (bufs s b) = bn" "b_valid (bufs s b)" "b_refcnt (bufs s b) \<noteq> 0"
    using assms(2) by (auto simp: owns_buf_def)
  let ?x = "(bufs s b)\<lparr>b_refcnt := b_refcnt (bufs s b) - 1\<rparr>" and ?ps = "woken (Some (ChSleep (BufSL b))) (Some p) (procs s)"
  let ?l = "(sleeplocks s (BufSL b))\<lparr>sl_locked := False, sl_pid := 0\<rparr>"
  define s1 where "s1 = s\<lparr>procs := ?ps, sleeplocks := (sleeplocks s)(BufSL b := ?l), bufs := (bufs s)(b := ?x)\<rparr>"
  define t where "t = (if b_refcnt (bufs s b) = 1 then list_push b (list_remove b s1) else s1)"
  have rf: "unat (b_refcnt ?x) = ref s bn - 1" "b_refcnt ?x = 0 \<longleftrightarrow> ref s bn = 1" "b_refcnt (bufs s b) = 1 \<longleftrightarrow> ref s bn = 1"
    using own(5) o(4) by (auto simp: unat_sub_if_size unat_eq_zero [symmetric] word_unat_eq_iff [of _ 1])
  have s1: "bufs s1 = (bufs s)(b := ?x)" "image s1 = image s" "sleeplocks s1 = (sleeplocks s)(BufSL b := ?l)"
    by (simp_all add: s1_def)
  have x: "b_dev ?x = 1" "b_blockno ?x = bn" using own by simp_all
  have len: "length (b_data ?x) = BSIZE" using bcache_invD(2) [OF r(4) own(1)] by simp
  have inv: "bcache_inv s1"
    by (rule inv_upd [OF r(4) o(2) x s1 _ _ len]) (use assms(3) rf(2) o(3) in simp_all)
  note a = abs_upd [OF r(4) o(2) x s1]
  have a1: "view s1 = view s" "ref s1 = (ref s)(bn := ref s bn - 1)" "lck s1 = (lck s)(bn := False)"
    using a own(4) o(3) rf(1) by (simp_all add: fun_eq_iff)
  have sp: "spare s1 = spare s + (if ref s bn = 1 then 1 else 0)"
    using spare_upd [OF own(1) s1(1)] own(5) rf(2) by simp
  have ow: "owns_buf p s1 bn' c = owns_buf p s bn' c" if "bn' \<noteq> bn" for bn' c
    by (rule owns_upd [OF r(4) o(2) x s1(1,3) _ that]) (use others_woken_woken [of p "procs s"] in \<open>simp add: s1_def others_woken_def\<close>)
  note m = move_same [OF inv own(1)]
  have fr: "t = s1\<lparr>bufs := bufs t\<rparr>" using list_move_state [of b s1] by (simp add: t_def)
  have eq: "brelse b s = Ret () t" using brelse_eq [OF assms(1,2)] by (simp add: t_def s1_def)
  have ab: "view t = view s1" "ref t = ref s1" "lck t = lck s1" "spare t = spare s1" "bcache_inv t"
    "owns_buf p t bn' c = owns_buf p s1 bn' c" for bn' c
    using m inv by (simp_all add: t_def)
  have fld: "procs t = ?ps" "disk t = disk s" "blkdev t = blkdev s" "image t = image s" "hist t = hist s"
    "sleeplocks t = (sleeplocks s)(BufSL b := ?l)" "vio_log t = vio_log s" by (subst fr, simp add: s1_def)+
  have "calm p s1" using calm_procs [OF r(1) others_woken_woken] by (simp add: s1_def)
  then have calm: "calm p t" by (subst fr) simp
  have "t = s\<lparr>procs := procs t, sleeplocks := sleeplocks t, bufs := bufs t, disk := disk t,
    image := image t, hist := hist t, vio_log := vio_log t\<rparr>"
    unfolding fld by (subst fr) (simp add: s1_def)
  then have "io_frame p s t" unfolding io_frame_def by (intro conjI) (assumption, simp_all add: fld)
  then show thesis
    using that [OF eq] ab a1 sp ow fld calm r(2,3) by (simp add: ready_def)
qed

lemma bget_full:
  assumes "ready p s" "slot (bufs s) bn = None" "spare s = 0"
  shows "bget 1 bn s = Panic ''bget: no buffers''"
proof -
  note c = calmD [OF readyD(1) [OF assms(1)]] and inv = readyD(4) [OF assms(1)]
  obtain xs where xs: "lru (bufs s) xs" using inv by (auto simp: bcache_inv_def)
  have "{b. b < NBUF \<and> b_refcnt (bufs s b) = 0} = {}"
    using assms(3) unfolding spare_def by (subst (asm) card_eq_0_iff) auto
  then have "find (\<lambda>b. b_refcnt (bufs s b) = 0) (rev xs) = None"
    using xs by (auto simp: find_None_iff lru_def)
  then show ?thesis
    using lru_find_cached [OF xs, of 1 bn, unfolded find_lru [OF inv xs]] lru_find_unused [OF xs] assms(2)
    by (simp add: c bget_def del: find_cached.simps find_unused.simps NBUF_def)
qed

lemma ref_0_spare:
  assumes "slot (bufs s) bn = Some b" "ref s bn = 0"
  shows "0 < spare s"
proof -
  have "b \<in> {b. b < NBUF \<and> b_refcnt (bufs s b) = 0}"
    using assms slot_SomeD(1) [OF assms(1)] by (simp add: ref_def unat_eq_zero)
  then show ?thesis unfolding spare_def by (subst card_gt_0_iff) auto
qed

text \<open>The same, for chains of calls: what a block taken by \<open>bread\<close>, changed and written, and
  released again mean for the contents.\<close>

definition took :: "nat \<Rightarrow> uint32 \<Rightarrow> nat \<Rightarrow> 'x blk_state_scheme \<Rightarrow> 'x blk_state_scheme \<Rightarrow> bool" where
  "took p bn b s t \<longleftrightarrow> ready p t \<and> io_frame p s t \<and> owns_buf p t bn b \<and> view t = view s \<and>
     ref t = (ref s)(bn := Suc (ref s bn)) \<and> lck t = (lck s)(bn := True) \<and>
     spare t = spare s - (if ref s bn = 0 then 1 else 0) \<and> image t = image s \<and>
     (hist t = hist s \<or> hist t = hist s @ [image s]) \<and>
     (\<forall>bn' c. bn' \<noteq> bn \<longrightarrow> owns_buf p t bn' c = owns_buf p s bn' c)"

definition flushed :: "nat \<Rightarrow> uint32 \<Rightarrow> nat \<Rightarrow> uint8 list \<Rightarrow> 'x blk_state_scheme \<Rightarrow> 'x blk_state_scheme \<Rightarrow> bool" where
  "flushed p bn b d s t \<longleftrightarrow> ready p t \<and> io_frame p s t \<and> owns_buf p t bn b \<and> view t = (view s)(bn := d) \<and>
     ref t = ref s \<and> lck t = lck s \<and> spare t = spare s \<and> image t = blk_write (image s) bn d \<and>
     hist t = hist s @ [image t] \<and> (\<forall>bn' c. bn' \<noteq> bn \<longrightarrow> owns_buf p t bn' c = owns_buf p s bn' c)"

definition dropped :: "nat \<Rightarrow> uint32 \<Rightarrow> 'x blk_state_scheme \<Rightarrow> 'x blk_state_scheme \<Rightarrow> bool" where
  "dropped p bn s t \<longleftrightarrow> ready p t \<and> io_frame p s t \<and> view t = view s \<and> ref t = (ref s)(bn := ref s bn - 1) \<and>
     lck t = (lck s)(bn := False) \<and> spare t = spare s + (if ref s bn = 1 then 1 else 0) \<and> image t = image s \<and>
     hist t = hist s \<and> (\<forall>bn' c. bn' \<noteq> bn \<longrightarrow> owns_buf p t bn' c = owns_buf p s bn' c)"

lemma bread_took:
  assumes "ready p s" "\<not> lck s bn" "ref s bn = 0 \<longrightarrow> 0 < spare s" "unat bn < 2 ^ 31" "ref s bn < 2 ^ 32 - 1"
  obtains b t where "bread 1 bn s = Ret b t" "took p bn b s t"
  by (rule bread_spec [OF assms]) (auto simp: took_def intro: that)

lemma bwrite_flushed:
  assumes "ready p s" "owns_buf p s bn b" "length d = BSIZE" "unat bn < 2 ^ 31"
  obtains t where "bwrite b (upd_buf b (b_data_update (\<lambda>_. d)) s) = Ret () t" "flushed p bn b d s t"
proof -
  define u where "u = upd_buf b (b_data_update (\<lambda>_. d)) s"
  note 1 = put_data_spec [OF assms(1-3), folded u_def]
  obtain t where t: "bwrite b u = Ret () t" "ready p t" "io_frame p u t" "owns_buf p t bn b" "view t = view u" "ref t = ref u"
    "lck t = lck u" "spare t = spare u" "image t = blk_write (image u) bn (view u bn)" "hist t = hist u @ [image t]"
    "\<forall>bn' c. bn' \<noteq> bn \<longrightarrow> owns_buf p t bn' c = owns_buf p u bn' c"
    by (rule bwrite_spec [OF 1(1,3) assms(4)])
  have "flushed p bn b d s t" using t 1 io_frame_trans [OF 1(2) t(3)] by (simp add: flushed_def)
  then show thesis using that t(1) by (simp add: u_def)
qed

lemma brelse_dropped:
  assumes "ready p s" "owns_buf p s bn b" "ref s bn = 1 \<longrightarrow> blk_read (image s) bn = view s bn"
  obtains t where "brelse b s = Ret () t" "dropped p bn s t"
  by (rule brelse_spec [OF assms(1,2) mp [OF assms(3)]]) (auto simp: dropped_def intro: that)

definition repinned :: "nat \<Rightarrow> uint32 \<Rightarrow> nat \<Rightarrow> 'x blk_state_scheme \<Rightarrow> 'x blk_state_scheme \<Rightarrow> bool" where
  "repinned p bn r s t \<longleftrightarrow> ready p t \<and> io_frame p s t \<and> view t = view s \<and> ref t = (ref s)(bn := r) \<and> lck t = lck s \<and>
     spare t = spare s \<and> image t = image s \<and> hist t = hist s \<and> (\<forall>bn' c. owns_buf p t bn' c = owns_buf p s bn' c)"

lemma owns_unique: "bcache_inv s \<Longrightarrow> owns_buf p s bn b \<Longrightarrow> owns_buf p s bn c \<Longrightarrow> b = c"
  using owns_slot(1) [of s p bn b] owns_slot(1) [of s p bn c] by simp

lemma owns_all:
  assumes "bcache_inv s" "bcache_inv t" "owns_buf p s bn b" "owns_buf p t bn b"
    "\<forall>bn' c. bn' \<noteq> bn \<longrightarrow> owns_buf p t bn' c = owns_buf p s bn' c"
  shows "\<forall>bn' c. owns_buf p t bn' c = owns_buf p s bn' c"
proof (intro allI)
  fix bn' c
  show "owns_buf p t bn' c = owns_buf p s bn' c"
  proof (cases "bn' = bn")
    case True
    then show ?thesis using owns_unique [OF assms(1,3), of c] owns_unique [OF assms(2,4), of c] assms(3,4) by blast
  qed (use assms(5) in simp)
qed

lemma bunpin_repinned:
  assumes "ready p s" "owns_buf p s bn b" "1 < ref s bn"
  obtains t where "bunpin b s = Ret () t" "repinned p bn (ref s bn - 1) s t"
proof -
  obtain t where t: "bunpin b s = Ret () t" "ready p t" "io_frame p s t" "owns_buf p t bn b" "view t = view s"
    "ref t = (ref s)(bn := ref s bn - 1)" "lck t = lck s" "spare t = spare s" "image t = image s" "hist t = hist s"
    "\<forall>bn' c. bn' \<noteq> bn \<longrightarrow> owns_buf p t bn' c = owns_buf p s bn' c"
    by (rule bunpin_spec [OF assms])
  then have "repinned p bn (ref s bn - 1) s t"
    using owns_all [OF readyD(4) [OF assms(1)] readyD(4) [OF t(2)] assms(2) t(4,11)] by (simp add: repinned_def)
  then show thesis using that t(1) by simp
qed

lemma bpin_repinned:
  assumes "ready p s" "owns_buf p s bn b" "ref s bn < 2 ^ 32 - 1"
  obtains t where "bpin b s = Ret () t" "repinned p bn (Suc (ref s bn)) s t"
proof -
  obtain t where t: "bpin b s = Ret () t" "ready p t" "io_frame p s t" "owns_buf p t bn b" "view t = view s"
    "ref t = (ref s)(bn := Suc (ref s bn))" "lck t = lck s" "spare t = spare s" "image t = image s" "hist t = hist s"
    "\<forall>bn' c. bn' \<noteq> bn \<longrightarrow> owns_buf p t bn' c = owns_buf p s bn' c"
    by (rule bpin_spec [OF assms])
  then have "repinned p bn (Suc (ref s bn)) s t"
    using owns_all [OF readyD(4) [OF assms(1)] readyD(4) [OF t(2)] assms(2) t(4,11)] by (simp add: repinned_def)
  then show thesis using that t(1) by simp
qed

lemma tookD:
  assumes "took p bn b s t"
  shows "ready p t" "io_frame p s t" "owns_buf p t bn b" "view t = view s" "ref t = (ref s)(bn := Suc (ref s bn))"
    "lck t = (lck s)(bn := True)" "spare t = spare s - (if ref s bn = 0 then 1 else 0)" "image t = image s"
    "hist t = hist s \<or> hist t = hist s @ [image s]" "bn' \<noteq> bn \<Longrightarrow> owns_buf p t bn' c = owns_buf p s bn' c"
  using assms unfolding took_def by blast+

lemma flushedD:
  assumes "flushed p bn b d s t"
  shows "ready p t" "io_frame p s t" "owns_buf p t bn b" "view t = (view s)(bn := d)" "ref t = ref s" "lck t = lck s"
    "spare t = spare s" "image t = blk_write (image s) bn d" "hist t = hist s @ [image t]"
    "bn' \<noteq> bn \<Longrightarrow> owns_buf p t bn' c = owns_buf p s bn' c"
  using assms unfolding flushed_def by blast+

lemma droppedD:
  assumes "dropped p bn s t"
  shows "ready p t" "io_frame p s t" "view t = view s" "ref t = (ref s)(bn := ref s bn - 1)" "lck t = (lck s)(bn := False)"
    "spare t = spare s + (if ref s bn = 1 then 1 else 0)" "image t = image s" "hist t = hist s"
    "bn' \<noteq> bn \<Longrightarrow> owns_buf p t bn' c = owns_buf p s bn' c"
  using assms unfolding dropped_def by blast+

lemma repinnedD:
  assumes "repinned p bn r s t"
  shows "ready p t" "io_frame p s t" "view t = view s" "ref t = (ref s)(bn := r)" "lck t = lck s"
    "spare t = spare s" "image t = image s" "hist t = hist s" "owns_buf p t bn' c = owns_buf p s bn' c"
  using assms unfolding repinned_def by blast+

section \<open>Properties\<close>

definition cache_state :: blk_state where
  "cache_state = disk_state\<lparr>bufs := \<lambda>b. empty_buf\<lparr>b_prev := if b = 30 then 0 else b + 1,
     b_next := if b = 0 then 30 else b - 1\<rparr>\<rparr>"

lemma cache_state_facts:
  "ready 0 cache_state" "view cache_state bn = blk_read (\<lambda>_. 5) bn" "ref cache_state bn = 0" "\<not> lck cache_state bn"
  "spare cache_state = 30" "image cache_state = (\<lambda>_. 5)" "slot (bufs cache_state) bn = None" "hist cache_state = []"
proof -
  have b: "bufs cache_state = (\<lambda>b. empty_buf\<lparr>b_prev := if b = 30 then 0 else b + 1, b_next := if b = 0 then 30 else b - 1\<rparr>)"
    by (simp add: cache_state_def)
  have "lru (bufs cache_state) (rev [0..<30])"
    unfolding b by (simp add: lru_def upt_rec atLeast0LessThan empty_buf_def lessThan_Suc numeral_eq_Suc)
  moreover show sl: "slot (bufs cache_state) bn = None" for bn by (simp add: b slot_def empty_buf_def find_None_iff)
  moreover show "image cache_state = (\<lambda>_. 5)" by (simp add: cache_state_def disk_state_facts)
  moreover have "\<not> sl_locked (sleeplocks cache_state (BufSL i))" for i
    by (simp add: cache_state_def disk_state_def sleep_state.defs one_sleeper_def cons_state.defs)
  ultimately show "ready 0 cache_state" "view cache_state bn = blk_read (\<lambda>_. 5) bn" "ref cache_state bn = 0" "\<not> lck cache_state bn"
    using disk_state_facts
    by (auto simp: ready_def bcache_inv_def once_def view_def ref_def lck_def cache_state_def empty_buf_def)
  have "{b. b < 30 \<and> b_refcnt (bufs cache_state b) = 0} = {..<30}" by (auto simp: b empty_buf_def)
  then show "spare cache_state = 30" by (simp add: spare_def)
  show "hist cache_state = []" by (simp add: cache_state_def disk_state_def sleep_state.defs)
qed

text \<open>
  C20. \<open>binit\<close> establishes the invariant of the buffer cache from zeroed buffers: the list
  runs through all \<open>NBUF\<close> buffers in both directions, no block is cached, every buffer can
  be recycled, and the kernel sees of every block what the disk holds.
\<close>

theorem binit_correct:
  assumes "\<forall>b < NBUF. b_dev (bufs s b) = 0 \<and> b_refcnt (bufs s b) = 0 \<and> length (b_data (bufs s b)) = BSIZE"
  shows "\<exists>t. binit s = Ret () t \<and> bcache_inv t \<and> lru (bufs t) (rev [0..<NBUF]) \<and> spare t = NBUF \<and>
    (\<forall>bn. view t bn = blk_read (image s) bn \<and> ref t bn = 0)"
proof -
  obtain t where t: "binit s = Ret () t" "lru (bufs t) (rev [0..<NBUF])" "image t = image s"
    "\<forall>b. b_valid (bufs t b) = b_valid (bufs s b) \<and> b_dev (bufs t b) = b_dev (bufs s b) \<and>
      b_blockno (bufs t b) = b_blockno (bufs s b) \<and> b_refcnt (bufs t b) = b_refcnt (bufs s b) \<and> b_data (bufs t b) = b_data (bufs s b)"
    "\<forall>b < NBUF. \<not> sl_locked (sleeplocks t (BufSL b))" by (rule binit_lru)
  have z: "b_dev (bufs t b) = 0" "b_refcnt (bufs t b) = 0" "length (b_data (bufs t b)) = BSIZE" if "b < NBUF" for b
    using t(4) assms that by simp_all
  have "slot (bufs t) bn = None" for bn using z(1) by (auto simp: slot_def find_None_iff)
  moreover have "{b. b < NBUF \<and> b_refcnt (bufs t b) = 0} = {..<NBUF}" using z(2) by auto
  then have "spare t = NBUF" by (simp add: spare_def)
  moreover have "bcache_inv t" using t(2,5) z by (auto simp: bcache_inv_def once_def simp del: NBUF_def)
  ultimately show ?thesis using t(1-3) by (auto simp: view_def ref_def)
qed

theorem binit_correct_witness:
  "\<exists>t. binit cache_state = Ret () t \<and> bcache_inv t \<and> spare t = NBUF"
  using binit_correct [of cache_state] by (auto simp: cache_state_def empty_buf_def)

text \<open>
  C7. \<open>bread\<close> returns the contents of the block as last written, in a buffer locked by the
  caller, whether the block was cached, has to be read from the disk, or takes the place of
  another one. It keeps the invariant of the cache and changes the contents of no block. When
  every buffer is in use and the block is not cached it panics.
\<close>

theorem bread_correct:
  assumes "ready p s" "\<not> lck s bn" "unat bn < 2 ^ 31" "ref s bn < 2 ^ 32 - 1"
  shows "if slot (bufs s) bn = None \<and> spare s = 0 then bread 1 bn s = Panic ''bget: no buffers''
    else \<exists>b t. bread 1 bn s = Ret b t \<and> b_data (bufs t b) = view s bn \<and> bcache_inv t \<and> ready p t \<and>
      owns_buf p t bn b \<and> view t = view s \<and> ref t = (ref s)(bn := Suc (ref s bn)) \<and>
      lck t = (lck s)(bn := True) \<and> spare t = spare s - (if ref s bn = 0 then 1 else 0) \<and> image t = image s"
proof (cases "slot (bufs s) bn = None \<and> spare s = 0")
  case True
  then show ?thesis using bget_full [OF assms(1), of bn] by (simp add: bread_def)
next
  case False
  then have sp: "ref s bn = 0 \<longrightarrow> 0 < spare s" using ref_0_spare [of s bn] by (cases "slot (bufs s) bn") auto
  obtain b t where t: "bread 1 bn s = Ret b t" "ready p t" "owns_buf p t bn b"
    "view t = view s" "ref t = (ref s)(bn := Suc (ref s bn))" "lck t = (lck s)(bn := True)"
    "spare t = spare s - (if ref s bn = 0 then 1 else 0)" "image t = image s"
    by (rule bread_spec [OF assms(1,2) sp assms(3,4)])
  then show ?thesis
    using owns_slot(3) [OF readyD(4) [OF t(2)] t(3)] readyD(4) [OF t(2)] False by auto
qed

theorem bread_correct_witness:
  "\<exists>b t. bread 1 40 cache_state = Ret b t \<and> b_data (bufs t b) = blk_read (\<lambda>_. 5) 40 \<and> spare t = 29"
  using bread_correct [OF cache_state_facts(1,4), of 40] by (auto simp: cache_state_facts)

text \<open>
  C17. A block that is read, changed, written and released keeps its new contents: the disk
  holds them, a later \<open>bread\<close> returns them, every other block is as before, and the
  references and locks are those of before.
\<close>

theorem block_write_read:
  assumes "ready p s" "\<not> lck s bn" "unat bn < 2 ^ 31" "ref s bn < 2 ^ 32 - 1" "0 < spare s" "length d = BSIZE"
  shows "\<exists>t. bnd (bread 1 bn s) (\<lambda>b s. bnd (bwrite b (upd_buf b (b_data_update (\<lambda>_. d)) s)) (\<lambda>_ s. brelse b s)) = Ret () t \<and>
    bcache_inv t \<and> view t = (view s)(bn := d) \<and> image t = blk_write (image s) bn d \<and> ref t = ref s \<and> lck t = lck s \<and>
    (\<exists>b u. bread 1 bn t = Ret b u \<and> b_data (bufs u b) = d)"
proof -
  have sp: "ref s bn = 0 \<longrightarrow> 0 < spare s" using assms(5) by simp
  obtain b s1 where 1: "bread 1 bn s = Ret b s1" "ready p s1" "owns_buf p s1 bn b" "view s1 = view s"
    "ref s1 = (ref s)(bn := Suc (ref s bn))" "lck s1 = (lck s)(bn := True)"
    "spare s1 = spare s - (if ref s bn = 0 then 1 else 0)" "image s1 = image s"
    by (rule bread_spec [OF assms(1,2) sp assms(3,4)])
  note 2 = put_data_spec [OF 1(2,3) assms(6)]
  obtain s3 where 3: "bwrite b (upd_buf b (b_data_update (\<lambda>_. d)) s1) = Ret () s3" "ready p s3" "owns_buf p s3 bn b"
    "view s3 = (view s)(bn := d)" "ref s3 = ref s1" "lck s3 = lck s1" "spare s3 = spare s1" "image s3 = blk_write (image s) bn d"
    by (rule bwrite_spec [OF 2(1,3) assms(3)]) (use 1 2 in simp)
  have cl: "blk_read (image s3) bn = view s3 bn" using 3(4,8) assms(6) by (simp add: blk_read_write)
  obtain s4 where r4: "brelse b s3 = Ret () s4" "ready p s4" "view s4 = view s3" "ref s4 = (ref s3)(bn := ref s3 bn - 1)"
    "lck s4 = (lck s3)(bn := False)" "spare s4 = spare s3 + (if ref s3 bn = 1 then 1 else 0)" "image s4 = image s3"
    by (rule brelse_spec [OF 3(2,3) cl])
  then have 4: "brelse b s3 = Ret () s4" "ready p s4" "view s4 = (view s)(bn := d)" "ref s4 = ref s" "lck s4 = lck s"
    "spare s4 = spare s" "image s4 = image s3"
    using 1(5-7) 3(4-7) assms(2,5) by (auto simp: fun_eq_iff)
  have sp4: "ref s4 bn = 0 \<longrightarrow> 0 < spare s4" using 4 sp by simp
  obtain c u where 5: "bread 1 bn s4 = Ret c u" "ready p u" "owns_buf p u bn c" "view u = view s4"
    by (rule bread_spec [OF 4(2) _ sp4 assms(3)]) (use 4 assms in auto)
  show ?thesis
    using 1(1) 3(1,8) 4 5(1,4) owns_slot(3) [OF readyD(4) [OF 5(2)] 5(3)] readyD(4) [OF 4(2)] by auto
qed

theorem block_write_read_witness:
  "\<exists>t. bnd (bread 1 40 cache_state) (\<lambda>b s. bnd (bwrite b (upd_buf b (b_data_update (\<lambda>_. replicate 1024 9)) s)) (\<lambda>_ s. brelse b s)) = Ret () t \<and>
    view t 40 = replicate 1024 9 \<and> view t 41 = blk_read (\<lambda>_. 5) 41"
  using block_write_read [OF cache_state_facts(1,4), of 40 "replicate 1024 9"] by (auto simp: cache_state_facts)

end
