(* ===== verification/Bytes.thy ===== *)
theory Bytes
  imports Prelude
begin

text \<open>
  Kernel objects as byte lists: little-endian 16- and 32-bit fields, as the on-disk
  structures of \<open>src/kernel/fs.h\<close> and \<open>src/kernel/log.c\<close> lay them out.
\<close>

definition overwrite :: "'a list \<Rightarrow> nat \<Rightarrow> 'a list \<Rightarrow> 'a list" where
  "overwrite xs off ys = take off xs @ ys @ drop (off + length ys) xs"

definition slice :: "'a list \<Rightarrow> nat \<Rightarrow> nat \<Rightarrow> 'a list" where
  "slice xs off n = take n (drop off xs)"

definition bytes16 :: "uint16 \<Rightarrow> uint8 list" where
  "bytes16 v = [ucast v, ucast (drop_bit 8 v)]"

definition bytes32 :: "uint32 \<Rightarrow> uint8 list" where
  "bytes32 v = [ucast v, ucast (drop_bit 8 v), ucast (drop_bit 16 v), ucast (drop_bit 24 v)]"

definition get16 :: "uint8 list \<Rightarrow> nat \<Rightarrow> uint16" where
  "get16 xs k = ucast (xs ! k) OR push_bit 8 (ucast (xs ! (k + 1)))"

definition get32 :: "uint8 list \<Rightarrow> nat \<Rightarrow> uint32" where
  "get32 xs k = ucast (xs ! k) OR push_bit 8 (ucast (xs ! (k + 1))) OR
     push_bit 16 (ucast (xs ! (k + 2))) OR push_bit 24 (ucast (xs ! (k + 3)))"

definition get64 :: "uint8 list \<Rightarrow> nat \<Rightarrow> uint64" where
  "get64 xs k = ucast (get32 xs k) OR push_bit 32 (ucast (get32 xs (k + 4)))"

definition bytes64 :: "uint64 \<Rightarrow> uint8 list" where
  "bytes64 v = bytes32 (ucast v) @ bytes32 (ucast (drop_bit 32 v))"

definition put16 :: "uint8 list \<Rightarrow> nat \<Rightarrow> uint16 \<Rightarrow> uint8 list" where
  "put16 xs k v = overwrite xs k (bytes16 v)"

definition put32 :: "uint8 list \<Rightarrow> nat \<Rightarrow> uint32 \<Rightarrow> uint8 list" where
  "put32 xs k v = overwrite xs k (bytes32 v)"

section \<open>Slices\<close>

lemma length_overwrite [simp]: "off + length ys \<le> length xs \<Longrightarrow> length (overwrite xs off ys) = length xs"
  by (simp add: overwrite_def)

lemma length_slice [simp]: "off + n \<le> length xs \<Longrightarrow> length (slice xs off n) = n"
  by (simp add: slice_def)

lemma length_bytes [simp]: "length (bytes16 v) = 2" "length (bytes32 w) = 4"
  by (simp_all add: bytes16_def bytes32_def)

lemma nth_overwrite:
  assumes "off + length ys \<le> length xs" and "i < length xs"
  shows "overwrite xs off ys ! i = (if off \<le> i \<and> i < off + length ys then ys ! (i - off) else xs ! i)"
  using assms by (auto simp: overwrite_def nth_append min_def)

lemma slice_overwrite_same:
  "off + length ys \<le> length xs \<Longrightarrow> slice (overwrite xs off ys) off (length ys) = ys"
  by (simp add: slice_def overwrite_def)

lemma slice_overwrite_other:
  assumes "off + length ys \<le> length xs" and "p + n \<le> length xs"
    and "p + n \<le> off \<or> off + length ys \<le> p"
  shows "slice (overwrite xs off ys) p n = slice xs p n"
  using assms by (intro nth_equalityI) (auto simp: slice_def nth_overwrite)

section \<open>Fields\<close>

lemma ucast_bytes32:
  "ucast (ucast (v :: uint32) :: uint8) OR push_bit 8 (ucast (ucast (drop_bit 8 v) :: uint8)) OR
     push_bit 16 (ucast (ucast (drop_bit 16 v) :: uint8)) OR push_bit 24 (ucast (ucast (drop_bit 24 v) :: uint8)) = v"
proof (rule bit_word_eqI)
  fix n assume "n < LENGTH(32)"
  then consider "n < 8" | "8 \<le> n" "n < 16" | "16 \<le> n" "n < 24" | "24 \<le> n" "n < 32" by force
  then show "bit (ucast (ucast v :: uint8) OR push_bit 8 (ucast (ucast (drop_bit 8 v) :: uint8)) OR
      push_bit 16 (ucast (ucast (drop_bit 16 v) :: uint8)) OR
      push_bit 24 (ucast (ucast (drop_bit 24 v) :: uint8)) :: uint32) n = bit v n"
    by cases (auto simp: bit_simps)
qed

lemma ucast_bytes16:
  "ucast (ucast (v :: uint16) :: uint8) OR push_bit 8 (ucast (ucast (drop_bit 8 v) :: uint8)) = v"
  by (rule bit_word_eqI) (auto simp: bit_simps dest: bit_imp_le_length)

lemma get32_put32 [simp]: "k + 4 \<le> length xs \<Longrightarrow> get32 (put32 xs k v) k = v"
  by (simp add: get32_def put32_def nth_overwrite bytes32_def ucast_bytes32)

lemma get16_put16 [simp]: "k + 2 \<le> length xs \<Longrightarrow> get16 (put16 xs k v) k = v"
  by (simp add: get16_def put16_def nth_overwrite bytes16_def ucast_bytes16)

lemma get32_put32_other [simp]:
  "k + 4 \<le> length xs \<Longrightarrow> p + 4 \<le> length xs \<Longrightarrow> p + 4 \<le> k \<or> k + 4 \<le> p \<Longrightarrow> get32 (put32 xs k v) p = get32 xs p"
  by (auto simp: get32_def put32_def nth_overwrite)

lemma length_put [simp]:
  "k + 4 \<le> length xs \<Longrightarrow> length (put32 xs k v) = length xs"
  "k + 2 \<le> length xs \<Longrightarrow> length (put16 xs k w) = length xs"
  by (simp_all add: put32_def put16_def)

end
