(* ===== verification/Log.thy ===== *)
theory Log
  imports Cache Bytes
begin

text \<open>
  The write-ahead log: \<open>src/kernel/log.c\<close>. The header block holds the number of logged
  blocks and their home block numbers as little-endian 32-bit integers. Waiting for log
  space is the outcome \<open>Wait\<close>. A header that claims more than \<open>LOGSIZE\<close> blocks makes
  the C code run past its arrays; nothing is stated about it.
\<close>

section \<open>Operations\<close>

record log_state = blk_state +
  lg_start :: uint32
  lg_size :: uint32
  lg_outstanding :: uint32
  lg_committing :: bool
  lg_dev :: uint32
  lh_n :: uint32
  lh_block :: "nat \<Rightarrow> uint32"

definition memmove_block :: "nat \<Rightarrow> nat \<Rightarrow> 'x blk_state_scheme \<Rightarrow> 'x blk_state_scheme" where
  "memmove_block d b s = upd_buf d (b_data_update (\<lambda>_. b_data (bufs s b))) s"

definition install_trans :: "bool \<Rightarrow> 'x log_state_scheme \<Rightarrow> (unit, 'x log_state_scheme) outcome" where
  "install_trans recovering s =
     forn (nat (sint (lh_n s))) 0 (\<lambda>tail s.
       bnd (bread (lg_dev s) (lg_start s + of_nat tail + 1) s) (\<lambda>lbuf s.
       bnd (bread (lg_dev s) (lh_block s tail) s) (\<lambda>dbuf s.
       bnd (bwrite dbuf (memmove_block dbuf lbuf s)) (\<lambda>_ s.
       bnd (if \<not> recovering then bunpin dbuf s else Ret () s) (\<lambda>_ s.
       bnd (brelse lbuf s) (\<lambda>_ s. brelse dbuf s)))))) s"

definition read_head :: "'x log_state_scheme \<Rightarrow> (unit, 'x log_state_scheme) outcome" where
  "read_head s =
     bnd (bread (lg_dev s) (lg_start s) s) (\<lambda>b s.
     let lh = b_data (bufs s b);
         s = s\<lparr>lh_n := get32 lh 0\<rparr>;
         s = s\<lparr>lh_block := fold (\<lambda>i f. f(i := get32 lh (4 + 4 * i))) [0..<nat (sint (lh_n s))] (lh_block s)\<rparr>
     in brelse b s)"

definition write_head :: "'x log_state_scheme \<Rightarrow> (unit, 'x log_state_scheme) outcome" where
  "write_head s =
     bnd (bread (lg_dev s) (lg_start s) s) (\<lambda>b s.
     let hb = put32 (b_data (bufs s b)) 0 (lh_n s);
         hb = fold (\<lambda>i hb. put32 hb (4 + 4 * i) (lh_block s i)) [0..<nat (sint (lh_n s))] hb
     in bnd (bwrite b (upd_buf b (b_data_update (\<lambda>_. hb)) s)) (\<lambda>_ s. brelse b s))"

definition recover_from_log :: "'x log_state_scheme \<Rightarrow> (unit, 'x log_state_scheme) outcome" where
  "recover_from_log s =
     bnd (read_head s) (\<lambda>_ s.
     bnd (install_trans True s) (\<lambda>_ s.
     write_head (s\<lparr>lh_n := 0\<rparr>)))"

text \<open>The size of \<open>struct logheader\<close> is 124 bytes, less than a block.\<close>

definition initlog :: "uint32 \<Rightarrow> uint32 \<Rightarrow> uint32 \<Rightarrow> 'x log_state_scheme \<Rightarrow> (unit, 'x log_state_scheme) outcome" where
  "initlog dev logstart nlog s =
     (if 4 + 4 * LOGSIZE \<ge> BSIZE then Panic ''initlog: too big logheader''
      else
        let s = initlock LogLock ''log'' s
        in recover_from_log (s\<lparr>lg_start := logstart, lg_size := nlog, lg_dev := dev\<rparr>))"

definition begin_op :: "'x log_state_scheme \<Rightarrow> (unit, 'x log_state_scheme) outcome" where
  "begin_op s =
     bnd (acquire LogLock s) (\<lambda>_ s.
     if lg_committing s then sleep ChLog LogLock s
     else if sint (lh_n s) + (sint (lg_outstanding s) + 1) * int MAXOPBLOCKS > int LOGSIZE then sleep ChLog LogLock s
     else release LogLock (s\<lparr>lg_outstanding := lg_outstanding s + 1\<rparr>))"

definition write_log :: "'x log_state_scheme \<Rightarrow> (unit, 'x log_state_scheme) outcome" where
  "write_log s =
     forn (nat (sint (lh_n s))) 0 (\<lambda>tail s.
       bnd (bread (lg_dev s) (lg_start s + of_nat tail + 1) s) (\<lambda>to s.
       bnd (bread (lg_dev s) (lh_block s tail) s) (\<lambda>from s.
       bnd (bwrite to (memmove_block to from s)) (\<lambda>_ s.
       bnd (brelse from s) (\<lambda>_ s. brelse to s))))) s"

definition commit :: "'x log_state_scheme \<Rightarrow> (unit, 'x log_state_scheme) outcome" where
  "commit s =
     (if sint (lh_n s) > 0 then
        bnd (write_log s) (\<lambda>_ s.
        bnd (write_head s) (\<lambda>_ s.
        bnd (install_trans False s) (\<lambda>_ s.
        write_head (s\<lparr>lh_n := 0\<rparr>))))
      else Ret () s)"

definition end_op :: "'x log_state_scheme \<Rightarrow> (unit, 'x log_state_scheme) outcome" where
  "end_op s =
     bnd (acquire LogLock s) (\<lambda>_ s.
     let s = s\<lparr>lg_outstanding := lg_outstanding s - 1\<rparr>
     in if lg_committing s then Panic ''log.committing''
        else
          let do_commit = (lg_outstanding s = 0)
          in bnd (if do_commit then Ret () (s\<lparr>lg_committing := True\<rparr>) else wakeup ChLog s) (\<lambda>_ s.
             bnd (release LogLock s) (\<lambda>_ s.
             if do_commit then
               bnd (commit s) (\<lambda>_ s.
               bnd (acquire LogLock s) (\<lambda>_ s.
               bnd (wakeup ChLog (s\<lparr>lg_committing := False\<rparr>)) (\<lambda>_ s.
               release LogLock s)))
             else Ret () s)))"

text \<open>The position of a block in the header, or the end of the list: log absorption.\<close>

fun log_slot :: "(nat \<Rightarrow> uint32) \<Rightarrow> uint32 \<Rightarrow> nat \<Rightarrow> nat \<Rightarrow> nat" where
  "log_slot blk blockno i 0 = i"
| "log_slot blk blockno i (Suc k) = (if blk i = blockno then i else log_slot blk blockno (Suc i) k)"

definition log_write :: "nat \<Rightarrow> 'x log_state_scheme \<Rightarrow> (unit, 'x log_state_scheme) outcome" where
  "log_write b s =
     bnd (acquire LogLock s) (\<lambda>_ s.
     if sint (lh_n s) \<ge> int LOGSIZE \<or> sint (lh_n s) \<ge> sint (lg_size s) - 1 then Panic ''too big a transaction''
     else if sint (lg_outstanding s) < 1 then Panic ''log_write outside of trans''
     else
       let i = log_slot (lh_block s) (b_blockno (bufs s b)) 0 (nat (sint (lh_n s)));
           s = s\<lparr>lh_block := (lh_block s)(i := b_blockno (bufs s b))\<rparr>
       in bnd (if int i = sint (lh_n s)
               then bnd (bpin b s) (\<lambda>_ s. Ret () (s\<lparr>lh_n := lh_n s + 1\<rparr>))
               else Ret () s) (\<lambda>_ s.
          release LogLock s))"

section \<open>Sections\<close>

lemma held_log [simp]:
  "lg_start (held lk s) = lg_start s"
  "lg_size (held lk s) = lg_size s"
  "lg_outstanding (held lk s) = lg_outstanding s"
  "lg_committing (held lk s) = lg_committing s"
  "lg_dev (held lk s) = lg_dev s"
  "lh_n (held lk s) = lh_n s"
  "lh_block (held lk s) = lh_block s"
  by (simp_all add: held_def set_lock_def push_off_def Let_def machine_defs)

lemma held_log_update [simp]:
  "lg_start_update f1 (held lk s) = held lk (lg_start_update f1 s)"
  "lg_size_update f2 (held lk s) = held lk (lg_size_update f2 s)"
  "lg_outstanding_update f3 (held lk s) = held lk (lg_outstanding_update f3 s)"
  "lg_committing_update f4 (held lk s) = held lk (lg_committing_update f4 s)"
  "lg_dev_update f5 (held lk s) = held lk (lg_dev_update f5 s)"
  "lh_n_update f6 (held lk s) = held lk (lh_n_update f6 s)"
  "lh_block_update f7 (held lk s) = held lk (lh_block_update f7 s)"
  by (simp_all add: held_def set_lock_def push_off_def Let_def machine_defs)

lemma quiet_log_update [simp]:
  "quiet (lg_start_update f1 s) = quiet s"
  "quiet (lg_size_update f2 s) = quiet s"
  "quiet (lg_outstanding_update f3 s) = quiet s"
  "quiet (lg_committing_update f4 s) = quiet s"
  "quiet (lg_dev_update f5 s) = quiet s"
  "quiet (lh_n_update f6 s) = quiet s"
  "quiet (lh_block_update f7 s) = quiet s"
  by (simp_all add: quiet_def hart_ok_def machine_defs)

lemma lock_free_log_update [simp]:
  "lock_free lk (lg_start_update f1 s) = lock_free lk s"
  "lock_free lk (lg_size_update f2 s) = lock_free lk s"
  "lock_free lk (lg_outstanding_update f3 s) = lock_free lk s"
  "lock_free lk (lg_committing_update f4 s) = lock_free lk s"
  "lock_free lk (lg_dev_update f5 s) = lock_free lk s"
  "lock_free lk (lh_n_update f6 s) = lock_free lk s"
  "lock_free lk (lh_block_update f7 s) = lock_free lk s"
  by (simp_all add: lock_free_def)

lemma mycpu_log_update [simp]:
  "mycpu (lg_start_update f1 s) = mycpu s"
  "mycpu (lg_size_update f2 s) = mycpu s"
  "mycpu (lg_outstanding_update f3 s) = mycpu s"
  "mycpu (lg_committing_update f4 s) = mycpu s"
  "mycpu (lg_dev_update f5 s) = mycpu s"
  "mycpu (lh_n_update f6 s) = mycpu s"
  "mycpu (lh_block_update f7 s) = mycpu s"
  by (simp_all add: mycpu_def cpuid_def)

lemma intr_get_log_update [simp]:
  "intr_get (lg_start_update f1 s) = intr_get s"
  "intr_get (lg_size_update f2 s) = intr_get s"
  "intr_get (lg_outstanding_update f3 s) = intr_get s"
  "intr_get (lg_committing_update f4 s) = intr_get s"
  "intr_get (lg_dev_update f5 s) = intr_get s"
  "intr_get (lh_n_update f6 s) = intr_get s"
  "intr_get (lh_block_update f7 s) = intr_get s"
  by (simp_all add: intr_get_def)

lemma set_cpu_proc_log [simp]:
  "lg_start (set_cpu_proc p s) = lg_start s"
  "lg_size (set_cpu_proc p s) = lg_size s"
  "lg_outstanding (set_cpu_proc p s) = lg_outstanding s"
  "lg_committing (set_cpu_proc p s) = lg_committing s"
  "lg_dev (set_cpu_proc p s) = lg_dev s"
  "lh_n (set_cpu_proc p s) = lh_n s"
  "lh_block (set_cpu_proc p s) = lh_block s"
  by (simp_all add: set_cpu_proc_def machine_defs)

lemma set_cpu_proc_log_update [simp]:
  "lg_start_update f1 (set_cpu_proc p s) = set_cpu_proc p (lg_start_update f1 s)"
  "lg_size_update f2 (set_cpu_proc p s) = set_cpu_proc p (lg_size_update f2 s)"
  "lg_outstanding_update f3 (set_cpu_proc p s) = set_cpu_proc p (lg_outstanding_update f3 s)"
  "lg_committing_update f4 (set_cpu_proc p s) = set_cpu_proc p (lg_committing_update f4 s)"
  "lg_dev_update f5 (set_cpu_proc p s) = set_cpu_proc p (lg_dev_update f5 s)"
  "lh_n_update f6 (set_cpu_proc p s) = set_cpu_proc p (lh_n_update f6 s)"
  "lh_block_update f7 (set_cpu_proc p s) = set_cpu_proc p (lh_block_update f7 s)"
  by (simp_all add: set_cpu_proc_def machine_defs)

lemma procs_free_log_update [simp]:
  "procs_free (lg_start_update f1 s) = procs_free s"
  "procs_free (lg_size_update f2 s) = procs_free s"
  "procs_free (lg_outstanding_update f3 s) = procs_free s"
  "procs_free (lg_committing_update f4 s) = procs_free s"
  "procs_free (lg_dev_update f5 s) = procs_free s"
  "procs_free (lh_n_update f6 s) = procs_free s"
  "procs_free (lh_block_update f7 s) = procs_free s"
  by (simp_all add: procs_free_def)

lemma calm_log_update [simp]:
  "calm p (lg_start_update f1 s) = calm p s"
  "calm p (lg_size_update f2 s) = calm p s"
  "calm p (lg_outstanding_update f3 s) = calm p s"
  "calm p (lg_committing_update f4 s) = calm p s"
  "calm p (lg_dev_update f5 s) = calm p s"
  "calm p (lh_n_update f6 s) = calm p s"
  "calm p (lh_block_update f7 s) = calm p s"
  by (simp_all add: calm_def)

lemma upd_order_log [upd_order]:
  "procs_update f1 (lg_start_update g1 s) = lg_start_update g1 (procs_update f1 s)"
  "sleeplocks_update f2 (lg_start_update g2 s) = lg_start_update g2 (sleeplocks_update f2 s)"
  "bufs_update f3 (lg_start_update g3 s) = lg_start_update g3 (bufs_update f3 s)"
  "disk_update f4 (lg_start_update g4 s) = lg_start_update g4 (disk_update f4 s)"
  "image_update f5 (lg_start_update g5 s) = lg_start_update g5 (image_update f5 s)"
  "hist_update f6 (lg_start_update g6 s) = lg_start_update g6 (hist_update f6 s)"
  "vio_log_update f7 (lg_start_update g7 s) = lg_start_update g7 (vio_log_update f7 s)"
  "procs_update f8 (lg_size_update g8 s) = lg_size_update g8 (procs_update f8 s)"
  "sleeplocks_update f9 (lg_size_update g9 s) = lg_size_update g9 (sleeplocks_update f9 s)"
  "bufs_update f10 (lg_size_update g10 s) = lg_size_update g10 (bufs_update f10 s)"
  "disk_update f11 (lg_size_update g11 s) = lg_size_update g11 (disk_update f11 s)"
  "image_update f12 (lg_size_update g12 s) = lg_size_update g12 (image_update f12 s)"
  "hist_update f13 (lg_size_update g13 s) = lg_size_update g13 (hist_update f13 s)"
  "vio_log_update f14 (lg_size_update g14 s) = lg_size_update g14 (vio_log_update f14 s)"
  "lg_start_update f15 (lg_size_update g15 s) = lg_size_update g15 (lg_start_update f15 s)"
  "procs_update f16 (lg_outstanding_update g16 s) = lg_outstanding_update g16 (procs_update f16 s)"
  "sleeplocks_update f17 (lg_outstanding_update g17 s) = lg_outstanding_update g17 (sleeplocks_update f17 s)"
  "bufs_update f18 (lg_outstanding_update g18 s) = lg_outstanding_update g18 (bufs_update f18 s)"
  "disk_update f19 (lg_outstanding_update g19 s) = lg_outstanding_update g19 (disk_update f19 s)"
  "image_update f20 (lg_outstanding_update g20 s) = lg_outstanding_update g20 (image_update f20 s)"
  "hist_update f21 (lg_outstanding_update g21 s) = lg_outstanding_update g21 (hist_update f21 s)"
  "vio_log_update f22 (lg_outstanding_update g22 s) = lg_outstanding_update g22 (vio_log_update f22 s)"
  "lg_start_update f23 (lg_outstanding_update g23 s) = lg_outstanding_update g23 (lg_start_update f23 s)"
  "lg_size_update f24 (lg_outstanding_update g24 s) = lg_outstanding_update g24 (lg_size_update f24 s)"
  "procs_update f25 (lg_committing_update g25 s) = lg_committing_update g25 (procs_update f25 s)"
  "sleeplocks_update f26 (lg_committing_update g26 s) = lg_committing_update g26 (sleeplocks_update f26 s)"
  "bufs_update f27 (lg_committing_update g27 s) = lg_committing_update g27 (bufs_update f27 s)"
  "disk_update f28 (lg_committing_update g28 s) = lg_committing_update g28 (disk_update f28 s)"
  "image_update f29 (lg_committing_update g29 s) = lg_committing_update g29 (image_update f29 s)"
  "hist_update f30 (lg_committing_update g30 s) = lg_committing_update g30 (hist_update f30 s)"
  "vio_log_update f31 (lg_committing_update g31 s) = lg_committing_update g31 (vio_log_update f31 s)"
  "lg_start_update f32 (lg_committing_update g32 s) = lg_committing_update g32 (lg_start_update f32 s)"
  "lg_size_update f33 (lg_committing_update g33 s) = lg_committing_update g33 (lg_size_update f33 s)"
  "lg_outstanding_update f34 (lg_committing_update g34 s) = lg_committing_update g34 (lg_outstanding_update f34 s)"
  "procs_update f35 (lg_dev_update g35 s) = lg_dev_update g35 (procs_update f35 s)"
  "sleeplocks_update f36 (lg_dev_update g36 s) = lg_dev_update g36 (sleeplocks_update f36 s)"
  "bufs_update f37 (lg_dev_update g37 s) = lg_dev_update g37 (bufs_update f37 s)"
  "disk_update f38 (lg_dev_update g38 s) = lg_dev_update g38 (disk_update f38 s)"
  "image_update f39 (lg_dev_update g39 s) = lg_dev_update g39 (image_update f39 s)"
  "hist_update f40 (lg_dev_update g40 s) = lg_dev_update g40 (hist_update f40 s)"
  "vio_log_update f41 (lg_dev_update g41 s) = lg_dev_update g41 (vio_log_update f41 s)"
  "lg_start_update f42 (lg_dev_update g42 s) = lg_dev_update g42 (lg_start_update f42 s)"
  "lg_size_update f43 (lg_dev_update g43 s) = lg_dev_update g43 (lg_size_update f43 s)"
  "lg_outstanding_update f44 (lg_dev_update g44 s) = lg_dev_update g44 (lg_outstanding_update f44 s)"
  "lg_committing_update f45 (lg_dev_update g45 s) = lg_dev_update g45 (lg_committing_update f45 s)"
  "procs_update f46 (lh_n_update g46 s) = lh_n_update g46 (procs_update f46 s)"
  "sleeplocks_update f47 (lh_n_update g47 s) = lh_n_update g47 (sleeplocks_update f47 s)"
  "bufs_update f48 (lh_n_update g48 s) = lh_n_update g48 (bufs_update f48 s)"
  "disk_update f49 (lh_n_update g49 s) = lh_n_update g49 (disk_update f49 s)"
  "image_update f50 (lh_n_update g50 s) = lh_n_update g50 (image_update f50 s)"
  "hist_update f51 (lh_n_update g51 s) = lh_n_update g51 (hist_update f51 s)"
  "vio_log_update f52 (lh_n_update g52 s) = lh_n_update g52 (vio_log_update f52 s)"
  "lg_start_update f53 (lh_n_update g53 s) = lh_n_update g53 (lg_start_update f53 s)"
  "lg_size_update f54 (lh_n_update g54 s) = lh_n_update g54 (lg_size_update f54 s)"
  "lg_outstanding_update f55 (lh_n_update g55 s) = lh_n_update g55 (lg_outstanding_update f55 s)"
  "lg_committing_update f56 (lh_n_update g56 s) = lh_n_update g56 (lg_committing_update f56 s)"
  "lg_dev_update f57 (lh_n_update g57 s) = lh_n_update g57 (lg_dev_update f57 s)"
  "procs_update f58 (lh_block_update g58 s) = lh_block_update g58 (procs_update f58 s)"
  "sleeplocks_update f59 (lh_block_update g59 s) = lh_block_update g59 (sleeplocks_update f59 s)"
  "bufs_update f60 (lh_block_update g60 s) = lh_block_update g60 (bufs_update f60 s)"
  "disk_update f61 (lh_block_update g61 s) = lh_block_update g61 (disk_update f61 s)"
  "image_update f62 (lh_block_update g62 s) = lh_block_update g62 (image_update f62 s)"
  "hist_update f63 (lh_block_update g63 s) = lh_block_update g63 (hist_update f63 s)"
  "vio_log_update f64 (lh_block_update g64 s) = lh_block_update g64 (vio_log_update f64 s)"
  "lg_start_update f65 (lh_block_update g65 s) = lh_block_update g65 (lg_start_update f65 s)"
  "lg_size_update f66 (lh_block_update g66 s) = lh_block_update g66 (lg_size_update f66 s)"
  "lg_outstanding_update f67 (lh_block_update g67 s) = lh_block_update g67 (lg_outstanding_update f67 s)"
  "lg_committing_update f68 (lh_block_update g68 s) = lh_block_update g68 (lg_committing_update f68 s)"
  "lg_dev_update f69 (lh_block_update g69 s) = lh_block_update g69 (lg_dev_update f69 s)"
  "lh_n_update f70 (lh_block_update g70 s) = lh_block_update g70 (lh_n_update f70 s)"
  by simp_all

lemma cache_log_update [simp]:
  "view (lg_start_update f1 s) = view s"
  "ref (lg_start_update f2 s) = ref s"
  "lck (lg_start_update f3 s) = lck s"
  "spare (lg_start_update f4 s) = spare s"
  "bcache_inv (lg_start_update f5 s) = bcache_inv s"
  "view (lg_size_update f6 s) = view s"
  "ref (lg_size_update f7 s) = ref s"
  "lck (lg_size_update f8 s) = lck s"
  "spare (lg_size_update f9 s) = spare s"
  "bcache_inv (lg_size_update f10 s) = bcache_inv s"
  "view (lg_outstanding_update f11 s) = view s"
  "ref (lg_outstanding_update f12 s) = ref s"
  "lck (lg_outstanding_update f13 s) = lck s"
  "spare (lg_outstanding_update f14 s) = spare s"
  "bcache_inv (lg_outstanding_update f15 s) = bcache_inv s"
  "view (lg_committing_update f16 s) = view s"
  "ref (lg_committing_update f17 s) = ref s"
  "lck (lg_committing_update f18 s) = lck s"
  "spare (lg_committing_update f19 s) = spare s"
  "bcache_inv (lg_committing_update f20 s) = bcache_inv s"
  "view (lg_dev_update f21 s) = view s"
  "ref (lg_dev_update f22 s) = ref s"
  "lck (lg_dev_update f23 s) = lck s"
  "spare (lg_dev_update f24 s) = spare s"
  "bcache_inv (lg_dev_update f25 s) = bcache_inv s"
  "view (lh_n_update f26 s) = view s"
  "ref (lh_n_update f27 s) = ref s"
  "lck (lh_n_update f28 s) = lck s"
  "spare (lh_n_update f29 s) = spare s"
  "bcache_inv (lh_n_update f30 s) = bcache_inv s"
  "view (lh_block_update f31 s) = view s"
  "ref (lh_block_update f32 s) = ref s"
  "lck (lh_block_update f33 s) = lck s"
  "spare (lh_block_update f34 s) = spare s"
  "bcache_inv (lh_block_update f35 s) = bcache_inv s"
  by (rule cache_cong; simp)+

lemma ready_log_update [simp]:
  "ready p (lg_start_update f1 s) = ready p s"
  "owns_buf p (lg_start_update f2 s) = owns_buf p s"
  "ready p (lg_size_update f3 s) = ready p s"
  "owns_buf p (lg_size_update f4 s) = owns_buf p s"
  "ready p (lg_outstanding_update f5 s) = ready p s"
  "owns_buf p (lg_outstanding_update f6 s) = owns_buf p s"
  "ready p (lg_committing_update f7 s) = ready p s"
  "owns_buf p (lg_committing_update f8 s) = owns_buf p s"
  "ready p (lg_dev_update f9 s) = ready p s"
  "owns_buf p (lg_dev_update f10 s) = owns_buf p s"
  "ready p (lh_n_update f11 s) = ready p s"
  "owns_buf p (lh_n_update f12 s) = owns_buf p s"
  "ready p (lh_block_update f13 s) = ready p s"
  "owns_buf p (lh_block_update f14 s) = owns_buf p s"
  by (simp_all add: ready_def owns_buf_def fun_eq_iff)

end
