(* ===== verification/Recovery.thy ===== *)
theory Recovery
  imports Log
begin

text \<open>
  Atomicity of the log of \<open>src/kernel/log.c\<close> under power failures. The contents of the
  disk after every device operation of \<open>commit\<close> and of \<open>recover_from_log\<close> are the states a
  failure can leave. \<open>recovered\<close> is what recovery makes of them.
\<close>

section \<open>Sequences of block writes\<close>

text \<open>\<open>upds dst g n f\<close>: \<open>f\<close> after writing \<open>g i\<close> at \<open>dst i\<close> for \<open>i = 0, 1, \<dots>, n - 1\<close>.\<close>

primrec upds :: "(nat \<Rightarrow> 'a) \<Rightarrow> (nat \<Rightarrow> 'b) \<Rightarrow> nat \<Rightarrow> ('a \<Rightarrow> 'b) \<Rightarrow> 'a \<Rightarrow> 'b" where
  "upds dst g 0 f = f"
| "upds dst g (Suc n) f = (upds dst g n f)(dst n := g n)"

lemma upds_other: "(\<And>i. i < n \<Longrightarrow> dst i \<noteq> x) \<Longrightarrow> upds dst g n f x = f x"
  by (induction n) auto

lemma upds_at: "inj_on dst {..<n} \<Longrightarrow> i < n \<Longrightarrow> upds dst g n f (dst i) = g i"
proof (induction n)
  case (Suc n)
  then have "dst n \<noteq> dst i" if "i \<noteq> n" using that by (auto simp: inj_on_def)
  then show ?case using Suc by (cases "i = n") (auto simp: inj_on_def)
qed simp

lemma upds_cong: "(\<And>i. i < n \<Longrightarrow> g i = g' i) \<Longrightarrow> upds dst g n f = upds dst g' n f"
  by (induction n) auto

lemma upds_cong_dst: "(\<And>i. i < n \<Longrightarrow> dst i = dst' i) \<Longrightarrow> upds dst g n f = upds dst' g n f"
  by (induction n) auto

section \<open>Copying a block\<close>

text \<open>The outcome of the body of a loop: block \<open>dst\<close> has contents \<open>d\<close>, in the cache and on the
  disk, and references and locks are as before but for the pins \<open>r\<close>.\<close>

definition wrote :: "nat \<Rightarrow> uint32 \<Rightarrow> uint8 list \<Rightarrow> 'x blk_state_scheme \<Rightarrow> 'x blk_state_scheme \<Rightarrow> bool" where
  "wrote p dst d s t \<longleftrightarrow> ready p t \<and> io_frame p s t \<and> view t = (view s)(dst := d) \<and>
     blk_read (image t) = (blk_read (image s))(dst := d) \<and> lck t = lck s \<and>
     (\<exists>h. hist t = hist s @ h @ [image t] \<and> set h \<subseteq> {image s})"

lemma clean_view:
  assumes "bcache_inv s" "ref s bn = 0"
  shows "view s bn = blk_read (image s) bn"
proof (cases "slot (bufs s) bn")
  case (Some b)
  then show ?thesis
    using assms slot_SomeD [OF Some] bcache_invD(4) [OF assms(1), of b] by (auto simp: view_def ref_def unat_eq_zero)
qed (simp add: view_def)

lemma log_copy:
  assumes "ready p s" "dst \<noteq> src" "\<not> lck s dst" "\<not> lck s src" "ref s dst = 0 \<longrightarrow> 0 < spare s" "0 < ref s src"
    "unat dst < 2 ^ 31" "unat src < 2 ^ 31" "ref s dst < 2 ^ 32 - 1" "ref s src < 2 ^ 32 - 1"
    "\<And>u. io_frame p s u \<Longrightarrow> D u = 1 \<and> B u = src"
  obtains t where "bnd (bread 1 dst s) (\<lambda>to s. bnd (bread (D s) (B s) s) (\<lambda>from s. bnd (bwrite to (memmove_block to from s)) (\<lambda>_ s.
      bnd (brelse from s) (\<lambda>_ s. brelse to s)))) = Ret () t"
    "wrote p dst (view s src) s t" "ref t = ref s" "spare t = spare s"
proof -
  obtain a s1 where b1: "bread 1 dst s = Ret a s1" and "took p dst a s s1" by (rule bread_took [OF assms(1,3,5,7,9)])
  note 1 = tookD [OF this(2)]
  have f: "\<not> lck s1 src" "ref s1 src = 0 \<longrightarrow> 0 < spare s1" "ref s1 src < 2 ^ 32 - 1"
    using assms(2,4,6,10) by (simp_all add: 1(5,6))
  obtain b s2 where b2: "bread 1 src s1 = Ret b s2" and "took p src b s1 s2" by (rule bread_took [OF 1(1) f(1,2) assms(8) f(3)])
  note 2 = tookD [OF this(2)]
  have own: "owns_buf p s2 dst a" using 1(3) 2(10) assms(2) by simp
  have d: "b_data (bufs s2 b) = view s src" using owns_slot(3) [OF readyD(4) [OF 2(1)] 2(3)] 1(4) 2(4) by simp
  have len: "length (view s src) = BSIZE" using readyD(4) [OF assms(1)] by simp
  obtain s3 where b3: "bwrite a (upd_buf a (b_data_update (\<lambda>_. view s src)) s2) = Ret () s3" and "flushed p dst a (view s src) s2 s3"
    by (rule bwrite_flushed [OF 2(1) own len assms(7)])
  note 3 = flushedD [OF this(2)]
  have f: "owns_buf p s3 src b" "ref s3 src = 1 \<longrightarrow> blk_read (image s3) src = view s3 src"
    using 2(3) 3(10) assms(2,6) by (simp_all add: 1(5) 2(5) 3(5))
  obtain s4 where b4: "brelse b s3 = Ret () s4" and "dropped p src s3 s4" by (rule brelse_dropped [OF 3(1) f])
  note 4 = droppedD [OF this(2)]
  have rd: "blk_read (image s4) = (blk_read (image s))(dst := view s src)"
    using len by (auto simp: 4(7) 3(8) 2(8) 1(8) blk_read_write)
  have v: "view s4 = (view s)(dst := view s src)" by (simp add: 4(3) 3(4) 2(4) 1(4))
  have f: "owns_buf p s4 dst a" "ref s4 dst = 1 \<longrightarrow> blk_read (image s4) dst = view s4 dst"
    using 3(3) 4(9) assms(2) by (simp_all add: rd v)
  obtain s5 where b5: "brelse a s4 = Ret () s5" and "dropped p dst s4 s5" by (rule brelse_dropped [OF 4(1) f])
  note 5 = droppedD [OF this(2)]
  have "io_frame p s s5" by (rule io_frame_trans [OF 1(2) io_frame_trans [OF 2(2) io_frame_trans [OF 3(2) io_frame_trans [OF 4(2) 5(2)]]]])
  moreover have "\<exists>h. hist s2 = hist s @ h \<and> set h \<subseteq> {image s}" using 1(8,9) 2(9) by auto
  then have "\<exists>h. hist s5 = hist s @ h @ [image s5] \<and> set h \<subseteq> {image s}" using 3(9) 4(7,8) 5(7,8) by auto
  moreover have "lck s5 = lck s" using assms(3,4) by (auto simp: 1(6) 2(6) 3(6) 4(5) 5(5) fun_eq_iff)
  moreover have r: "ref s5 = ref s" using assms(2) by (auto simp: 1(5) 2(5) 3(5) 4(4) 5(4) fun_eq_iff)
  moreover have sp: "spare s5 = spare s" using assms(2,5,6) by (auto simp: 1(5,7) 2(5,7) 3(5,7) 4(4,6) 5(6))
  ultimately have "wrote p dst (view s src) s s5" using 5(1,3,7) rd v by (simp add: wrote_def)
  then show thesis using that [of s5] r sp b1 b2 b3 b4 b5 assms(11) [OF 1(2)] by (simp add: memmove_block_def d)
qed

lemma log_install:
  assumes "ready p s" "dst \<noteq> src" "\<not> lck s dst" "\<not> lck s src" "ref s src = 0 \<longrightarrow> 0 < spare s" "ref s dst = 0 \<longrightarrow> rec \<and> 1 < spare s"
    "unat dst < 2 ^ 31" "unat src < 2 ^ 31" "ref s dst < 2 ^ 32 - 1" "ref s src < 2 ^ 32 - 1"
    "\<And>u. io_frame p s u \<Longrightarrow> D u = 1 \<and> B u = dst"
  obtains t where "bnd (bread 1 src s) (\<lambda>lbuf s. bnd (bread (D s) (B s) s) (\<lambda>dbuf s. bnd (bwrite dbuf (memmove_block dbuf lbuf s)) (\<lambda>_ s.
      bnd (if \<not> rec then bunpin dbuf s else Ret () s) (\<lambda>_ s. bnd (brelse lbuf s) (\<lambda>_ s. brelse dbuf s))))) = Ret () t"
    "wrote p dst (view s src) s t" "ref t = (ref s)(dst := if rec then ref s dst else ref s dst - 1)"
    "spare t = spare s + (if \<not> rec \<and> ref s dst = 1 then 1 else 0)"
proof -
  obtain b s1 where b1: "bread 1 src s = Ret b s1" and "took p src b s s1" by (rule bread_took [OF assms(1,4,5,8,10)])
  note 1 = tookD [OF this(2)]
  have f: "\<not> lck s1 dst" "ref s1 dst = 0 \<longrightarrow> 0 < spare s1" "ref s1 dst < 2 ^ 32 - 1"
    using assms(2,3,6,9) by (auto simp: 1(5-7))
  obtain a s2 where b2: "bread 1 dst s1 = Ret a s2" and "took p dst a s1 s2" by (rule bread_took [OF 1(1) f(1,2) assms(7) f(3)])
  note 2 = tookD [OF this(2)]
  have own: "owns_buf p s2 src b" using 1(3) 2(10) assms(2) by simp
  have d: "b_data (bufs s2 b) = view s src" using owns_slot(3) [OF readyD(4) [OF 2(1)] own] by (simp add: 1(4) 2(4))
  have len: "length (view s src) = BSIZE" using readyD(4) [OF assms(1)] by simp
  obtain s3 where b3: "bwrite a (upd_buf a (b_data_update (\<lambda>_. view s src)) s2) = Ret () s3" and "flushed p dst a (view s src) s2 s3"
    by (rule bwrite_flushed [OF 2(1,3) len assms(7)])
  note 3 = flushedD [OF this(2)]
  obtain s4 where b4: "(if \<not> rec then bunpin a s3 else Ret () s3) = Ret () s4"
    and "repinned p dst (if rec then ref s3 dst else ref s3 dst - 1) s3 s4"
  proof (cases rec)
    case True
    then show thesis using that [of s3] 3(1) by (simp add: repinned_def)
  next
    case False
    have f: "1 < ref s3 dst" using assms(2,6) False by (simp add: 1(5) 2(5) 3(5))
    show thesis by (rule bunpin_repinned [OF 3(1,3) f]) (use that False in simp)
  qed
  note 4 = repinnedD [OF this(2)]
  have rd: "blk_read (image s4) = (blk_read (image s))(dst := view s src)"
    using len by (auto simp: 4(7) 3(8) 2(8) 1(8) blk_read_write)
  have v: "view s4 = (view s)(dst := view s src)" by (simp add: 4(3) 3(4) 2(4) 1(4))
  have r: "ref s4 src = Suc (ref s src)" using assms(2) by (simp add: 1(5) 2(5) 3(5) 4(4))
  have f: "owns_buf p s4 src b" "ref s4 src = 1 \<longrightarrow> blk_read (image s4) src = view s4 src"
    using own 3(10) 4(9) assms(2) clean_view [OF readyD(4) [OF assms(1)], of src] by (simp_all add: rd v r)
  obtain s5 where b5: "brelse b s4 = Ret () s5" and "dropped p src s4 s5" by (rule brelse_dropped [OF 4(1) f])
  note 5 = droppedD [OF this(2)]
  have f: "owns_buf p s5 dst a" "ref s5 dst = 1 \<longrightarrow> blk_read (image s5) dst = view s5 dst"
    using 3(3) 4(9) 5(9) assms(2) by (simp_all add: rd v 5(3,7))
  obtain s6 where b6: "brelse a s5 = Ret () s6" and "dropped p dst s5 s6" by (rule brelse_dropped [OF 5(1) f])
  note 6 = droppedD [OF this(2)]
  have "io_frame p s s6"
    by (rule io_frame_trans [OF 1(2) io_frame_trans [OF 2(2) io_frame_trans [OF 3(2) io_frame_trans [OF 4(2) io_frame_trans [OF 5(2) 6(2)]]]]])
  moreover have "\<exists>h. hist s2 = hist s @ h \<and> set h \<subseteq> {image s}" using 1(8,9) 2(9) by auto
  then have "\<exists>h. hist s6 = hist s @ h @ [image s6] \<and> set h \<subseteq> {image s}" using 3(9) 4(7,8) 5(7,8) 6(7,8) by auto
  moreover have "lck s6 = lck s" using assms(3,4) by (auto simp: 1(6) 2(6) 3(6) 4(5) 5(5) 6(5) fun_eq_iff)
  moreover have r: "ref s6 = (ref s)(dst := if rec then ref s dst else ref s dst - 1)"
    using assms(2) by (auto simp: 1(5) 2(5) 3(5) 4(4) 5(4) 6(4) fun_eq_iff)
  moreover have sp: "spare s6 = spare s + (if \<not> rec \<and> ref s dst = 1 then 1 else 0)"
    using assms(2,5,6) by (auto simp: 1(5,7) 2(5,7) 3(5,7) 4(4,6) 5(4,6) 6(6))
  ultimately have "wrote p dst (view s src) s s6" using 6(1,3,7) 5(3,7) rd v by (simp add: wrote_def)
  then show thesis using that [of s6] r sp b1 b2 b3 b4 b5 b6 assms(11) [OF 1(2)] by (simp add: memmove_block_def d)
qed

section \<open>The loops\<close>

definition nlog :: "'x log_state_scheme \<Rightarrow> nat" where
  "nlog s = nat (sint (lh_n s))"

definition logno :: "'x log_state_scheme \<Rightarrow> nat \<Rightarrow> uint32" where
  "logno s i = lg_start s + of_nat i + 1"

text \<open>The blocks of the log, its header included; a log whose header in memory is sensible.\<close>

definition in_log :: "uint32 \<Rightarrow> uint32 \<Rightarrow> bool" where
  "in_log st bn \<longleftrightarrow> unat st \<le> unat bn \<and> unat bn \<le> unat st + LOGSIZE"

definition log_wf :: "'x log_state_scheme \<Rightarrow> bool" where
  "log_wf s \<longleftrightarrow> lg_dev s = 1 \<and> unat (lh_n s) \<le> LOGSIZE \<and> unat (lg_start s) + LOGSIZE < 2 ^ 31 \<and>
     inj_on (lh_block s) {..<unat (lh_n s)} \<and>
     (\<forall>i < unat (lh_n s). unat (lh_block s i) < 2 ^ 31 \<and> \<not> in_log (lg_start s) (lh_block s i))"

lemma io_frame_log [simp]:
  assumes "io_frame p s t"
  shows "lg_start t = lg_start s" "lg_size t = lg_size s" "lg_outstanding t = lg_outstanding s"
    "lg_committing t = lg_committing s" "lg_dev t = lg_dev s" "lh_n t = lh_n s" "lh_block t = lh_block s"
    "logno t = logno s" "nlog t = nlog s" "log_wf t = log_wf s"
proof -
  have e: "t = s\<lparr>procs := procs t, sleeplocks := sleeplocks t, bufs := bufs t, disk := disk t,
    image := image t, hist := hist t, vio_log := vio_log t\<rparr>" using assms by (simp add: io_frame_def)
  show 1: "lg_start t = lg_start s" "lg_size t = lg_size s" "lg_outstanding t = lg_outstanding s"
    "lg_committing t = lg_committing s" "lg_dev t = lg_dev s" "lh_n t = lh_n s" "lh_block t = lh_block s"
    by (subst e, simp)+
  show "logno t = logno s" "nlog t = nlog s" "log_wf t = log_wf s"
    by (auto simp: 1 logno_def nlog_def log_wf_def)
qed

lemma sint_small:
  fixes w :: uint32
  assumes "unat w < 2 ^ 31"
  shows "sint w = int (unat w)"
proof -
  have "int (unat w) < int (2 ^ 31)" using assms by (simp only: of_nat_less_iff)
  then have "uint w < 2 ^ 31" by simp
  moreover have "- (2 ^ 31) \<le> uint w" by (rule order_trans [of _ 0]) simp_all
  ultimately have "signed_take_bit 31 (uint w) = uint w" by (intro signed_take_bit_int_eq_self) simp_all
  then show ?thesis by (simp add: sint_uint)
qed

lemma log_wfD:
  assumes "log_wf s"
  shows "lg_dev s = 1" "nlog s = unat (lh_n s)" "nlog s \<le> 30" "unat (lg_start s) < 2 ^ 31" "inj_on (lh_block s) {..<nlog s}"
    "i < nlog s \<Longrightarrow> unat (lh_block s i) < 2 ^ 31" "i < nlog s \<Longrightarrow> \<not> in_log (lg_start s) (lh_block s i)"
    "i < 30 \<Longrightarrow> unat (logno s i) = unat (lg_start s) + i + 1" "i < 30 \<Longrightarrow> unat (logno s i) < 2 ^ 31"
    "i < 30 \<Longrightarrow> in_log (lg_start s) (logno s i)" "i < 30 \<Longrightarrow> logno s i \<noteq> lg_start s" "in_log (lg_start s) (lg_start s)"
proof -
  have n: "unat (lh_n s) \<le> 30" "unat (lg_start s) + 30 < 2 ^ 31" using assms by (simp_all add: log_wf_def)
  show nl: "nlog s = unat (lh_n s)" using n(1) by (simp add: nlog_def sint_small)
  show "lg_dev s = 1" "nlog s \<le> 30" "unat (lg_start s) < 2 ^ 31" "inj_on (lh_block s) {..<nlog s}"
    "i < nlog s \<Longrightarrow> unat (lh_block s i) < 2 ^ 31" "i < nlog s \<Longrightarrow> \<not> in_log (lg_start s) (lh_block s i)"
    using assms by (simp_all add: nl log_wf_def)
  show l: "unat (logno s i) = unat (lg_start s) + i + 1" if "i < 30"
    using n(2) that by (simp add: logno_def unat_word_ariths unat_of_nat)
  show "unat (logno s i) < 2 ^ 31" "in_log (lg_start s) (logno s i)" if "i < 30"
    using n(2) that by (simp_all add: l in_log_def)
  show "logno s i \<noteq> lg_start s" if "i < 30"
    using l [OF that] by auto
  show "in_log (lg_start s) (lg_start s)" by (simp add: in_log_def)
qed

text \<open>After \<open>k\<close> rounds of a loop that writes \<open>g i\<close> to block \<open>dst i\<close>.\<close>

definition copied :: "nat \<Rightarrow> (nat \<Rightarrow> uint32) \<Rightarrow> (nat \<Rightarrow> uint8 list) \<Rightarrow> nat \<Rightarrow> 'x blk_state_scheme \<Rightarrow> 'x blk_state_scheme \<Rightarrow> bool" where
  "copied p dst g k s t \<longleftrightarrow> ready p t \<and> io_frame p s t \<and> view t = upds dst g k (view s) \<and>
     blk_read (image t) = upds dst g k (blk_read (image s)) \<and> lck t = lck s \<and>
     (\<exists>h. hist t = hist s @ h \<and> (\<forall>img \<in> set h. \<exists>j \<le> k. blk_read img = upds dst g j (blk_read (image s))))"

lemma copied_0: "ready p s \<Longrightarrow> copied p dst g 0 s s"
  by (simp add: copied_def)

lemma copied_Suc:
  assumes "copied p dst g k s t" "wrote p (dst k) (g k) t u"
  shows "copied p dst g (Suc k) s u"
proof -
  obtain h where h: "hist t = hist s @ h" "\<forall>img \<in> set h. \<exists>j \<le> k. blk_read img = upds dst g j (blk_read (image s))"
    using assms(1) unfolding copied_def by blast
  obtain h' where h': "hist u = hist t @ h' @ [image u]" "set h' \<subseteq> {image t}" using assms(2) unfolding wrote_def by blast
  have t: "blk_read (image t) = upds dst g k (blk_read (image s))" and u: "blk_read (image u) = upds dst g (Suc k) (blk_read (image s))"
    using assms by (simp_all add: copied_def wrote_def)
  have "\<exists>j \<le> Suc k. blk_read img = upds dst g j (blk_read (image s))" if img: "img \<in> set (h @ h' @ [image u])" for img
  proof -
    consider "img \<in> set h" | "img = image t" | "img = image u" using img h'(2) by auto
    then show ?thesis
    proof cases
      case 1
      then show ?thesis using h(2) le_SucI by blast
    next
      case 2
      then show ?thesis using t by (intro exI [of _ k]) simp
    next
      case 3
      then show ?thesis using u by (intro exI [of _ "Suc k"]) simp
    qed
  qed
  then have "\<exists>h. hist u = hist s @ h \<and> (\<forall>img \<in> set h. \<exists>j \<le> Suc k. blk_read img = upds dst g j (blk_read (image s)))"
    using h(1) h'(1) by (intro exI [of _ "h @ h' @ [image u]"]) simp
  moreover have "io_frame p s u" using assms io_frame_trans unfolding copied_def wrote_def by blast
  ultimately show ?thesis using assms u by (simp add: copied_def wrote_def)
qed

lemma copied_cong:
  assumes "\<And>i. i < k \<Longrightarrow> g i = g' i" "copied p dst g k s t"
  shows "copied p dst g' k s t"
proof -
  have e: "upds dst g j f = upds dst g' j f" if "j \<le> k" for j and f :: "uint32 \<Rightarrow> uint8 list"
    using assms(1) that by (intro upds_cong) simp
  then have "(\<exists>j \<le> k. F = upds dst g j f) \<longleftrightarrow> (\<exists>j \<le> k. F = upds dst g' j f)" for F f by metis
  then show ?thesis using assms(2) unfolding copied_def e [OF order_refl] by simp
qed

lemma write_log_copies:
  assumes "ready p s" "log_wf s" "\<And>bn. \<not> lck s bn" "\<And>bn. ref s bn < 2 ^ 32 - 1" "0 < spare s" "\<And>i. i < nlog s \<Longrightarrow> 0 < ref s (lh_block s i)"
  obtains t where "write_log s = Ret () t" "copied p (logno s) (\<lambda>i. view s (lh_block s i)) (nlog s) s t" "ref t = ref s" "spare t = spare s"
proof -
  note w = log_wfD [OF assms(2)]
  let ?g = "\<lambda>i. view s (lh_block s i)"
  let ?P = "\<lambda>k t. k \<le> nlog s \<and> copied p (logno s) ?g k s t \<and> ref t = ref s \<and> spare t = spare s"
  let ?body = "\<lambda>tail s. bnd (bread (lg_dev s) (lg_start s + of_nat tail + 1) s) (\<lambda>to s.
    bnd (bread (lg_dev s) (lh_block s tail) s) (\<lambda>from s. bnd (bwrite to (memmove_block to from s)) (\<lambda>_ s. bnd (brelse from s) (\<lambda>_ s. brelse to s))))"
  have "\<exists>t. forn (nlog s) 0 ?body s = Ret () t \<and> ?P (0 + nlog s) t"
  proof (rule forn_rule)
    show "?P 0 s" using copied_0 assms(1) by simp
  next
    fix k t assume "k < 0 + nlog s" and P: "?P k t"
    then have k: "k < nlog s" "k < 30" using w(3) by simp_all
    have c: "ready p t" "io_frame p s t" "view t = upds (logno s) ?g k (view s)" "lck t = lck s" using P by (auto simp: copied_def)
    have ne: "logno s i \<noteq> lh_block s k" if "i \<le> k" for i using w(7) [OF k(1)] w(10) [of i] that k(2) by auto
    have v: "view t (lh_block s k) = ?g k" unfolding c(3) using ne by (intro upds_other) simp
    have f: "\<not> lck t (logno s k)" "\<not> lck t (lh_block s k)" "ref t (logno s k) = 0 \<longrightarrow> 0 < spare t" "0 < ref t (lh_block s k)"
      "ref t (logno s k) < 2 ^ 32 - 1" "ref t (lh_block s k) < 2 ^ 32 - 1"
      using assms(3-6) k c(4) P by simp_all
    have src: "lg_dev u = 1 \<and> lh_block u k = lh_block s k" if "io_frame p t u" for u
      using io_frame_trans [OF c(2) that] w(1) by simp
    obtain u where u: "bnd (bread 1 (logno s k) t) (\<lambda>to s. bnd (bread (lg_dev s) (lh_block s k) s) (\<lambda>from s.
        bnd (bwrite to (memmove_block to from s)) (\<lambda>_ s. bnd (brelse from s) (\<lambda>_ s. brelse to s)))) = Ret () u"
      "wrote p (logno s k) (view t (lh_block s k)) t u" "ref u = ref t" "spare u = spare t"
      by (rule log_copy [OF c(1) ne [OF order_refl] f(1-4) w(9) [OF k(2)] w(6) [OF k(1)] f(5,6) src])
    have "?body k t = Ret () u" using u(1) c(2) w(1) by (simp add: logno_def)
    moreover have "copied p (logno s) ?g (Suc k) s u" using copied_Suc [of p "logno s" ?g k s t u] P u(2) v by simp
    ultimately show "\<exists>u. ?body k t = Ret () u \<and> ?P (Suc k) u" using u(3,4) P k(1) by (intro exI [of _ u]) simp
  qed
  then show thesis using that by (auto simp: write_log_def nlog_def)
qed

lemma card_less_Suc: "card {i. i < Suc k \<and> Q i} = card {i. i < k \<and> Q i} + (if Q k then 1 else 0)"
proof -
  have "{i. i < Suc k \<and> Q i} = (if Q k then insert k {i. i < k \<and> Q i} else {i. i < k \<and> Q i})"
    by (auto simp: less_Suc_eq)
  then show ?thesis by simp
qed

lemma install_copies:
  assumes "ready p s" "log_wf s" "\<And>bn. \<not> lck s bn" "\<And>bn. ref s bn < 2 ^ 32 - 1" "0 < spare s"
    "\<And>i. i < nlog s \<Longrightarrow> 0 < ref s (lh_block s i) \<or> rec \<and> 1 < spare s"
  obtains t where "install_trans rec s = Ret () t" "copied p (lh_block s) (\<lambda>i. view s (logno s i)) (nlog s) s t"
    "ref t = upds (lh_block s) (\<lambda>i. ref s (lh_block s i) - (if rec then 0 else 1)) (nlog s) (ref s)"
    "spare t = spare s + (if rec then 0 else card {i. i < nlog s \<and> ref s (lh_block s i) = 1})"
proof -
  note w = log_wfD [OF assms(2)]
  let ?g = "\<lambda>i. view s (logno s i)" and ?r = "\<lambda>i. ref s (lh_block s i) - (if rec then 0 else 1)"
  let ?P = "\<lambda>k t. k \<le> nlog s \<and> copied p (lh_block s) ?g k s t \<and> ref t = upds (lh_block s) ?r k (ref s) \<and>
    spare t = spare s + (if rec then 0 else card {i. i < k \<and> ref s (lh_block s i) = 1})"
  let ?body = "\<lambda>tail s. bnd (bread (lg_dev s) (lg_start s + of_nat tail + 1) s) (\<lambda>lbuf s.
    bnd (bread (lg_dev s) (lh_block s tail) s) (\<lambda>dbuf s. bnd (bwrite dbuf (memmove_block dbuf lbuf s)) (\<lambda>_ s.
    bnd (if \<not> rec then bunpin dbuf s else Ret () s) (\<lambda>_ s. bnd (brelse lbuf s) (\<lambda>_ s. brelse dbuf s)))))"
  have "\<exists>t. forn (nlog s) 0 ?body s = Ret () t \<and> ?P (0 + nlog s) t"
  proof (rule forn_rule)
    show "?P 0 s" using copied_0 assms(1) by simp
  next
    fix k t assume "k < 0 + nlog s" and P: "?P k t"
    then have k: "k < nlog s" "k < 30" using w(3) by simp_all
    have c: "ready p t" "io_frame p s t" "view t = upds (lh_block s) ?g k (view s)" "lck t = lck s" using P by (auto simp: copied_def)
    have r: "ref t = upds (lh_block s) ?r k (ref s)" "spare s \<le> spare t"
      "spare t = spare s + (if rec then 0 else card {i. i < k \<and> ref s (lh_block s i) = 1})" using P by simp_all
    have ne: "lh_block s i \<noteq> logno s k" if "i \<le> k" for i using w(7) [of i] w(10) [OF k(2)] that k(1) by auto
    have ne': "lh_block s i \<noteq> lh_block s k" if "i < k" for i using inj_onD [OF w(5), of i k] that k(1) by auto
    have v: "view t (logno s k) = ?g k" unfolding c(3) using ne by (intro upds_other) simp
    have rl: "ref t (logno s k) = ref s (logno s k)" unfolding r(1) using ne by (intro upds_other) simp
    have rk: "ref t (lh_block s k) = ref s (lh_block s k)" unfolding r(1) using ne' by (intro upds_other)
    have f: "\<not> lck t (lh_block s k)" "\<not> lck t (logno s k)" "ref t (logno s k) = 0 \<longrightarrow> 0 < spare t"
      "ref t (lh_block s k) = 0 \<longrightarrow> rec \<and> 1 < spare t" "ref t (lh_block s k) < 2 ^ 32 - 1" "ref t (logno s k) < 2 ^ 32 - 1"
      using assms(3-5) assms(6) [OF k(1)] c(4) r(2) by (auto simp: rl rk)
    have dst: "lg_dev u = 1 \<and> lh_block u k = lh_block s k" if "io_frame p t u" for u
      using io_frame_trans [OF c(2) that] w(1) by simp
    obtain u where u: "bnd (bread 1 (logno s k) t) (\<lambda>lbuf s. bnd (bread (lg_dev s) (lh_block s k) s) (\<lambda>dbuf s.
        bnd (bwrite dbuf (memmove_block dbuf lbuf s)) (\<lambda>_ s. bnd (if \<not> rec then bunpin dbuf s else Ret () s) (\<lambda>_ s.
        bnd (brelse lbuf s) (\<lambda>_ s. brelse dbuf s))))) = Ret () u"
      "wrote p (lh_block s k) (view t (logno s k)) t u"
      "ref u = (ref t)(lh_block s k := if rec then ref t (lh_block s k) else ref t (lh_block s k) - 1)"
      "spare u = spare t + (if \<not> rec \<and> ref t (lh_block s k) = 1 then 1 else 0)"
      by (rule log_install [OF c(1) ne [OF order_refl] f(1-4) w(6) [OF k(1)] w(9) [OF k(2)] f(5,6) dst])
    have "?body k t = Ret () u" using u(1) c(2) w(1) by (simp add: logno_def)
    moreover have "copied p (lh_block s) ?g (Suc k) s u" using copied_Suc [of p "lh_block s" ?g k s t u] P u(2) v by simp
    moreover have "ref u = (ref t)(lh_block s k := ?r k)" unfolding u(3) rk by simp
    then have "ref u = upds (lh_block s) ?r (Suc k) (ref s)" unfolding r(1) by simp
    moreover have "spare u = spare s + (if rec then 0 else card {i. i < Suc k \<and> ref s (lh_block s i) = 1})"
      using u(4) r(3) unfolding rk by (simp add: card_less_Suc)
    ultimately show "\<exists>u. ?body k t = Ret () u \<and> ?P (Suc k) u" using k(1) by (intro exI [of _ u]) simp
  qed
  then show thesis using that by (auto simp: install_trans_def nlog_def)
qed

section \<open>The header\<close>

lemma header_fields:
  fixes blk :: "nat \<Rightarrow> uint32" and v :: uint32
  assumes "length hb = 1024" "n \<le> 30"
  defines "h \<equiv> fold (\<lambda>i hb. put32 hb (4 + 4 * i) (blk i)) [0..<n] (put32 hb 0 v)"
  shows "length h = 1024" "get32 h 0 = v" "\<forall>i < n. get32 h (4 + 4 * i) = blk i"
proof -
  have "length h = 1024 \<and> get32 h 0 = v \<and> (\<forall>i < n. get32 h (4 + 4 * i) = blk i)"
    unfolding h_def using assms(2)
  proof (induction n)
    case 0
    then show ?case using assms(1) by simp
  next
    case (Suc n)
    then show ?case by (auto simp: less_Suc_eq)
  qed
  then show "length h = 1024" "get32 h 0 = v" "\<forall>i < n. get32 h (4 + 4 * i) = blk i" by simp_all
qed

lemma write_head_wrote:
  assumes "ready p s" "log_wf s" "\<And>bn. \<not> lck s bn" "\<And>bn. ref s bn < 2 ^ 32 - 1" "0 < spare s"
  obtains t hb where "write_head s = Ret () t" "wrote p (lg_start s) hb s t" "ref t = ref s" "spare t = spare s"
    "get32 hb 0 = lh_n s" "\<forall>i < nlog s. get32 hb (4 + 4 * i) = lh_block s i"
proof -
  note w = log_wfD [OF assms(2)]
  let ?st = "lg_start s"
  have "ref s ?st = 0 \<longrightarrow> 0 < spare s" using assms(5) by simp
  from bread_took [OF assms(1,3) this w(4) assms(4)] obtain b s1 where b1: "bread 1 ?st s = Ret b s1" and "took p ?st b s s1" .
  note 1 = tookD [OF this(2)]
  define hb where "hb = fold (\<lambda>i hb. put32 hb (4 + 4 * i) (lh_block s i)) [0..<nlog s] (put32 (view s ?st) 0 (lh_n s))"
  have len: "length (view s ?st) = 1024" using readyD(4) [OF assms(1)] by simp
  note h = header_fields [OF len w(3), of "lh_block s" "lh_n s", folded hb_def]
  have d: "b_data (bufs s1 b) = view s ?st" using owns_slot(3) [OF readyD(4) [OF 1(1)] 1(3)] 1(4) by simp
  obtain s2 where b2: "bwrite b (upd_buf b (b_data_update (\<lambda>_. hb)) s1) = Ret () s2" and "flushed p ?st b hb s1 s2"
    by (rule bwrite_flushed [OF 1(1,3) _ w(4)]) (use h(1) in simp_all)
  note 2 = flushedD [OF this(2)]
  have rd: "blk_read (image s2) = (blk_read (image s))(?st := hb)" using h(1) by (auto simp: 2(8) 1(8) blk_read_write)
  have v: "view s2 = (view s)(?st := hb)" by (simp add: 2(4) 1(4))
  have cl: "ref s2 ?st = 1 \<longrightarrow> blk_read (image s2) ?st = view s2 ?st" by (simp add: rd v)
  obtain s3 where b3: "brelse b s2 = Ret () s3" and "dropped p ?st s2 s3" by (rule brelse_dropped [OF 2(1,3) cl])
  note 3 = droppedD [OF this(2)]
  have "io_frame p s s3" by (rule io_frame_trans [OF 1(2) io_frame_trans [OF 2(2) 3(2)]])
  moreover have "\<exists>h. hist s1 = hist s @ h \<and> set h \<subseteq> {image s}" using 1(9) by auto
  then have "\<exists>h. hist s3 = hist s @ h @ [image s3] \<and> set h \<subseteq> {image s}" using 2(9) 3(7,8) by auto
  moreover have "lck s3 = lck s" using assms(3) by (auto simp: 1(6) 2(6) 3(5) fun_eq_iff)
  moreover have r: "ref s3 = ref s" by (auto simp: 1(5) 2(5) 3(4) fun_eq_iff)
  moreover have sp: "spare s3 = spare s" using assms(5) by (auto simp: 1(5,7) 2(5,7) 3(6))
  ultimately have "wrote p ?st hb s s3" using 3(1,3,7) rd v by (simp add: wrote_def)
  moreover have "write_head s = Ret () s3"
    using b1 b2 b3 1(2) by (simp add: write_head_def w(1) d hb_def nlog_def Let_def)
  ultimately show thesis using that r sp h(2,3) by blast
qed

lemma read_head_reads:
  assumes "ready p s" "lg_dev s = 1" "unat (lg_start s) < 2 ^ 31" "\<And>bn. \<not> lck s bn" "\<And>bn. ref s bn < 2 ^ 32 - 1" "0 < spare s"
  obtains t where "read_head s = Ret () t" "ready p t" "view t = view s" "image t = image s" "lck t = lck s" "ref t = ref s" "spare t = spare s"
    "lg_start t = lg_start s" "lg_dev t = 1" "lh_n t = get32 (view s (lg_start s)) 0"
    "\<forall>i < nlog t. lh_block t i = get32 (view s (lg_start s)) (4 + 4 * i)" "hist t = hist s \<or> hist t = hist s @ [image s]"
proof -
  let ?st = "lg_start s"
  have "ref s ?st = 0 \<longrightarrow> 0 < spare s" using assms(6) by simp
  from bread_took [OF assms(1,4) this assms(3,5)] obtain b s1 where b1: "bread 1 ?st s = Ret b s1" and "took p ?st b s s1" .
  note 1 = tookD [OF this(2)]
  have d: "b_data (bufs s1 b) = view s ?st" using owns_slot(3) [OF readyD(4) [OF 1(1)] 1(3)] 1(4) by simp
  define lh where "lh = view s ?st"
  define n where "n = nat (sint (get32 lh 0))"
  define bl where "bl = fold (\<lambda>i f. f(i := get32 lh (4 + 4 * i))) [0..<n] (lh_block s1)"
  define s2 where "s2 = s1\<lparr>lh_n := get32 lh 0, lh_block := bl\<rparr>"
  have bl: "\<forall>i < n. bl i = get32 lh (4 + 4 * i)"
  proof -
    have "i < m \<Longrightarrow> fold (\<lambda>i f. f(i := get32 lh (4 + 4 * i))) [0..<m] g i = get32 lh (4 + 4 * i)" for i m g
      by (induction m) (auto simp: less_Suc_eq)
    then show ?thesis by (simp add: bl_def)
  qed
  have 2: "ready p s2" "owns_buf p s2 ?st b" using 1(1,3) by (simp_all add: s2_def)
  have cl: "ref s2 ?st = 1 \<longrightarrow> blk_read (image s2) ?st = view s2 ?st"
    using clean_view [OF readyD(4) [OF assms(1)], of ?st] by (simp add: s2_def 1(4,5,8))
  obtain s3 where b3: "brelse b s2 = Ret () s3" and "dropped p ?st s2 s3" by (rule brelse_dropped [OF 2 cl])
  note 3 = droppedD [OF this(2)]
  have "read_head s = Ret () s3"
    using b1 b3 by (simp add: read_head_def assms(2) d s2_def bl_def n_def Let_def flip: lh_def)
  moreover have "lck s3 = lck s" using assms(4) by (auto simp: s2_def 1(6) 3(5) fun_eq_iff)
  moreover have "ref s3 = ref s" by (auto simp: s2_def 1(5) 3(4) fun_eq_iff)
  moreover have "spare s3 = spare s" using assms(6) by (auto simp: s2_def 1(5,7) 3(6))
  moreover have "lg_start s3 = ?st" "lg_dev s3 = 1" "lh_n s3 = get32 lh 0" "lh_block s3 = bl"
    using 3(2) 1(2) assms(2) by (simp_all add: s2_def)
  moreover have "\<forall>i < nlog s3. lh_block s3 i = get32 lh (4 + 4 * i)" using calculation bl by (simp add: nlog_def n_def)
  moreover have "view s3 = view s" "image s3 = image s" "hist s3 = hist s \<or> hist s3 = hist s @ [image s]"
    using 1(4,8,9) by (simp_all add: 3 s2_def)
  ultimately show thesis using that 3(1) by (simp add: lh_def)
qed

section \<open>Recovery\<close>

text \<open>What recovery makes of a disk with contents \<open>f\<close>, for a log that starts at \<open>st\<close>.\<close>

definition recovered :: "uint32 \<Rightarrow> (uint32 \<Rightarrow> uint8 list) \<Rightarrow> uint32 \<Rightarrow> uint8 list" where
  "recovered st f = upds (\<lambda>i. get32 (f st) (4 + 4 * i)) (\<lambda>i. f (st + of_nat i + 1)) (nat (sint (get32 (f st) 0))) f"

text \<open>Two contents agree outside the log; recovery from any of the disks \<open>h\<close> makes \<open>F\<close>.\<close>

definition agree :: "uint32 \<Rightarrow> (uint32 \<Rightarrow> uint8 list) \<Rightarrow> (uint32 \<Rightarrow> uint8 list) \<Rightarrow> bool" where
  "agree st f g \<longleftrightarrow> (\<forall>bn. \<not> in_log st bn \<longrightarrow> f bn = g bn)"

definition recovers :: "uint32 \<Rightarrow> image list \<Rightarrow> (uint32 \<Rightarrow> uint8 list) \<Rightarrow> bool" where
  "recovers st h f \<longleftrightarrow> (\<forall>img \<in> set h. agree st (recovered st (blk_read img)) f)"

lemma recovered_clear: "get32 (f st) 0 = 0 \<Longrightarrow> recovered st f = f"
  by (simp add: recovered_def)

lemma recovered_committed:
  assumes "get32 (f st) 0 = lh_n s" "\<forall>i < nlog s. get32 (f st) (4 + 4 * i) = lh_block s i" "st = lg_start s"
    "\<forall>i < nlog s. f (logno s i) = g i"
  shows "recovered st f = upds (lh_block s) g (nlog s) f"
proof -
  have n: "nat (sint (get32 (f st) 0)) = nlog s" by (simp add: assms(1) nlog_def)
  have l: "(\<lambda>i. f (st + of_nat i + 1)) = (\<lambda>i. f (logno s i))" by (simp add: assms(3) logno_def)
  have "recovered st f = upds (lh_block s) (\<lambda>i. f (logno s i)) (nlog s) f"
    unfolding recovered_def n l by (rule upds_cong_dst) (use assms(2) in simp)
  also have "\<dots> = upds (lh_block s) g (nlog s) f" using assms(4) by (intro upds_cong) simp
  finally show ?thesis .
qed

lemma upds_indep: "x \<in> dst ` {..<n} \<Longrightarrow> upds dst g n f x = upds dst g n f' x"
proof (induction n)
  case (Suc n)
  then show ?case by (cases "x = dst n") (auto simp: lessThan_Suc)
qed simp

lemma upds_absorb:
  assumes "j \<le> n"
  shows "upds dst g n (upds dst g j f) x = upds dst g n f x"
proof (cases "x \<in> dst ` {..<n}")
  case False
  then have "upds dst g n f' x = f' x" for f' by (intro upds_other) auto
  moreover have "upds dst g j f x = f x" using False assms by (intro upds_other) force
  ultimately show ?thesis by simp
qed (rule upds_indep)

lemma upds_point: "f x = f' x \<Longrightarrow> upds dst g n f x = upds dst g n f' x"
  by (induction n) auto

lemma logno_inj:
  assumes "log_wf s"
  shows "inj_on (logno s) {..<30}"
proof (rule inj_onI)
  fix i j assume i: "i \<in> {..<30}" and j: "j \<in> {..<30}" and e: "logno s i = logno s j"
  have "i < 30" "j < 30" using i j by simp_all
  from log_wfD(8) [OF assms this(1)] log_wfD(8) [OF assms this(2)] show "i = j" unfolding e by linarith
qed

lemma log_blind:
  assumes "log_wf s" "\<not> in_log (lg_start s) bn" "n \<le> 30"
  shows "((upds (logno s) g n f)(lg_start s := hb)) bn = f bn"
proof -
  note w = log_wfD [OF assms(1)]
  have "logno s i \<noteq> bn" if "i < n" for i using w(10) [of i] assms(2,3) that by auto
  then have "upds (logno s) g n f bn = f bn" by (rule upds_other)
  moreover have "bn \<noteq> lg_start s" using assms(2) w(12) by auto
  ultimately show ?thesis by simp
qed

lemma upds_blind:
  assumes "log_wf s" "\<not> in_log (lg_start s) bn" "n \<le> 30"
  shows "upds dst g' k ((upds (logno s) g n f)(lg_start s := hb)) bn = upds dst g' k f bn"
  by (rule upds_point) (rule log_blind [OF assms])

text \<open>Before the header is written, recovery finds the old contents.\<close>

lemma recovered_before:
  assumes "log_wf s" "get32 (f (lg_start s)) 0 = 0" "j \<le> nlog s" "\<not> in_log (lg_start s) bn"
  shows "recovered (lg_start s) (upds (logno s) g j f) bn = f bn"
proof -
  note w = log_wfD [OF assms(1)]
  have j: "i < 30" if "i < j" for i using that assms(3) w(3) by simp
  have "upds (logno s) g j f (lg_start s) = f (lg_start s)" using w(11) j by (intro upds_other) blast
  then have "recovered (lg_start s) (upds (logno s) g j f) = upds (logno s) g j f" using assms(2) by (intro recovered_clear) simp
  moreover have "upds (logno s) g j f bn = f bn" using w(10) j assms(4) by (intro upds_other) blast
  ultimately show ?thesis by simp
qed

text \<open>Once the header is written, recovery finds the new contents, however far the
  installation has got.\<close>

lemma recovered_after:
  assumes "log_wf s" "get32 hb 0 = lh_n s" "\<forall>i < nlog s. get32 hb (4 + 4 * i) = lh_block s i" "j \<le> nlog s"
    "\<not> in_log (lg_start s) bn"
  shows "recovered (lg_start s) (upds (lh_block s) g j ((upds (logno s) g (nlog s) f)(lg_start s := hb))) bn =
    upds (lh_block s) g (nlog s) f bn"
proof -
  note w = log_wfD [OF assms(1)]
  let ?st = "lg_start s"
  let ?f1 = "(upds (logno s) g (nlog s) f)(?st := hb)"
  let ?f = "upds (lh_block s) g j ?f1"
  have blk: "lh_block s i \<noteq> x" if "i < j" "in_log ?st x" for i x using w(7) [of i] that assms(4) by auto
  have "?f ?st = ?f1 ?st" using blk w(12) by (intro upds_other) blast
  then have st: "?f ?st = hb" by simp
  have log: "?f (logno s i) = g i" if "i < nlog s" for i
  proof -
    have i: "i < 30" using that w(3) by simp
    have "inj_on (logno s) {..<nlog s}" using inj_on_subset [OF logno_inj [OF assms(1)]] w(3) by auto
    then have "?f1 (logno s i) = g i" using w(11) [OF i] upds_at that by simp
    moreover have "?f (logno s i) = ?f1 (logno s i)" using blk w(10) [OF i] by (intro upds_other) blast
    ultimately show ?thesis by simp
  qed
  have "recovered ?st ?f = upds (lh_block s) g (nlog s) ?f"
    using assms(2,3) log by (intro recovered_committed) (simp_all add: st)
  then have "recovered ?st ?f bn = upds (lh_block s) g (nlog s) ?f1 bn" using upds_absorb [OF assms(4)] by simp
  also have "\<dots> = upds (lh_block s) g (nlog s) f bn" by (rule upds_blind [OF assms(1,5) w(3)])
  finally show ?thesis .
qed

lemma io_frame_lh_n:
  assumes "io_frame p s t"
  shows "io_frame p (s\<lparr>lh_n := n\<rparr>) (t\<lparr>lh_n := n\<rparr>)"
proof -
  have e: "t = s\<lparr>procs := procs t, sleeplocks := sleeplocks t, bufs := bufs t, disk := disk t,
    image := image t, hist := hist t, vio_log := vio_log t\<rparr>" using assms by (simp add: io_frame_def)
  have "t\<lparr>lh_n := n\<rparr> = s\<lparr>procs := procs t, sleeplocks := sleeplocks t, bufs := bufs t, disk := disk t,
    image := image t, hist := hist t, vio_log := vio_log t, lh_n := n\<rparr>" by (subst e) simp
  then show ?thesis using assms unfolding io_frame_def by (simp add: upd_order)
qed

lemma commit_phases:
  assumes "ready p s" "log_wf s" "\<And>bn. \<not> lck s bn" "\<And>bn. ref s bn < 2 ^ 32 - 1" "0 < spare s"
    "\<And>i. i < nlog s \<Longrightarrow> 0 < ref s (lh_block s i)" "0 < nlog s"
  obtains s1 s2 s3 t hb h0 where "write_log s = Ret () s1" "copied p (logno s) (\<lambda>i. view s (lh_block s i)) (nlog s) s s1"
    "write_head s1 = Ret () s2" "wrote p (lg_start s) hb s1 s2" "get32 hb 0 = lh_n s" "\<forall>i < nlog s. get32 hb (4 + 4 * i) = lh_block s i"
    "install_trans False s2 = Ret () s3" "copied p (lh_block s) (\<lambda>i. view s (lh_block s i)) (nlog s) s2 s3"
    "write_head (s3\<lparr>lh_n := 0\<rparr>) = Ret () t" "wrote p (lg_start s) h0 (s3\<lparr>lh_n := 0\<rparr>) t" "get32 h0 0 = 0" "lh_n t = 0"
    "ref t = upds (lh_block s) (\<lambda>i. ref s (lh_block s i) - 1) (nlog s) (ref s)"
    "spare t = spare s + card {i. i < nlog s \<and> ref s (lh_block s i) = 1}"
    "io_frame p (s\<lparr>lh_n := 0\<rparr>) t" "lck t = lck s"
proof -
  note w = log_wfD [OF assms(2)]
  obtain s1 where 1: "write_log s = Ret () s1" "copied p (logno s) (\<lambda>i. view s (lh_block s i)) (nlog s) s s1" "ref s1 = ref s" "spare s1 = spare s"
    by (rule write_log_copies [OF assms(1-6)])
  have c1: "ready p s1" "io_frame p s s1" "view s1 = upds (logno s) (\<lambda>i. view s (lh_block s i)) (nlog s) (view s)" "lck s1 = lck s"
    using 1(2) by (auto simp: copied_def)
  have "log_wf s1" "\<not> lck s1 bn" "ref s1 bn < 2 ^ 32 - 1" "0 < spare s1" for bn using c1 1 assms(2-5) by simp_all
  from write_head_wrote [OF c1(1) this] obtain s2 hb where 2: "write_head s1 = Ret () s2" "wrote p (lg_start s1) hb s1 s2"
    "ref s2 = ref s1" "spare s2 = spare s1" "get32 hb 0 = lh_n s1" "\<forall>i < nlog s1. get32 hb (4 + 4 * i) = lh_block s1 i" .
  have c2: "ready p s2" "io_frame p s s2" "view s2 = (view s1)(lg_start s := hb)" "lck s2 = lck s"
    using 2(2) c1 io_frame_trans [OF c1(2)] by (auto simp: wrote_def)
  have f2: "log_wf s2" "\<not> lck s2 bn" "ref s2 bn < 2 ^ 32 - 1" "0 < spare s2" for bn using c2 1 2(3,4) assms(2-5) by simp_all
  have g2: "0 < ref s2 (lh_block s2 i) \<or> False \<and> 1 < spare s2" if "i < nlog s2" for i using that c2 1 2(3) assms(6) by simp
  obtain s3 where 3: "install_trans False s2 = Ret () s3" "copied p (lh_block s2) (\<lambda>i. view s2 (logno s2 i)) (nlog s2) s2 s3"
    "ref s3 = upds (lh_block s2) (\<lambda>i. ref s2 (lh_block s2 i) - (if False then 0 else 1)) (nlog s2) (ref s2)"
    "spare s3 = spare s2 + (if False then 0 else card {i. i < nlog s2 \<and> ref s2 (lh_block s2 i) = 1})"
    by (rule install_copies [OF c2(1) f2 g2])
  have io3: "io_frame p s s3" using 3(2) io_frame_trans [OF c2(2)] by (auto simp: copied_def)
  have g: "view s2 (logno s2 i) = view s (lh_block s i)" if "i < nlog s" for i
  proof -
    have i: "i < 30" using that w(3) by simp
    have "inj_on (logno s) {..<nlog s}" using inj_on_subset [OF logno_inj [OF assms(2)]] w(3) by auto
    then show ?thesis using upds_at that w(11) [OF i] c2(2) by (simp add: c2(3) c1(3))
  qed
  have "copied p (lh_block s) (\<lambda>i. view s2 (logno s2 i)) (nlog s) s2 s3" using 3(2) c2(2) by simp
  then have c3: "copied p (lh_block s) (\<lambda>i. view s (lh_block s i)) (nlog s) s2 s3" by (rule copied_cong [rotated]) (rule g)
  let ?s3 = "s3\<lparr>lh_n := 0\<rparr>"
  have r3: "ref s3 = upds (lh_block s) (\<lambda>i. ref s (lh_block s i) - 1) (nlog s) (ref s)"
    using 3(3) c2(2) 2(3) 1(3) by simp
  have rle: "upds (lh_block s) (\<lambda>i. ref s (lh_block s i) - 1) n (ref s) bn \<le> ref s bn" for n bn by (induction n) auto
  have "ready p ?s3" "log_wf ?s3" "\<not> lck ?s3 bn" "ref ?s3 bn < 2 ^ 32 - 1" "0 < spare ?s3" for bn
    using c3 c2(4) assms(2,3) io3 assms(4) [of bn] rle [of "nlog s" bn] 3(4) 2(4) 1(4) assms(5)
    by (auto simp: copied_def log_wf_def r3)
  from write_head_wrote [OF this] obtain t h0 where 4: "write_head ?s3 = Ret () t" "wrote p (lg_start ?s3) h0 ?s3 t"
    "ref t = ref ?s3" "spare t = spare ?s3" "get32 h0 0 = lh_n ?s3" .
  have "lh_n t = 0" using 4(2) by (auto simp: wrote_def)
  moreover have "io_frame p (s\<lparr>lh_n := 0\<rparr>) t"
    using io_frame_trans [OF io_frame_lh_n [OF io3]] 4(2) unfolding wrote_def by blast
  moreover have "lck t = lck s" using 4(2) c3 c2(4) by (simp add: wrote_def copied_def)
  moreover have "spare t = spare s + card {i. i < nlog s \<and> ref s (lh_block s i) = 1}"
    using 4(4) 3(4) 2(3,4) 1(3,4) c2(2) by simp
  ultimately show thesis
    using that [OF 1(1,2) 2(1) _ _ _ 3(1) c3 4(1), of hb h0] 2(2,5,6) 4(2-5) c1(2) io3 r3 by simp
qed

section \<open>Atomicity of commit\<close>

text \<open>The contents of the disk that \<open>commit\<close> is to make: the logged blocks as the kernel sees
  them, every other block as it is.\<close>

definition committed :: "'x log_state_scheme \<Rightarrow> uint32 \<Rightarrow> uint8 list" where
  "committed s bn = (if bn \<in> lh_block s ` {..<nlog s} then view s bn else blk_read (image s) bn)"

lemma upds_self: "upds dst (\<lambda>i. v (dst i)) n f bn = (if bn \<in> dst ` {..<n} then v bn else f bn)"
  by (induction n) (auto simp: lessThan_Suc)

lemma committed_upds:
  "upds (lh_block s) (\<lambda>i. view s (lh_block s i)) (nlog s) (blk_read (image s)) bn = committed s bn"
  by (simp add: upds_self [of "lh_block s" "view s"] committed_def)

lemma commit_atomic:
  assumes "ready p s" "log_wf s" "\<And>bn. \<not> lck s bn" "\<And>bn. ref s bn < 2 ^ 32 - 1" "0 < spare s"
    "\<And>i. i < nlog s \<Longrightarrow> 0 < ref s (lh_block s i)" "get32 (blk_read (image s) (lg_start s)) 0 = 0"
  obtains t h1 h2 where "commit s = Ret () t" "hist t = hist s @ h1 @ h2"
    "recovers (lg_start s) h1 (blk_read (image s))" "recovers (lg_start s) h2 (committed s)"
    "agree (lg_start s) (blk_read (image t)) (committed s)" "agree (lg_start s) (view t) (view s)"
    "lh_n t = 0" "get32 (blk_read (image t) (lg_start s)) 0 = 0" "ready p t"
    "ref t = upds (lh_block s) (\<lambda>i. ref s (lh_block s i) - 1) (nlog s) (ref s)"
    "spare t = spare s + card {i. i < nlog s \<and> ref s (lh_block s i) = 1}"
    "io_frame p (s\<lparr>lh_n := 0\<rparr>) t" "lck t = lck s"
proof (cases "nlog s = 0")
  case True
  then have c: "commit s = Ret () s" "lh_n s = 0"
    using log_wfD(2) [OF assms(2)] by (simp_all add: commit_def nlog_def unat_eq_zero)
  have e: "s\<lparr>lh_n := 0\<rparr> = s" using c(2) by (intro log_state.equality) simp_all
  have io: "io_frame p (s\<lparr>lh_n := 0\<rparr>) s" unfolding e by simp
  show thesis by (rule that [OF c(1) _ _ _ _ _ c(2) assms(7,1) _ _ io, of "[]" "[]"])
    (use True in \<open>simp_all add: committed_def recovers_def agree_def\<close>)
next
  case False
  note w = log_wfD [OF assms(2)]
  let ?g = "\<lambda>i. view s (lh_block s i)" and ?f = "blk_read (image s)" and ?st = "lg_start s"
  obtain s1 s2 s3 t hb h0 where 1: "write_log s = Ret () s1" "copied p (logno s) ?g (nlog s) s s1"
    and 2: "write_head s1 = Ret () s2" "wrote p ?st hb s1 s2" "get32 hb 0 = lh_n s" "\<forall>i < nlog s. get32 hb (4 + 4 * i) = lh_block s i"
    and 3: "install_trans False s2 = Ret () s3" "copied p (lh_block s) ?g (nlog s) s2 s3"
    and 4: "write_head (s3\<lparr>lh_n := 0\<rparr>) = Ret () t" "wrote p ?st h0 (s3\<lparr>lh_n := 0\<rparr>) t" "get32 h0 0 = 0" "lh_n t = 0"
      "ref t = upds (lh_block s) (\<lambda>i. ref s (lh_block s i) - 1) (nlog s) (ref s)"
      "spare t = spare s + card {i. i < nlog s \<and> ref s (lh_block s i) = 1}"
      "io_frame p (s\<lparr>lh_n := 0\<rparr>) t" "lck t = lck s"
    by (rule commit_phases [OF assms(1-6)]) (use False in auto)
  obtain a where a: "hist s1 = hist s @ a" "\<And>img. img \<in> set a \<Longrightarrow> \<exists>j \<le> nlog s. blk_read img = upds (logno s) ?g j ?f"
    using 1(2) unfolding copied_def by blast
  obtain b where b: "hist s2 = hist s1 @ b @ [image s2]" "set b \<subseteq> {image s1}" using 2(2) unfolding wrote_def by blast
  have i1: "blk_read (image s1) = upds (logno s) ?g (nlog s) ?f" using 1(2) by (simp add: copied_def)
  have i2: "blk_read (image s2) = (upds (logno s) ?g (nlog s) ?f)(?st := hb)" using 2(2) i1 by (simp add: wrote_def)
  obtain c where c: "hist s3 = hist s2 @ c" "\<And>img. img \<in> set c \<Longrightarrow> \<exists>j \<le> nlog s. blk_read img = upds (lh_block s) ?g j (blk_read (image s2))"
    using 3(2) unfolding copied_def by blast
  have i3: "blk_read (image s3) = upds (lh_block s) ?g (nlog s) (blk_read (image s2))" using 3(2) by (simp add: copied_def)
  obtain d where d: "hist t = hist s3 @ d @ [image t]" "set d \<subseteq> {image s3}" using 4(2) unfolding wrote_def by auto
  have i4: "blk_read (image t) = (blk_read (image s3))(?st := h0)" using 4(2) by (simp add: wrote_def)
  have c_eq: "commit s = Ret () t" using False 1(1) 2(1) 3(1) 4(1) by (simp add: commit_def nlog_def)
  have h_eq: "hist t = hist s @ (a @ b) @ (image s2 # c @ d @ [image t])" by (simp add: d(1) c(1) b(1) a(1))
  have st4: "get32 (blk_read (image t) ?st) 0 = 0" by (simp add: i4 4(3))
  note blind = upds_blind [OF assms(2) _ w(3)]
  have home: "blk_read (image t) bn = committed s bn" if "\<not> in_log ?st bn" for bn
  proof -
    have "bn \<noteq> ?st" using that w(12) by auto
    then have "blk_read (image t) bn = upds (lh_block s) ?g (nlog s) ?f bn"
      by (simp add: i4 i3 i2 blind [OF that])
    then show ?thesis by (simp add: committed_upds)
  qed
  have new: "recovered ?st (blk_read img) bn = committed s bn"
    if img: "img \<in> set (image s2 # c @ d @ [image t])" "\<not> in_log ?st bn" for img bn
  proof -
    note after = recovered_after [OF assms(2) 2(3,4) _ img(2), of _ ?g ?f, folded i2, unfolded committed_upds]
    consider "img = image s2" | "img \<in> set c" | "img = image s3" | "img = image t" using img(1) d(2) by auto
    then show ?thesis
    proof cases
      case 1
      then show ?thesis using after [of 0] by simp
    next
      case 2
      then obtain j where "j \<le> nlog s" "blk_read img = upds (lh_block s) ?g j (blk_read (image s2))" using c(2) by blast
      then show ?thesis using after [of j] by simp
    next
      case 3
      then show ?thesis using after [of "nlog s"] i3 by simp
    next
      case 4
      then show ?thesis using recovered_clear [of "blk_read (image t)" ?st] st4 home [OF img(2)] by simp
    qed
  qed
  have old: "recovered ?st (blk_read img) bn = ?f bn" if img: "img \<in> set (a @ b)" "\<not> in_log ?st bn" for img bn
  proof -
    obtain j where "j \<le> nlog s" "blk_read img = upds (logno s) ?g j ?f" using img(1) a(2) b(2) i1 by auto
    then show ?thesis using recovered_before [OF assms(2), of ?f j bn ?g] assms(7) img(2) by simp
  qed
  have vw: "view t bn = view s bn" if "\<not> in_log ?st bn" for bn
  proof -
    have "bn \<noteq> ?st" using that w(12) by auto
    then have "view t bn = upds (lh_block s) ?g (nlog s) (view s) bn"
      using 1(2) 2(2) 3(2) 4(2) by (simp add: copied_def wrote_def blind [OF that])
    then show ?thesis by (simp add: upds_self [of "lh_block s" "view s"])
  qed
  show thesis
    by (rule that [OF c_eq h_eq _ _ _ _ 4(4) st4 _ 4(5-8)])
      (use old new home vw 4(2) in \<open>simp_all add: wrote_def recovers_def agree_def\<close>)
qed

section \<open>Recovery is right and can be interrupted\<close>

text \<open>The header on the disk is one that \<open>commit\<close> can have written.\<close>

definition header_ok :: "uint32 \<Rightarrow> uint8 list \<Rightarrow> bool" where
  "header_ok st hb \<longleftrightarrow> unat (get32 hb 0) \<le> LOGSIZE \<and> unat st + LOGSIZE < 2 ^ 31 \<and>
     inj_on (\<lambda>i. get32 hb (4 + 4 * i)) {..<unat (get32 hb 0)} \<and>
     (\<forall>i < unat (get32 hb 0). unat (get32 hb (4 + 4 * i)) < 2 ^ 31 \<and> \<not> in_log st (get32 hb (4 + 4 * i)))"

lemma recover_installs:
  assumes "ready p s" "lg_dev s = 1" "header_ok (lg_start s) (blk_read (image s) (lg_start s))" "view s = blk_read (image s)"
    "\<And>bn. \<not> lck s bn" "\<And>bn. ref s bn < 2 ^ 32 - 1" "1 < spare s"
  obtains t h where "recover_from_log s = Ret () t" "hist t = hist s @ h" "ready p t" "lh_n t = 0"
    "recovers (lg_start s) h (recovered (lg_start s) (blk_read (image s)))"
    "agree (lg_start s) (blk_read (image t)) (recovered (lg_start s) (blk_read (image s)))" "agree (lg_start s) (view t) (blk_read (image t))"
    "get32 (blk_read (image t) (lg_start s)) 0 = 0"
proof -
  let ?st = "lg_start s" and ?f = "blk_read (image s)"
  have st: "unat ?st < 2 ^ 31" and sp: "0 < spare s" using assms(3,7) by (simp_all add: header_ok_def)
  obtain s1 where 1: "read_head s = Ret () s1" "ready p s1" "view s1 = ?f" "image s1 = image s" "lck s1 = lck s" "ref s1 = ref s"
    "spare s1 = spare s" "lg_start s1 = ?st" "lg_dev s1 = 1" "lh_n s1 = get32 (?f ?st) 0"
    "\<forall>i < nlog s1. lh_block s1 i = get32 (?f ?st) (4 + 4 * i)" "hist s1 = hist s \<or> hist s1 = hist s @ [image s]"
    by (rule read_head_reads [OF assms(1,2) st assms(5,6) sp, unfolded assms(4)])
  have n: "nlog s1 = unat (lh_n s1)" using assms(3) by (simp add: nlog_def sint_small header_ok_def 1(10))
  have inj: "inj_on (lh_block s1) {..<nlog s1} \<longleftrightarrow> inj_on (\<lambda>i. get32 (?f ?st) (4 + 4 * i)) {..<nlog s1}"
    using 1(11) by (intro inj_on_cong) simp
  have wf: "log_wf s1"
    using assms(3) inj 1(11) n unfolding log_wf_def header_ok_def by (simp add: 1(8-10))
  note w = log_wfD [OF wf]
  have f: "\<not> lck s1 bn" "ref s1 bn < 2 ^ 32 - 1" "0 < spare s1" for bn using assms(5-7) 1 by simp_all
  have f2: "0 < ref s1 (lh_block s1 i) \<or> True \<and> 1 < spare s1" for i using assms(7) 1(7) by simp
  obtain s2 where 2: "install_trans True s1 = Ret () s2" "copied p (lh_block s1) (\<lambda>i. view s1 (logno s1 i)) (nlog s1) s1 s2"
    "ref s2 = upds (lh_block s1) (\<lambda>i. ref s1 (lh_block s1 i) - (if True then 0 else 1)) (nlog s1) (ref s1)"
    "spare s2 = spare s1 + (if True then 0 else card {i. i < nlog s1 \<and> ref s1 (lh_block s1 i) = 1})"
    by (rule install_copies [OF 1(2) wf f f2])
  let ?blk = "lh_block s1" and ?g = "\<lambda>i. ?f (logno s1 i)" and ?n = "nlog s1"
  have c2: "ready p s2" "io_frame p s1 s2" "view s2 = upds ?blk ?g ?n ?f" "blk_read (image s2) = upds ?blk ?g ?n ?f" "lck s2 = lck s1"
    using 2(2) by (simp_all add: copied_def 1(3,4))
  obtain a where a: "hist s2 = hist s1 @ a" "\<And>img. img \<in> set a \<Longrightarrow> \<exists>j \<le> ?n. blk_read img = upds ?blk ?g j ?f"
    using 2(2) unfolding copied_def 1(3,4) by blast
  have r2: "ref s2 = ref s1" using 2(3) upds_self [of ?blk "ref s1" ?n "ref s1"] by (simp add: fun_eq_iff)
  let ?s2 = "s2\<lparr>lh_n := 0\<rparr>"
  have "ready p ?s2" "log_wf ?s2" "\<not> lck ?s2 bn" "ref ?s2 bn < 2 ^ 32 - 1" "0 < spare ?s2" for bn
    using c2(1,2,5) f(1) [of bn] f(2) [of bn] f(3) wf 2(4) by (simp_all add: r2 log_wf_def)
  from write_head_wrote [OF this] obtain t h0 where 3: "write_head ?s2 = Ret () t" "wrote p (lg_start ?s2) h0 ?s2 t" "get32 h0 0 = lh_n ?s2" .
  obtain d where d: "hist t = hist s2 @ d @ [image t]" "set d \<subseteq> {image s2}" using 3(2) unfolding wrote_def by auto
  have st2: "lg_start s2 = ?st" using c2(2) 1(8) by simp
  have i3: "blk_read (image t) = (upds ?blk ?g ?n ?f)(?st := h0)" "view t = (upds ?blk ?g ?n ?f)(?st := h0)" "lh_n t = 0" "ready p t"
    using 3(2) c2(3,4) st2 by (auto simp: wrote_def)
  have st3: "get32 (blk_read (image t) ?st) 0 = 0" using 3(3) by (simp add: i3)
  obtain b where b: "hist s1 = hist s @ b" "set b \<subseteq> {image s}" using 1(12) by auto
  have rec: "recovered ?st (upds ?blk ?g j ?f) bn = upds ?blk ?g ?n ?f bn" if "j \<le> ?n" for j bn
  proof -
    have blk: "?blk i \<noteq> x" if "i < j" "in_log ?st x" for i x using w(7) [of i] that \<open>j \<le> ?n\<close> by (auto simp: 1(8))
    have s: "upds ?blk ?g j ?f ?st = ?f ?st" using blk w(12) by (intro upds_other) (auto simp: 1(8))
    have "upds ?blk ?g j ?f (logno s1 i) = ?g i" if "i < ?n" for i
      using blk w(10) [of i] that w(3) by (intro upds_other) (auto simp: 1(8))
    then have "recovered ?st (upds ?blk ?g j ?f) = upds ?blk ?g ?n (upds ?blk ?g j ?f)"
      using 1(8,10,11) by (intro recovered_committed) (simp_all add: s)
    then show ?thesis using upds_absorb [OF that] by simp
  qed
  have home: "blk_read (image t) bn = recovered ?st ?f bn" "view t bn = blk_read (image t) bn" if "\<not> in_log ?st bn" for bn
  proof -
    have "bn \<noteq> ?st" using that w(12) by (auto simp: 1(8))
    then show "blk_read (image t) bn = recovered ?st ?f bn" "view t bn = blk_read (image t) bn" using rec [of 0 bn] by (simp_all add: i3)
  qed
  have eq: "recover_from_log s = Ret () t" using 1(1) 2(1) 3(1) by (simp add: recover_from_log_def)
  have h_eq: "hist t = hist s @ (b @ a @ d @ [image t])" by (simp add: d(1) a(1) b(1))
  have any: "recovered ?st (blk_read img) bn = recovered ?st ?f bn"
    if img: "img \<in> set (b @ a @ d @ [image t])" "\<not> in_log ?st bn" for img bn
  proof -
    consider "img = image s" | "img \<in> set a" | "img = image s2" | "img = image t" using img(1) b(2) d(2) by auto
    then show ?thesis
    proof cases
      case 2
      then obtain j where "j \<le> ?n" "blk_read img = upds ?blk ?g j ?f" using a(2) by blast
      then show ?thesis using rec [of j bn] rec [of 0 bn] by simp
    next
      case 3
      then show ?thesis using rec [of ?n bn] rec [of 0 bn] by (simp add: c2(4))
    next
      case 4
      then show ?thesis using recovered_clear [of "blk_read (image t)" ?st] st3 home(1) [OF img(2)] by simp
    qed simp
  qed
  show thesis
    by (rule that [OF eq h_eq i3(4,3) _ _ _ st3]) (use any home in \<open>simp_all add: recovers_def agree_def\<close>)
qed

section \<open>Properties\<close>

text \<open>A state with block 50 changed, pinned and logged, and one whose disk holds a committed
  transaction that has not been installed.\<close>

definition log_example :: log_state where
  "log_example = blk_state.extend (cache_state\<lparr>bufs := (bufs cache_state)(29 := (bufs cache_state 29)\<lparr>b_valid := True,
     b_dev := 1, b_blockno := 50, b_refcnt := 1, b_data := replicate 1024 9\<rparr>), image := \<lambda>_. 0\<rparr>)
     \<lparr>lg_start = 2, lg_size = 30, lg_outstanding = 0, lg_committing = False, lg_dev = 1, lh_n = 1, lh_block = \<lambda>_. 50\<rparr>"

lemma log_example_cache:
  "bufs log_example = (bufs cache_state)(29 := (bufs cache_state 29)\<lparr>b_valid := True, b_dev := 1, b_blockno := 50, b_refcnt := 1, b_data := replicate 1024 9\<rparr>)"
  "image log_example = (\<lambda>_. 0)" "sleeplocks log_example = sleeplocks cache_state" "disk log_example = disk cache_state" "blkdev log_example = blkdev cache_state"
  "calm 0 log_example = calm 0 cache_state" "lg_start log_example = 2" "lg_size log_example = 30" "lg_dev log_example = 1" "lh_n log_example = 1"
  "lh_block log_example i = 50" "lg_outstanding log_example = 0" "lg_committing log_example = False"
  by (simp_all add: log_example_def blk_state.defs calm_def quiet_def hart_ok_def lock_free_def machine_defs)

lemma log_example_facts:
  "ready 0 log_example" "log_wf log_example" "ref log_example bn = (if bn = 50 then 1 else 0)" "\<not> lck log_example bn"
  "0 < spare log_example" "view log_example 50 = replicate 1024 9" "nlog log_example = 1"
proof -
  note c = cache_state_facts
  have z: "bufs cache_state b = empty_buf\<lparr>b_prev := if b = 30 then 0 else b + 1, b_next := if b = 0 then 30 else b - 1\<rparr>" for b
    by (simp add: cache_state_def)
  have inv: "bcache_inv cache_state" using readyD(4) [OF c(1)] .
  obtain xs where "lru (bufs cache_state) xs" using inv by (auto simp: bcache_inv_def)
  then have lru: "lru (bufs log_example) xs" by (subst lru_cong [of _ "bufs cache_state"]) (auto simp: log_example_cache)
  have d: "b_dev (bufs log_example b) = (if b = 29 then 1 else 0)" "b_refcnt (bufs log_example b) = (if b = 29 then 1 else 0)"
    "length (b_data (bufs log_example b)) = 1024" for b
    by (simp_all add: log_example_cache z empty_buf_def)
  have lk: "\<not> sl_locked (sleeplocks log_example (BufSL i))" for i
    by (simp add: log_example_cache cache_state_def disk_state_def sleep_state.defs one_sleeper_def cons_state.defs)
  have "bcache_inv log_example" using lru lk d by (auto simp: bcache_inv_def once_def split: if_splits)
  then show "ready 0 log_example" using c(1) by (simp add: ready_def log_example_cache)
  have sl: "slot (bufs log_example) bn = (if bn = 50 then Some 29 else None)" for bn
  proof (cases "bn = 50")
    case True
    then show ?thesis
      using slot_eq [OF bcache_invD(1) [OF \<open>bcache_inv log_example\<close>], of 29 50] d(1) [of 29] by (simp add: log_example_cache)
  next
    case False
    then show ?thesis using d(1) by (auto simp: slot_def find_None_iff log_example_cache split: if_splits)
  qed
  show "ref log_example bn = (if bn = 50 then 1 else 0)" "\<not> lck log_example bn" by (simp_all add: ref_def lck_def sl lk d)
  show "view log_example 50 = replicate 1024 9" by (simp add: view_def sl) (simp add: log_example_cache)
  have "0 \<in> {b. b < NBUF \<and> b_refcnt (bufs log_example b) = 0}" by (simp add: d)
  then show "0 < spare log_example" unfolding spare_def card_gt_0_iff by (intro conjI) (blast, simp)
  show "log_wf log_example" "nlog log_example = 1" by (auto simp: log_wf_def nlog_def log_example_cache in_log_def inj_on_def)
qed

text \<open>
  C2. \<open>commit\<close> is atomic under power failures. The disk contents after every device
  operation of \<open>commit\<close> fall in two consecutive groups: those up to the write of the header,
  from which recovery restores the contents of before, and those after it, from which
  recovery makes the new contents. \<open>commit\<close> returns with the new contents on the disk, the
  log empty in memory and on the disk, and the blocks as the kernel sees them unchanged.
\<close>

theorem commit_crash_safe:
  assumes "ready p s" "log_wf s" "\<forall>bn. \<not> lck s bn \<and> ref s bn < 2 ^ 32 - 1" "0 < spare s"
    "\<forall>i < nlog s. 0 < ref s (lh_block s i)" "get32 (blk_read (image s) (lg_start s)) 0 = 0"
  shows "\<exists>t h1 h2. commit s = Ret () t \<and> hist t = hist s @ h1 @ h2 \<and>
    recovers (lg_start s) h1 (blk_read (image s)) \<and> recovers (lg_start s) h2 (committed s) \<and>
    agree (lg_start s) (blk_read (image t)) (committed s) \<and> agree (lg_start s) (view t) (view s) \<and>
    lh_n t = 0 \<and> get32 (blk_read (image t) (lg_start s)) 0 = 0 \<and> bcache_inv t"
proof -
  have f: "\<not> lck s bn" "ref s bn < 2 ^ 32 - 1" for bn using assms(3) by simp_all
  have g: "0 < ref s (lh_block s i)" if "i < nlog s" for i using assms(5) that by simp
  show ?thesis by (rule commit_atomic [OF assms(1,2) f assms(4) g assms(6)]) (use readyD(4) in blast)+
qed

theorem commit_crash_safe_witness:
  "\<exists>t. commit log_example = Ret () t \<and> blk_read (image t) 50 = replicate 1024 9 \<and> lh_n t = 0"
proof -
  have h: "get32 (blk_read (image log_example) (lg_start log_example)) 0 = 0"
    by (simp add: log_example_cache blk_read_def bytes_at_def get32_def)
  have "\<forall>i < nlog log_example. 0 < ref log_example (lh_block log_example i)" "\<forall>bn. \<not> lck log_example bn \<and> ref log_example bn < 2 ^ 32 - 1"
    by (simp_all add: log_example_facts log_example_cache)
  then have "\<exists>t. commit log_example = Ret () t \<and> blk_read (image t) 50 = committed log_example 50 \<and> lh_n t = 0"
    using commit_crash_safe [OF log_example_facts(1,2) _ log_example_facts(5) _ h] by (auto simp: log_example_cache in_log_def agree_def)
  moreover have "committed log_example 50 = replicate 1024 9"
    by (simp add: committed_def log_example_facts log_example_cache image_iff)
  ultimately show ?thesis by simp
qed

definition crash_header :: "uint8 list" where
  "crash_header = [1, 0, 0, 0, 50, 0, 0, 0] @ replicate 1016 0"

definition crash_example :: log_state where
  "crash_example = blk_state.extend (cache_state\<lparr>image := blk_write (blk_write (\<lambda>_. 0) 2 crash_header) 3 (replicate 1024 9)\<rparr>)
     \<lparr>lg_start = 2, lg_size = 30, lg_outstanding = 0, lg_committing = False, lg_dev = 1, lh_n = 0, lh_block = \<lambda>_. 0\<rparr>"

lemma crash_example_facts:
  "ready 0 crash_example" "view crash_example = blk_read (image crash_example)" "ref crash_example bn = 0" "\<not> lck crash_example bn"
  "1 < spare crash_example" "lg_start crash_example = 2" "lg_dev crash_example = 1"
  "blk_read (image crash_example) bn = (if bn = 3 then replicate 1024 9 else if bn = 2 then crash_header else blk_read (\<lambda>_. 0) bn)"
proof -
  note c = cache_state_facts
  have e: "bufs crash_example = bufs cache_state" "sleeplocks crash_example = sleeplocks cache_state" "disk crash_example = disk cache_state"
    "blkdev crash_example = blkdev cache_state" "calm 0 crash_example = calm 0 cache_state"
    by (simp_all add: crash_example_def blk_state.defs calm_def quiet_def hart_ok_def lock_free_def machine_defs)
  show "lg_start crash_example = 2" "lg_dev crash_example = 1" by (simp_all add: crash_example_def blk_state.defs)
  have "length crash_header = 1024" by (simp add: crash_header_def)
  then show "blk_read (image crash_example) bn = (if bn = 3 then replicate 1024 9 else if bn = 2 then crash_header else blk_read (\<lambda>_. 0) bn)"
    by (simp add: crash_example_def blk_state.defs blk_read_write)
  show "view crash_example = blk_read (image crash_example)" by (simp add: fun_eq_iff view_def e(1) c(7))
  show "ref crash_example bn = 0" "\<not> lck crash_example bn" by (simp_all add: ref_def lck_def e(1) c(7))
  have z: "b_valid (bufs cache_state b) = False" for b by (simp add: cache_state_def empty_buf_def)
  show "1 < spare crash_example" using c(5) by (simp add: spare_def e(1))
  have "bcache_inv crash_example" using readyD(4) [OF c(1)] unfolding bcache_inv_def e z by simp
  then show "ready 0 crash_example" using c(1) by (simp add: ready_def e)
qed

text \<open>
  C3. Recovery completes an interrupted commit, and can itself be interrupted. After
  \<open>recover_from_log\<close> every block outside the log holds what the header and the log said, the
  log is empty, and a failure at any point of the recovery leaves a disk from which
  recovery makes the same contents.
\<close>

theorem recover_crash_safe:
  assumes "ready p s" "lg_dev s = 1" "header_ok (lg_start s) (blk_read (image s) (lg_start s))" "view s = blk_read (image s)"
    "\<forall>bn. \<not> lck s bn \<and> ref s bn < 2 ^ 32 - 1" "1 < spare s"
  shows "\<exists>t h. recover_from_log s = Ret () t \<and> hist t = hist s @ h \<and>
    recovers (lg_start s) h (recovered (lg_start s) (blk_read (image s))) \<and>
    agree (lg_start s) (blk_read (image t)) (recovered (lg_start s) (blk_read (image s))) \<and>
    agree (lg_start s) (view t) (blk_read (image t)) \<and>
    lh_n t = 0 \<and> get32 (blk_read (image t) (lg_start s)) 0 = 0 \<and> bcache_inv t"
proof -
  have f: "\<not> lck s bn" "ref s bn < 2 ^ 32 - 1" for bn using assms(5) by simp_all
  show ?thesis by (rule recover_installs [OF assms(1-4) f assms(6)]) (use readyD(4) in blast)+
qed

theorem recover_crash_safe_witness:
  "\<exists>t. recover_from_log crash_example = Ret () t \<and> blk_read (image t) 50 = replicate 1024 9 \<and> lh_n t = 0"
proof -
  note c = crash_example_facts
  have h: "get32 crash_header 0 = 1" "get32 crash_header 4 = 50" by (simp_all add: crash_header_def get32_def)
  have ok: "header_ok (lg_start crash_example) (blk_read (image crash_example) (lg_start crash_example))"
    by (simp add: header_ok_def c(6,8) h in_log_def inj_on_def)
  have r: "recovered 2 (blk_read (image crash_example)) 50 = replicate 1024 9"
    by (simp add: recovered_def c(8) h)
  have "\<forall>bn. \<not> lck crash_example bn \<and> ref crash_example bn < 2 ^ 32 - 1" by (simp add: c(3,4))
  then show ?thesis
    using recover_crash_safe [OF c(1,7) ok c(2) _ c(5)] r by (auto simp: c(6) in_log_def agree_def)
qed

end
