(* ===== verification/Logops.thy ===== *)
theory Logops
  imports Recovery
begin

text \<open>
  Transactions: \<open>begin_op\<close>, \<open>log_write\<close> and \<open>end_op\<close> of \<open>src/kernel/log.c\<close> around changes of
  blocks, as every file system call uses them.
\<close>

section \<open>log\_write\<close>

lemma log_slot_hit:
  "i \<le> j \<Longrightarrow> j < i + k \<Longrightarrow> blk j = bn \<Longrightarrow> log_slot blk bn i k < i + k \<and> blk (log_slot blk bn i k) = bn"
proof (induction k arbitrary: i)
  case (Suc k)
  then show ?case using Suc.IH [of "Suc i"] by (cases "i = j") (auto simp: not_less_eq_eq Suc_le_eq)
qed simp

lemma log_slot_miss: "(\<And>j. i \<le> j \<Longrightarrow> j < i + k \<Longrightarrow> blk j \<noteq> bn) \<Longrightarrow> log_slot blk bn i k = i + k"
  by (induction k arbitrary: i) auto

lemma log_slot_found:
  assumes "bn \<in> blk ` {..<n}"
  shows "log_slot blk bn 0 n < n" "blk (log_slot blk bn 0 n) = bn"
  using assms log_slot_hit [of 0 _ n blk bn] by auto

lemma log_slot_new: "bn \<notin> blk ` {..<n} \<Longrightarrow> log_slot blk bn 0 n = n"
  using log_slot_miss [of 0 n blk bn] by auto

lemma sint_less_nat: "unat w < k \<Longrightarrow> k < 2 ^ 31 \<Longrightarrow> sint (w :: uint32) < int k"
  using sint_small [of w] by (simp del: of_nat_unat uint_nat)

lemma log_write_absorbed:
  assumes "calm p s" "unat (lh_n s) < 29" "lg_size s = 30" "sint (lg_outstanding s) \<ge> 1"
    "b_blockno (bufs s b) \<in> lh_block s ` {..<nlog s}"
  shows "log_write b s = Ret () s"
proof -
  note c = calmD [OF assms(1)] and f = log_slot_found [OF assms(5)]
  have "log_slot (lh_block s) (b_blockno (bufs s b)) 0 (nlog s) < nat (sint (lh_n s))" using f(1) by (simp add: nlog_def)
  then have "int (log_slot (lh_block s) (b_blockno (bufs s b)) 0 (nlog s)) \<noteq> sint (lh_n s)" by simp
  moreover have "(lh_block s)(log_slot (lh_block s) (b_blockno (bufs s b)) 0 (nlog s) := b_blockno (bufs s b)) = lh_block s"
    using f(2) by (simp add: fun_eq_iff)
  ultimately show ?thesis
    using assms(3,4) sint_less_nat [OF assms(2)] by (simp add: log_write_def c Let_def flip: nlog_def)
qed

text \<open>A block that is not logged yet is pinned and put in the header.\<close>

lemma log_write_new:
  assumes "ready p s" "owns_buf p s bn b" "unat (lh_n s) < 29" "lg_size s = 30" "sint (lg_outstanding s) \<ge> 1"
    "bn \<notin> lh_block s ` {..<nlog s}" "ref s bn < 2 ^ 32 - 1"
  obtains u where "log_write b s = Ret () (u\<lparr>lh_n := lh_n s + 1, lh_block := (lh_block s)(nlog s := bn)\<rparr>)"
    "repinned p bn (Suc (ref s bn)) s u"
proof -
  note c = calmD [OF readyD(1) [OF assms(1)]]
  have bn: "b_blockno (bufs s b) = bn" using assms(2) by (simp add: owns_buf_def)
  obtain u where u: "bpin b s = Ret () u" "repinned p bn (Suc (ref s bn)) s u" by (rule bpin_repinned [OF assms(1,2,7)])
  have ueq: "u = s\<lparr>bufs := (bufs s)(b := (bufs s b)\<lparr>b_refcnt := b_refcnt (bufs s b) + 1\<rparr>)\<rparr>"
    using u(1) by (simp add: bpin_def c upd_buf_def)
  have slot: "log_slot (lh_block s) bn 0 (nlog s) = nlog s" by (rule log_slot_new [OF assms(6)])
  have n: "int (nlog s) = sint (lh_n s)" using assms(3) sint_small [of "lh_n s"] by (simp add: nlog_def)
  have "log_write b s = Ret () (u\<lparr>lh_n := lh_n s + 1, lh_block := (lh_block s)(nlog s := bn)\<rparr>)"
    using assms(4,5) sint_less_nat [OF assms(3)] n
    by (simp add: log_write_def c Let_def bpin_def upd_buf_def bn slot ueq upd_order flip: nlog_def)
  then show thesis using that u(2) by blast
qed

text \<open>A transaction that is too big, and a write outside a transaction, panic.\<close>

lemma log_write_panics:
  assumes "calm p s" "29 \<le> sint (lh_n s)" "lg_size s = 30"
  shows "log_write b s = Panic ''too big a transaction''"
  using assms(2,3) by (simp add: log_write_def calmD [OF assms(1)])

lemma log_write_outside:
  assumes "calm p s" "unat (lh_n s) < 29" "lg_size s = 30" "sint (lg_outstanding s) < 1"
  shows "log_write b s = Panic ''log_write outside of trans''"
  using assms(3,4) sint_less_nat [OF assms(2)] by (simp add: log_write_def calmD [OF assms(1)])

section \<open>Changing blocks in a transaction\<close>

text \<open>The use of the log that the comment before \<open>log_write\<close> describes, for one block and for
  a list of blocks.\<close>

definition txn_write :: "uint32 \<times> uint8 list \<Rightarrow> 'x log_state_scheme \<Rightarrow> (unit, 'x log_state_scheme) outcome" where
  "txn_write u s = bnd (bread 1 (fst u) s) (\<lambda>b s.
     bnd (log_write b (upd_buf b (b_data_update (\<lambda>_. snd u)) s)) (\<lambda>_ s. brelse b s))"

primrec txn_writes :: "(uint32 \<times> uint8 list) list \<Rightarrow> 'x log_state_scheme \<Rightarrow> (unit, 'x log_state_scheme) outcome" where
  "txn_writes [] s = Ret () s"
| "txn_writes (u # us) s = bnd (txn_write u s) (\<lambda>_ s. txn_writes us s)"

definition updated :: "(uint32 \<times> uint8 list) list \<Rightarrow> (uint32 \<Rightarrow> uint8 list) \<Rightarrow> uint32 \<Rightarrow> uint8 list" where
  "updated us = fold (\<lambda>u f. f(fst u := snd u)) us"

definition txn_ok :: "uint32 \<Rightarrow> uint32 \<times> uint8 list \<Rightarrow> bool" where
  "txn_ok st u \<longleftrightarrow> length (snd u) = BSIZE \<and> unat (fst u) < 2 ^ 31 \<and> \<not> in_log st (fst u)"

text \<open>The state after the writes \<open>us\<close> of a transaction that began in \<open>s0\<close>.\<close>

definition txn_inv :: "nat \<Rightarrow> 'x log_state_scheme \<Rightarrow> (uint32 \<times> uint8 list) list \<Rightarrow> 'x log_state_scheme \<Rightarrow> bool" where
  "txn_inv p s0 us s \<longleftrightarrow> ready p s \<and> log_wf s \<and> lg_start s = lg_start s0 \<and> lg_size s = 30 \<and> lg_outstanding s = 1 \<and>
     \<not> lg_committing s \<and> nlog s \<le> length us \<and> lh_block s ` {..<nlog s} = fst ` set us \<and>
     view s = updated us (view s0) \<and> image s = image s0 \<and> (\<exists>h. hist s = hist s0 @ h \<and> set h \<subseteq> {image s0}) \<and>
     (\<forall>bn. \<not> lck s bn) \<and> ref s = (\<lambda>bn. if bn \<in> fst ` set us then 1 else 0) \<and> spare s + nlog s = 30"

lemma log_wf_snoc:
  assumes "log_wf s" "bn \<notin> lh_block s ` {..<nlog s}" "unat bn < 2 ^ 31" "\<not> in_log (lg_start s) bn" "nlog s < 30"
    "lg_dev t = 1" "lg_start t = lg_start s" "lh_n t = lh_n s + 1" "lh_block t = (lh_block s)(nlog s := bn)"
  shows "log_wf t" "nlog t = Suc (nlog s)" "lh_block t ` {..<nlog t} = insert bn (lh_block s ` {..<nlog s})"
proof -
  note w = log_wfD [OF assms(1)]
  have n: "unat (lh_n t) = Suc (nlog s)" using assms(5) w(2) by (simp add: assms(8) unat_word_ariths)
  have old: "lh_block t i = lh_block s i" if "i < nlog s" for i using that by (simp add: assms(9))
  have "inj_on (lh_block t) {..<Suc (nlog s)}"
    using w(5) assms(2) by (auto simp: assms(9) inj_on_def less_Suc_eq image_iff)
  moreover have "unat (lh_block t i) < 2 ^ 31 \<and> \<not> in_log (lg_start t) (lh_block t i)" if "i < Suc (nlog s)" for i
    using that w(6,7) [of i] assms(3,4) old by (cases "i = nlog s") (simp_all add: assms(7,9))
  ultimately show wf: "log_wf t" using assms(1,5,6,7) n unfolding log_wf_def by simp
  show "nlog t = Suc (nlog s)" using log_wfD(2) [OF wf] n by simp
  then show "lh_block t ` {..<nlog t} = insert bn (lh_block s ` {..<nlog s})"
    using old by (auto simp: lessThan_Suc assms(9))
qed

lemma txn_step:
  assumes "txn_inv p s0 us s" "txn_ok (lg_start s0) u" "length us < MAXOPBLOCKS"
  obtains t where "txn_write u s = Ret () t" "txn_inv p s0 (us @ [u]) t"
proof -
  obtain bn d where u: "u = (bn, d)" by (cases u)
  have ok: "length d = BSIZE" "unat bn < 2 ^ 31" "\<not> in_log (lg_start s0) bn" using assms(2) by (simp_all add: txn_ok_def u)
  have I: "ready p s" "log_wf s" "lg_start s = lg_start s0" "lg_size s = 30" "lg_outstanding s = 1" "\<not> lg_committing s" "nlog s \<le> length us"
    "lh_block s ` {..<nlog s} = fst ` set us" "view s = updated us (view s0)" "image s = image s0"
    "\<exists>h. hist s = hist s0 @ h \<and> set h \<subseteq> {image s0}" "\<And>bn. \<not> lck s bn" "ref s = (\<lambda>bn. if bn \<in> fst ` set us then 1 else 0)"
    "spare s + nlog s = 30"
    using assms(1) unfolding txn_inv_def by blast+
  note w = log_wfD [OF I(2)]
  have len: "length us < 10" "nlog s < 29" "unat (lh_n s) < 29" using assms(3) I(7) w(2) by simp_all
  have sp: "ref s bn = 0 \<longrightarrow> 0 < spare s" "ref s bn < 2 ^ 32 - 1" using I(13,14) len by simp_all
  obtain b s1 where b1: "bread 1 bn s = Ret b s1" and "took p bn b s s1" by (rule bread_took [OF I(1,12) sp(1) ok(2) sp(2)])
  note 1 = tookD [OF this(2)]
  define s2 where "s2 = upd_buf b (b_data_update (\<lambda>_. d)) s1"
  note 2 = put_data_spec [OF 1(1,3) ok(1), folded s2_def]
  have io: "io_frame p s s2" by (rule io_frame_trans [OF 1(2) 2(2)])
  have h2: "\<exists>h. hist s2 = hist s0 @ h \<and> set h \<subseteq> {image s0}" using I(10,11) 1(9) 2(9) by auto
  have bno: "b_blockno (bufs s2 b) = bn" using 2(3) by (simp add: owns_buf_def)
  have out: "sint (lg_outstanding s2) \<ge> 1" using io I(5) by simp
  have lf: "lg_start s2 = lg_start s0" "lg_size s2 = 30" "lg_outstanding s2 = 1" "\<not> lg_committing s2" "lg_dev s2 = 1"
    "nlog s2 = nlog s" "lh_block s2 = lh_block s" "lh_n s2 = lh_n s" "log_wf s2"
    using io I(2-6) w(1) by simp_all
  have len2: "unat (lh_n s2) < 29" using len(3) lf(8) by simp
  obtain s3 where b3: "log_write b s2 = Ret () s3" and 3: "ready p s3" "owns_buf p s3 bn b" "log_wf s3" "lg_start s3 = lg_start s0"
      "lg_size s3 = 30" "lg_outstanding s3 = 1" "\<not> lg_committing s3" "nlog s3 \<le> Suc (length us)"
      "lh_block s3 ` {..<nlog s3} = insert bn (fst ` set us)" "view s3 = view s2" "image s3 = image s2" "hist s3 = hist s2"
      "lck s3 = lck s2" "ref s3 = (ref s)(bn := 2)" "spare s3 + nlog s3 = 30"
  proof (cases "bn \<in> fst ` set us")
    case True
    have "bn \<in> lh_block s2 ` {..<nlog s2}" using True I(8) lf(6,7) by simp
    then have "log_write b s2 = Ret () s2"
      by (intro log_write_absorbed [OF readyD(1) [OF 2(1)] len2 lf(2) out]) (simp add: bno)
    moreover have "ref s2 = (ref s)(bn := 2)" using True by (simp add: 2(5) 1(5) I(13) numeral_2_eq_2)
    moreover have "spare s2 + nlog s2 = 30" using True I(13,14) by (simp add: 2(7) 1(7) lf(6))
    moreover have "lh_block s2 ` {..<nlog s2} = insert bn (fst ` set us)" using True I(8) lf(6,7) by auto
    ultimately show thesis using that [of s2] 2(1,3) lf I(7) by simp
  next
    case False
    have new: "bn \<notin> lh_block s2 ` {..<nlog s2}" using False I(8) lf(6,7) by simp
    have r2: "ref s2 = (ref s)(bn := 1)" using False by (simp add: 2(5) 1(5) I(13))
    obtain v where v: "log_write b s2 = Ret () (v\<lparr>lh_n := lh_n s2 + 1, lh_block := (lh_block s2)(nlog s2 := bn)\<rparr>)"
      "repinned p bn (Suc (ref s2 bn)) s2 v"
      by (rule log_write_new [OF 2(1,3) len2 lf(2) out new]) (simp_all add: r2)
    note v' = repinnedD [OF v(2)]
    let ?t = "v\<lparr>lh_n := lh_n s2 + 1, lh_block := (lh_block s2)(nlog s2 := bn)\<rparr>"
    have t: "lg_dev ?t = 1" "lg_start ?t = lg_start s2" "lg_size ?t = 30" "lg_outstanding ?t = 1" "\<not> lg_committing ?t"
      using v'(2) lf by simp_all
    have "\<not> in_log (lg_start s2) bn" "nlog s2 < 30" using ok(3) lf(1,6) len(2) by simp_all
    note wf = log_wf_snoc [OF lf(9) new ok(2) this t(1,2)]
    have "log_wf ?t" "nlog ?t = Suc (nlog s)" "lh_block ?t ` {..<nlog ?t} = insert bn (fst ` set us)"
      using wf I(8) by (simp_all add: lf(6,7))
    moreover have "ref ?t = (ref s)(bn := 2)" by (simp add: v'(4) r2 numeral_2_eq_2)
    moreover have "spare ?t + Suc (nlog s) = 30" using False I(13,14) len(2) by (simp add: v'(6) 2(7) 1(7))
    ultimately show thesis using that [OF v(1)] v'(1,3,5,7,8) v'(9) 2(3) t(2-5) lf(1) I(7) by simp
  qed
  obtain s4 where b4: "brelse b s3 = Ret () s4" and "dropped p bn s3 s4" by (rule brelse_dropped [OF 3(1,2)]) (simp_all add: 3(14))
  note 4 = droppedD [OF this(2)]
  have "txn_write u s = Ret () s4" using b1 b3 b4 by (simp add: txn_write_def u s2_def)
  moreover have "view s4 = updated (us @ [u]) (view s0)" by (simp add: 4(3) 3(10) 2(4) 1(4) I(9) updated_def u)
  moreover have "ref s4 = (\<lambda>k. if k \<in> fst ` set (us @ [u]) then 1 else 0)" by (auto simp: 4(4) 3(14) I(13) u)
  moreover have "\<not> lck s4 k" for k using I(12) by (auto simp: 4(5) 3(13) 2(6) 1(6))
  moreover have "spare s4 = spare s3" by (simp add: 4(6) 3(14))
  ultimately show thesis
    using that [of s4] 4(1,2,7,8) 3(3-9,11,12,15) 2(8) 1(8) I(10) h2 unfolding txn_inv_def by (simp add: u)
qed

lemma txn_all:
  assumes "txn_inv p s0 us s" "\<forall>u \<in> set vs. txn_ok (lg_start s0) u" "length us + length vs \<le> MAXOPBLOCKS"
  shows "\<exists>t. txn_writes vs s = Ret () t \<and> txn_inv p s0 (us @ vs) t"
  using assms
proof (induction vs arbitrary: us s)
  case (Cons v vs)
  have "txn_ok (lg_start s0) v" "length us < MAXOPBLOCKS" using Cons.prems(2,3) by simp_all
  then obtain t where t: "txn_write v s = Ret () t" "txn_inv p s0 (us @ [v]) t" by (rule txn_step [OF Cons.prems(1)])
  have "\<exists>u. txn_writes vs t = Ret () u \<and> txn_inv p s0 ((us @ [v]) @ vs) u"
    by (rule Cons.IH [OF t(2)]) (use Cons.prems(2,3) in simp_all)
  then show ?case using t(1) by simp
qed simp

section \<open>begin\_op and end\_op\<close>

text \<open>The log between transactions.\<close>

definition log_idle :: "nat \<Rightarrow> 'x log_state_scheme \<Rightarrow> bool" where
  "log_idle p s \<longleftrightarrow> ready p s \<and> lg_dev s = 1 \<and> lg_size s = 30 \<and> unat (lg_start s) + LOGSIZE < 2 ^ 31 \<and> lh_n s = 0 \<and>
     lg_outstanding s = 0 \<and> \<not> lg_committing s \<and> get32 (blk_read (image s) (lg_start s)) 0 = 0 \<and>
     (\<forall>bn. \<not> lck s bn \<and> ref s bn = 0) \<and> spare s = 30"

text \<open>\<open>begin_op\<close> admits an operation when the log has room for all blocks it may write, and
  puts the process to sleep on the log otherwise.\<close>

lemma begin_op_eq:
  assumes "calm p s"
  shows "begin_op s = (if lg_committing s \<or> sint (lh_n s) + (sint (lg_outstanding s) + 1) * int MAXOPBLOCKS > int LOGSIZE
    then Wait (held (ProcLock p) (upd_proc p (\<lambda>q. q\<lparr>p_chan := Some ChLog, p_state := SLEEPING\<rparr>) s))
    else Ret () (s\<lparr>lg_outstanding := lg_outstanding s + 1\<rparr>))"
  by (simp add: begin_op_def calmD [OF assms])

lemma begin_op_idle:
  assumes "log_idle p s"
  shows "begin_op s = Ret () (s\<lparr>lg_outstanding := 1\<rparr>)" "txn_inv p (s\<lparr>lg_outstanding := 1\<rparr>) [] (s\<lparr>lg_outstanding := 1\<rparr>)"
proof -
  have calm: "calm p s" using assms by (simp add: log_idle_def ready_def)
  show "begin_op s = Ret () (s\<lparr>lg_outstanding := 1\<rparr>)"
    using assms by (simp add: begin_op_eq [OF calm] log_idle_def)
  show "txn_inv p (s\<lparr>lg_outstanding := 1\<rparr>) [] (s\<lparr>lg_outstanding := 1\<rparr>)"
    using assms by (simp add: txn_inv_def log_idle_def log_wf_def nlog_def updated_def fun_eq_iff)
qed

lemma end_op_eq:
  assumes "calm p s" "lg_outstanding s = 1" "\<not> lg_committing s"
    "commit (s\<lparr>lg_outstanding := 0, lg_committing := True\<rparr>) = Ret () t" "calm p t"
  shows "end_op s = Ret () (t\<lparr>procs := woken (Some ChLog) (Some p) (procs t), lg_committing := False\<rparr>)"
  using assms(2-4) by (simp add: end_op_def calmD [OF assms(1)] calmD [OF assms(5)] Let_def upd_order)

lemma updated_other: "bn \<notin> fst ` set us \<Longrightarrow> updated us f bn = f bn"
  by (induction us rule: rev_induct) (auto simp: updated_def)

lemma committed_txn:
  assumes "txn_inv p s0 us s" "view s0 = blk_read (image s0)"
  shows "committed s = updated us (blk_read (image s0))"
proof
  fix bn
  have "lh_block s ` {..<nlog s} = fst ` set us" "view s = updated us (view s0)" "image s = image s0"
    using assms(1) unfolding txn_inv_def by blast+
  then show "committed s bn = updated us (blk_read (image s0)) bn" by (simp add: committed_def assms(2) updated_other)
qed

lemma recovers_append: "recovers st (a @ b) f \<longleftrightarrow> recovers st a f \<and> recovers st b f"
  by (auto simp: recovers_def)

lemma cache_procs [simp]:
  "view (s\<lparr>procs := ps\<rparr>) = view s" "ref (s\<lparr>procs := ps\<rparr>) = ref s" "lck (s\<lparr>procs := ps\<rparr>) = lck s"
  "spare (s\<lparr>procs := ps\<rparr>) = spare s" "bcache_inv (s\<lparr>procs := ps\<rparr>) = bcache_inv s"
  by (rule cache_cong; simp)+

lemma ready_procs: "ready p s \<Longrightarrow> others_woken p (procs s) ps \<Longrightarrow> ready p (s\<lparr>procs := ps\<rparr>)"
  by (simp add: ready_def calm_procs)

lemma txn_commit:
  assumes "txn_inv p s0 us s" "view s0 = blk_read (image s0)" "length us \<le> MAXOPBLOCKS"
    "get32 (blk_read (image s0) (lg_start s0)) 0 = 0" "unat (lg_start s0) + LOGSIZE < 2 ^ 31"
  obtains t h1 h2 where "end_op s = Ret () t" "log_idle p t" "hist t = hist s0 @ h1 @ h2"
    "recovers (lg_start s0) h1 (blk_read (image s0))" "recovers (lg_start s0) h2 (updated us (blk_read (image s0)))"
    "agree (lg_start s0) (blk_read (image t)) (updated us (blk_read (image s0)))"
proof -
  let ?s = "s\<lparr>lg_outstanding := 0, lg_committing := True\<rparr>" and ?st = "lg_start s0"
  have I: "ready p s" "log_wf s" "lg_start s = ?st" "lg_size s = 30" "lg_outstanding s = 1" "\<not> lg_committing s" "nlog s \<le> length us"
    "lh_block s ` {..<nlog s} = fst ` set us" "image s = image s0" "\<And>bn. \<not> lck s bn"
    "ref s = (\<lambda>bn. if bn \<in> fst ` set us then 1 else 0)" "spare s + nlog s = 30"
    using assms(1) unfolding txn_inv_def by blast+
  obtain h0 where h0: "hist s = hist s0 @ h0" "set h0 \<subseteq> {image s0}" using assms(1) unfolding txn_inv_def by blast
  have nl: "nlog ?s = nlog s" by (simp add: nlog_def)
  have "committed ?s = committed s" by (simp add: committed_def fun_eq_iff nl)
  then have com: "committed ?s = updated us (blk_read (image s0))" by (simp add: committed_txn [OF assms(1,2)])
  have one: "ref s (lh_block s i) = 1" if "i < nlog s" for i using that I(8) by (auto simp: I(11))
  have f: "ready p ?s" "log_wf ?s" "\<not> lck ?s bn" "ref ?s bn < 2 ^ 32 - 1" "0 < spare ?s"
    "get32 (blk_read (image ?s) (lg_start ?s)) 0 = 0" for bn
    using I(1,2,3,7,9-12) assms(3,4) by (simp_all add: log_wf_def)
  have g: "0 < ref ?s (lh_block ?s i)" if "i < nlog ?s" for i using that one [of i] by (simp add: nl)
  obtain t h1 h2 where t: "commit ?s = Ret () t" "hist t = hist ?s @ h1 @ h2"
    "recovers (lg_start ?s) h1 (blk_read (image ?s))" "recovers (lg_start ?s) h2 (committed ?s)"
    "agree (lg_start ?s) (blk_read (image t)) (committed ?s)" "agree (lg_start ?s) (view t) (view ?s)"
    "lh_n t = 0" "get32 (blk_read (image t) (lg_start ?s)) 0 = 0" "ready p t"
    "ref t = upds (lh_block ?s) (\<lambda>i. ref ?s (lh_block ?s i) - 1) (nlog ?s) (ref ?s)"
    "spare t = spare ?s + card {i. i < nlog ?s \<and> ref ?s (lh_block ?s i) = 1}"
    "io_frame p (?s\<lparr>lh_n := 0\<rparr>) t" "lck t = lck ?s"
    by (rule commit_atomic [OF f(1-5) g f(6)])
  let ?t = "t\<lparr>procs := woken (Some ChLog) (Some p) (procs t), lg_committing := False\<rparr>"
  have eq: "end_op s = Ret () ?t" by (rule end_op_eq [OF readyD(1) [OF I(1)] I(5,6) t(1) readyD(1) [OF t(9)]])
  have r: "ref t bn = 0" for bn using upds_self [of "lh_block s" "\<lambda>k. ref s k - 1" "nlog s" "ref s" bn] I(8) by (simp add: t(10) nl I(11))
  have "{i. i < nlog s \<and> ref s (lh_block s i) = 1} = {..<nlog s}" using one by auto
  then have sp: "spare t = 30" using I(12) by (simp add: t(11) nl)
  have "ready p ?t" using ready_procs [OF t(9) others_woken_woken] by simp
  then have idle: "log_idle p ?t"
    using io_frame_log(1-5) [OF t(12)] t(7,8,13) r sp I(3,4,10) assms(5) readyD(1) log_wfD(1) [OF I(2)] by (simp add: log_idle_def)
  have "recovers ?st h0 (blk_read (image s0))"
    using h0(2) recovered_clear [of "blk_read (image s0)" ?st] assms(4) by (auto simp: recovers_def agree_def)
  then show thesis
    using that [OF eq idle, of "h0 @ h1" h2] t(2-5) h0(1) I(3,9) by (simp add: com recovers_append)
qed

section \<open>Properties\<close>

definition idle_log :: log_state where
  "idle_log = blk_state.extend (cache_state\<lparr>image := \<lambda>_. 0\<rparr>)
     \<lparr>lg_start = 2, lg_size = 30, lg_outstanding = 0, lg_committing = False, lg_dev = 1, lh_n = 0, lh_block = \<lambda>_. 0\<rparr>"

lemma idle_log_facts:
  "log_idle 0 idle_log" "lg_start idle_log = 2" "image idle_log = (\<lambda>_. 0)" "bufs idle_log = bufs cache_state"
proof -
  note c = cache_state_facts
  have e: "bufs idle_log = bufs cache_state" "sleeplocks idle_log = sleeplocks cache_state" "disk idle_log = disk cache_state"
    "blkdev idle_log = blkdev cache_state" "calm 0 idle_log = calm 0 cache_state" "image idle_log = (\<lambda>_. 0)"
    by (simp_all add: idle_log_def blk_state.defs calm_def quiet_def hart_ok_def lock_free_def machine_defs)
  have z: "b_valid (bufs cache_state b) = False" for b by (simp add: cache_state_def empty_buf_def)
  have "bcache_inv idle_log" using readyD(4) [OF c(1)] unfolding bcache_inv_def e z by simp
  then have "ready 0 idle_log" using c(1) by (simp add: ready_def e)
  moreover have "ref idle_log bn = 0" "\<not> lck idle_log bn" "spare idle_log = 30" for bn
    using c(5) by (simp_all add: ref_def lck_def spare_def e(1) c(7))
  ultimately show "log_idle 0 idle_log"
    by (simp add: log_idle_def e) (simp add: idle_log_def blk_state.defs blk_read_def bytes_at_def get32_def)
  show "lg_start idle_log = 2" by (simp add: idle_log_def blk_state.defs)
qed (simp_all add: idle_log_def blk_state.defs)

text \<open>
  C1. A file system transaction is atomic. A process that brackets changes of up to
  \<open>MAXOPBLOCKS\<close> blocks with \<open>begin_op\<close> and \<open>end_op\<close>, handing each changed buffer to \<open>log_write\<close>,
  returns with exactly these changes on the disk and the log idle again. The disk contents
  on the way fall in two consecutive groups, from which recovery makes the contents of
  before the transaction and of after it, never a part of the changes.
\<close>

theorem transaction_atomic:
  assumes "log_idle p s" "\<forall>u \<in> set us. txn_ok (lg_start s) u" "length us \<le> MAXOPBLOCKS"
  shows "\<exists>t h1 h2. bnd (begin_op s) (\<lambda>_ s. bnd (txn_writes us s) (\<lambda>_ s. end_op s)) = Ret () t \<and> log_idle p t \<and>
    hist t = hist s @ h1 @ h2 \<and> recovers (lg_start s) h1 (blk_read (image s)) \<and>
    recovers (lg_start s) h2 (updated us (blk_read (image s))) \<and>
    agree (lg_start s) (blk_read (image t)) (updated us (blk_read (image s)))"
proof -
  let ?s = "s\<lparr>lg_outstanding := 1\<rparr>"
  have idle: "ready p s" "\<And>bn. ref s bn = 0" "get32 (blk_read (image s) (lg_start s)) 0 = 0" "unat (lg_start s) + LOGSIZE < 2 ^ 31"
    using assms(1) unfolding log_idle_def by blast+
  note b = begin_op_idle [OF assms(1)]
  have "\<exists>u. txn_writes us ?s = Ret () u \<and> txn_inv p ?s ([] @ us) u"
    by (rule txn_all [OF b(2)]) (use assms(2,3) in simp_all)
  then obtain u where u: "txn_writes us ?s = Ret () u" "txn_inv p ?s us u" by auto
  have v: "view ?s = blk_read (image ?s)" using clean_view [OF readyD(4) [OF idle(1)] idle(2)] by (simp add: fun_eq_iff)
  obtain t h1 h2 where t: "end_op u = Ret () t" "log_idle p t" "hist t = hist ?s @ h1 @ h2"
    "recovers (lg_start ?s) h1 (blk_read (image ?s))" "recovers (lg_start ?s) h2 (updated us (blk_read (image ?s)))"
    "agree (lg_start ?s) (blk_read (image t)) (updated us (blk_read (image ?s)))"
    by (rule txn_commit [OF u(2) v assms(3)]) (use idle(3,4) in simp_all)
  then show ?thesis using b(1) u(1) by auto
qed

theorem transaction_atomic_witness:
  "\<exists>t. bnd (begin_op idle_log) (\<lambda>_ s. bnd (txn_writes [(50, replicate 1024 1), (60, replicate 1024 2)] s) (\<lambda>_ s. end_op s)) = Ret () t \<and>
    blk_read (image t) 50 = replicate 1024 1 \<and> blk_read (image t) 60 = replicate 1024 2"
  using transaction_atomic [OF idle_log_facts(1), of "[(50, replicate 1024 1), (60, replicate 1024 2)]"]
  by (auto simp: idle_log_facts txn_ok_def in_log_def agree_def updated_def)

text \<open>
  C11. \<open>log_write\<close> on each of its branches, for a log of the size the file system has: it
  panics when the transaction is too big and outside a transaction; it absorbs a block that
  is already logged; a new block it pins in the cache and appends to the header, which
  stays well formed.
\<close>

theorem log_write_correct:
  assumes "ready p s" "owns_buf p s bn b" "log_wf s" "lg_size s = 30" "ref s bn < 2 ^ 32 - 1" "unat bn < 2 ^ 31" "\<not> in_log (lg_start s) bn"
  shows "if 29 \<le> nlog s then log_write b s = Panic ''too big a transaction''
    else if sint (lg_outstanding s) < 1 then log_write b s = Panic ''log_write outside of trans''
    else if bn \<in> lh_block s ` {..<nlog s} then log_write b s = Ret () s
    else \<exists>t. log_write b s = Ret () t \<and> log_wf t \<and> nlog t = Suc (nlog s) \<and>
      lh_block t ` {..<nlog t} = insert bn (lh_block s ` {..<nlog s}) \<and>
      ref t = (ref s)(bn := Suc (ref s bn)) \<and> view t = view s \<and> bcache_inv t \<and> owns_buf p t bn b"
proof -
  note w = log_wfD [OF assms(3)]
  have calm: "calm p s" by (rule readyD(1) [OF assms(1)])
  have bno: "b_blockno (bufs s b) = bn" using assms(2) by (simp add: owns_buf_def)
  consider "29 \<le> nlog s" | "nlog s < 29" "sint (lg_outstanding s) < 1" | "nlog s < 29" "1 \<le> sint (lg_outstanding s)" "bn \<in> lh_block s ` {..<nlog s}"
    | "nlog s < 29" "1 \<le> sint (lg_outstanding s)" "bn \<notin> lh_block s ` {..<nlog s}" by linarith
  then show ?thesis
  proof cases
    case 1
    then have "29 \<le> sint (lh_n s)" by (simp add: nlog_def)
    then show ?thesis using 1 log_write_panics [OF calm _ assms(4)] by simp
  next
    case 2
    then show ?thesis using log_write_outside [OF calm _ assms(4)] w(2) by simp
  next
    case 3
    then show ?thesis using log_write_absorbed [OF calm _ assms(4), of b] w(2) bno by simp
  next
    case 4
    have "unat (lh_n s) < 29" using 4(1) w(2) by simp
    then obtain u where u: "log_write b s = Ret () (u\<lparr>lh_n := lh_n s + 1, lh_block := (lh_block s)(nlog s := bn)\<rparr>)" (is "_ = Ret () ?t")
      "repinned p bn (Suc (ref s bn)) s u"
      by (rule log_write_new [OF assms(1,2) _ assms(4) 4(2,3) assms(5)])
    note v = repinnedD [OF u(2)]
    have "lg_dev ?t = 1" "lg_start ?t = lg_start s" "nlog s < 30" using v(2) w(1) 4(1) by simp_all
    note wf = log_wf_snoc [OF assms(3) 4(3) assms(6,7) this(3,1,2)]
    have "log_wf ?t" "nlog ?t = Suc (nlog s)" "lh_block ?t ` {..<nlog ?t} = insert bn (lh_block s ` {..<nlog s})"
      using wf by simp_all
    then show ?thesis
      using 4 u(1) v(3,4) v(9) assms(2) readyD(4) [OF v(1)] by (auto simp del: image_insert)
  qed
qed

definition open_log :: log_state where
  "open_log = log_example\<lparr>sleeplocks := (sleeplocks log_example)(BufSL 29 := (sleeplocks log_example (BufSL 29))\<lparr>sl_locked := True,
     sl_pid := p_pid (procs log_example 0)\<rparr>), lg_outstanding := 1, lh_n := 0\<rparr>"

theorem log_write_correct_witness:
  "\<exists>t. log_write 29 open_log = Ret () t \<and> nlog t = 1 \<and> ref t 50 = 2 \<and> log_wf t"
proof -
  note e = log_example_facts and c = log_example_cache
  have o: "bufs open_log = bufs log_example" "image open_log = image log_example" "disk open_log = disk log_example"
    "blkdev open_log = blkdev log_example" "calm 0 open_log = calm 0 log_example" "procs open_log = procs log_example"
    "sleeplocks open_log (BufSL i) = (if i = 29 then (sleeplocks log_example (BufSL 29))\<lparr>sl_locked := True,
      sl_pid := p_pid (procs log_example 0)\<rparr> else sleeplocks log_example (BufSL i))" for i
    by (simp_all add: open_log_def)
  have b: "bufs log_example 29 = (bufs cache_state 29)\<lparr>b_valid := True, b_dev := 1, b_blockno := 50, b_refcnt := 1, b_data := replicate 1024 9\<rparr>"
    by (simp add: c)
  have inv: "bcache_inv open_log"
    using readyD(4) [OF e(1)] unfolding bcache_inv_def o by (auto simp: b)
  have rdy: "ready 0 open_log" using inv e(1) by (simp add: ready_def o)
  have own: "owns_buf 0 open_log 50 29" by (simp add: owns_buf_def o b)
  have wf: "log_wf open_log" "lg_size open_log = 30" "lg_start open_log = 2" "lg_outstanding open_log = 1" "nlog open_log = 0"
    by (simp_all add: open_log_def log_wf_def nlog_def c)
  have r: "ref open_log 50 = 1" using owns_slot(4) [OF inv own] by (simp add: o b)
  show ?thesis
    using log_write_correct [OF rdy own wf(1,2)] wf(3-5) r by (auto simp: in_log_def)
qed

end
