(* ===== verification/Fs.thy ===== *)
theory Fs
  imports Logops
begin

text \<open>
  The file system: \<open>src/kernel/fs.c\<close> with the on-disk structures of \<open>fs.h\<close>: block
  allocation, inodes, their contents, directories and path names. On-disk structures are
  read from and written to the byte lists of the buffers.
\<close>

section \<open>Data\<close>

record superblock =
  sb_magic :: uint32
  sb_size :: uint32
  sb_nblocks :: uint32
  sb_ninodes :: uint32
  sb_nlog :: uint32
  sb_logstart :: uint32
  sb_inodestart :: uint32
  sb_bmapstart :: uint32

record inode =
  i_dev :: uint32
  i_inum :: uint32
  i_ref :: uint32
  i_valid :: bool
  i_type :: uint16
  i_major :: uint16
  i_minor :: uint16
  i_nlink :: uint16
  i_size :: uint32
  i_addrs :: "nat \<Rightarrow> uint32"

record fs_state = log_state +
  sb :: superblock
  inodes :: "nat \<Rightarrow> inode"

record stat =
  st_dev :: uint32
  st_ino :: uint32
  st_type :: uint16
  st_nlink :: uint16
  st_size :: uint64

definition NDIRECT :: nat where [simp]: "NDIRECT = 12"
definition NINDIRECT :: nat where [simp]: "NINDIRECT = 256"
definition MAXFILE :: nat where [simp]: "MAXFILE = 268"
definition DIRSIZ :: nat where [simp]: "DIRSIZ = 14"
definition IPB :: nat where [simp]: "IPB = 16"
definition BPB :: nat where [simp]: "BPB = 8192"
definition FSMAGIC :: uint32 where [simp]: "FSMAGIC = 0x10203040"
definition ROOTINO :: uint32 where [simp]: "ROOTINO = 1"
definition T_DIR :: uint16 where [simp]: "T_DIR = 1"
definition T_FILE :: uint16 where [simp]: "T_FILE = 2"
definition T_DEVICE :: uint16 where [simp]: "T_DEVICE = 3"

definition IBLOCK :: "uint32 \<Rightarrow> superblock \<Rightarrow> uint32" where
  "IBLOCK i b = i div 16 + sb_inodestart b"

definition BBLOCK :: "uint32 \<Rightarrow> superblock \<Rightarrow> uint32" where
  "BBLOCK b sp = b div 8192 + sb_bmapstart sp"

definition upd_inode :: "nat \<Rightarrow> (inode \<Rightarrow> inode) \<Rightarrow> 'x fs_state_scheme \<Rightarrow> 'x fs_state_scheme" where
  "upd_inode i f s = s\<lparr>inodes := (inodes s)(i := f (inodes s i))\<rparr>"

definition set_data :: "nat \<Rightarrow> uint8 list \<Rightarrow> 'x blk_state_scheme \<Rightarrow> 'x blk_state_scheme" where
  "set_data b bs s = upd_buf b (b_data_update (\<lambda>_. bs)) s"

section \<open>Super block and block allocation\<close>

definition readsb :: "uint32 \<Rightarrow> 'x fs_state_scheme \<Rightarrow> (unit, 'x fs_state_scheme) outcome" where
  "readsb dev s =
     bnd (bread dev 1 s) (\<lambda>bp s.
     let d = b_data (bufs s bp)
     in brelse bp (s\<lparr>sb := \<lparr>sb_magic = get32 d 0, sb_size = get32 d 4, sb_nblocks = get32 d 8,
          sb_ninodes = get32 d 12, sb_nlog = get32 d 16, sb_logstart = get32 d 20,
          sb_inodestart = get32 d 24, sb_bmapstart = get32 d 28\<rparr>\<rparr>))"

definition fsinit :: "uint32 \<Rightarrow> 'x fs_state_scheme \<Rightarrow> (unit, 'x fs_state_scheme) outcome" where
  "fsinit dev s =
     bnd (readsb dev s) (\<lambda>_ s.
     if sb_magic (sb s) \<noteq> FSMAGIC then Panic ''invalid file system''
     else initlog dev (sb_logstart (sb s)) (sb_nlog (sb s)) s)"

definition bzero :: "uint32 \<Rightarrow> uint32 \<Rightarrow> 'x fs_state_scheme \<Rightarrow> (unit, 'x fs_state_scheme) outcome" where
  "bzero dev bno s =
     bnd (bread dev bno s) (\<lambda>bp s.
     bnd (log_write bp (set_data bp (replicate BSIZE 0) s)) (\<lambda>_ s.
     brelse bp s))"

text \<open>The mask of bit \<open>bi\<close> in its byte, and the first clear bit from \<open>bi\<close> on that belongs
  to a block below \<open>sz\<close>.\<close>

definition bit_mask :: "nat \<Rightarrow> uint8" where
  "bit_mask bi = push_bit (bi mod 8) 1"

fun free_bit :: "uint8 list \<Rightarrow> nat \<Rightarrow> nat \<Rightarrow> nat \<Rightarrow> nat \<Rightarrow> nat option" where
  "free_bit d sz b bi 0 = None"
| "free_bit d sz b bi (Suc k) =
     (if b + bi \<ge> sz then None
      else if d ! (bi div 8) AND bit_mask bi = 0 then Some bi
      else free_bit d sz b (Suc bi) k)"

fun balloc_from :: "nat \<Rightarrow> uint32 \<Rightarrow> nat \<Rightarrow> 'x fs_state_scheme \<Rightarrow> (uint32, 'x fs_state_scheme) outcome" where
  "balloc_from 0 dev b s = bnd (printf (''balloc: out of blocks'' @ [CHR 10]) [] s) (\<lambda>_ s. Ret 0 s)"
| "balloc_from (Suc k) dev b s =
     bnd (bread dev (BBLOCK (of_nat b) (sb s)) s) (\<lambda>bp s.
     let d = b_data (bufs s bp)
     in case free_bit d (unat (sb_size (sb s))) b 0 BPB of
          Some bi \<Rightarrow>
            bnd (log_write bp (set_data bp (d[bi div 8 := d ! (bi div 8) OR bit_mask bi]) s)) (\<lambda>_ s.
            bnd (brelse bp s) (\<lambda>_ s.
            bnd (bzero dev (of_nat (b + bi)) s) (\<lambda>_ s.
            Ret (of_nat (b + bi)) s)))
        | None \<Rightarrow> bnd (brelse bp s) (\<lambda>_ s. balloc_from k dev (b + BPB) s))"

text \<open>One iteration for each bitmap block of a disk of \<open>sb.size\<close> blocks.\<close>

definition balloc :: "uint32 \<Rightarrow> 'x fs_state_scheme \<Rightarrow> (uint32, 'x fs_state_scheme) outcome" where
  "balloc dev s = balloc_from ((unat (sb_size (sb s)) + BPB - 1) div BPB) dev 0 s"

definition bfree :: "uint32 \<Rightarrow> uint32 \<Rightarrow> 'x fs_state_scheme \<Rightarrow> (unit, 'x fs_state_scheme) outcome" where
  "bfree dev b s =
     bnd (bread dev (BBLOCK b (sb s)) s) (\<lambda>bp s.
     let bi = unat b mod BPB;
         d = b_data (bufs s bp)
     in if d ! (bi div 8) AND bit_mask bi = 0 then Panic ''freeing free block''
        else bnd (log_write bp (set_data bp (d[bi div 8 := d ! (bi div 8) AND NOT (bit_mask bi)]) s)) (\<lambda>_ s.
             brelse bp s))"

section \<open>Inodes\<close>

definition iinit :: "'x fs_state_scheme \<Rightarrow> (unit, 'x fs_state_scheme) outcome" where
  "iinit s =
     forn NINODE 0 (\<lambda>i s. Ret () (initsleeplock (InodeSL i) ''inode'' s)) (initlock ItableLock ''itable'' s)"

text \<open>The scan of \<open>iget\<close>: the entry that holds the inode, or the first free entry.\<close>

fun iget_scan :: "(nat \<Rightarrow> inode) \<Rightarrow> uint32 \<Rightarrow> uint32 \<Rightarrow> nat option \<Rightarrow> nat \<Rightarrow> nat \<Rightarrow> nat option \<times> nat option" where
  "iget_scan t dev inum emp i 0 = (None, emp)"
| "iget_scan t dev inum emp i (Suc k) =
     (if sint (i_ref (t i)) > 0 \<and> i_dev (t i) = dev \<and> i_inum (t i) = inum then (Some i, emp)
      else iget_scan t dev inum (if emp = None \<and> i_ref (t i) = 0 then Some i else emp) (Suc i) k)"

definition iget :: "uint32 \<Rightarrow> uint32 \<Rightarrow> 'x fs_state_scheme \<Rightarrow> (nat, 'x fs_state_scheme) outcome" where
  "iget dev inum s =
     bnd (acquire ItableLock s) (\<lambda>_ s.
     case iget_scan (inodes s) dev inum None 0 NINODE of
       (Some i, _) \<Rightarrow>
         bnd (release ItableLock (upd_inode i (\<lambda>x. x\<lparr>i_ref := i_ref x + 1\<rparr>) s)) (\<lambda>_ s. Ret i s)
     | (None, None) \<Rightarrow> Panic ''iget: no inodes''
     | (None, Some i) \<Rightarrow>
         bnd (release ItableLock (upd_inode i (\<lambda>x. x\<lparr>i_dev := dev, i_inum := inum, i_ref := 1, i_valid := False\<rparr>) s))
           (\<lambda>_ s. Ret i s))"

text \<open>\<open>struct dinode\<close>: four shorts, the size and thirteen addresses, 64 bytes.\<close>

definition dinode_off :: "uint32 \<Rightarrow> nat" where
  "dinode_off inum = 64 * (unat inum mod IPB)"

definition dinode_bytes :: "inode \<Rightarrow> uint8 list" where
  "dinode_bytes ip = bytes16 (i_type ip) @ bytes16 (i_major ip) @ bytes16 (i_minor ip) @ bytes16 (i_nlink ip) @
     bytes32 (i_size ip) @ concat (map (\<lambda>k. bytes32 (i_addrs ip k)) [0..<13])"

definition dinode_read :: "uint8 list \<Rightarrow> nat \<Rightarrow> inode \<Rightarrow> inode" where
  "dinode_read d k ip =
     ip\<lparr>i_type := get16 d k, i_major := get16 d (k + 2), i_minor := get16 d (k + 4), i_nlink := get16 d (k + 6),
        i_size := get32 d (k + 8), i_addrs := \<lambda>j. if j < 13 then get32 d (k + 12 + 4 * j) else i_addrs ip j\<rparr>"

fun ialloc_from :: "nat \<Rightarrow> uint32 \<Rightarrow> uint16 \<Rightarrow> nat \<Rightarrow> 'x fs_state_scheme \<Rightarrow> (nat option, 'x fs_state_scheme) outcome" where
  "ialloc_from 0 dev ty inum s = bnd (printf (''ialloc: no inodes'' @ [CHR 10]) [] s) (\<lambda>_ s. Ret None s)"
| "ialloc_from (Suc k) dev ty inum s =
     bnd (bread dev (IBLOCK (of_nat inum) (sb s)) s) (\<lambda>bp s.
     let d = b_data (bufs s bp); off = dinode_off (of_nat inum)
     in if get16 d off = 0 then
          bnd (log_write bp (set_data bp (put16 (overwrite d off (replicate 64 0)) off ty) s)) (\<lambda>_ s.
          bnd (brelse bp s) (\<lambda>_ s.
          bnd (iget dev (of_nat inum) s) (\<lambda>i s. Ret (Some i) s)))
        else bnd (brelse bp s) (\<lambda>_ s. ialloc_from k dev ty (Suc inum) s))"

definition ialloc :: "uint32 \<Rightarrow> uint16 \<Rightarrow> 'x fs_state_scheme \<Rightarrow> (nat option, 'x fs_state_scheme) outcome" where
  "ialloc dev ty s = ialloc_from (unat (sb_ninodes (sb s)) - 1) dev ty 1 s"

definition iupdate :: "nat \<Rightarrow> 'x fs_state_scheme \<Rightarrow> (unit, 'x fs_state_scheme) outcome" where
  "iupdate i s =
     bnd (bread (i_dev (inodes s i)) (IBLOCK (i_inum (inodes s i)) (sb s)) s) (\<lambda>bp s.
     let ip = inodes s i
     in bnd (log_write bp (set_data bp (overwrite (b_data (bufs s bp)) (dinode_off (i_inum ip)) (dinode_bytes ip)) s)) (\<lambda>_ s.
        brelse bp s))"

definition idup :: "nat \<Rightarrow> 'x fs_state_scheme \<Rightarrow> (nat, 'x fs_state_scheme) outcome" where
  "idup i s =
     bnd (acquire ItableLock s) (\<lambda>_ s.
     bnd (release ItableLock (upd_inode i (\<lambda>x. x\<lparr>i_ref := i_ref x + 1\<rparr>) s)) (\<lambda>_ s. Ret i s))"

definition ilock :: "nat option \<Rightarrow> 'x fs_state_scheme \<Rightarrow> (unit, 'x fs_state_scheme) outcome" where
  "ilock ip s =
     (case ip of
        None \<Rightarrow> Panic ''ilock''
      | Some i \<Rightarrow>
          if sint (i_ref (inodes s i)) < 1 then Panic ''ilock''
          else
            bnd (acquiresleep (InodeSL i) s) (\<lambda>_ s.
            if \<not> i_valid (inodes s i) then
              bnd (bread (i_dev (inodes s i)) (IBLOCK (i_inum (inodes s i)) (sb s)) s) (\<lambda>bp s.
              let s = upd_inode i (dinode_read (b_data (bufs s bp)) (dinode_off (i_inum (inodes s i)))) s
              in bnd (brelse bp s) (\<lambda>_ s.
                 let s = upd_inode i (i_valid_update (\<lambda>_. True)) s
                 in if i_type (inodes s i) = 0 then Panic ''ilock: no type'' else Ret () s))
            else Ret () s))"

definition iunlock :: "nat option \<Rightarrow> 'x fs_state_scheme \<Rightarrow> (unit, 'x fs_state_scheme) outcome" where
  "iunlock ip s =
     (case ip of
        None \<Rightarrow> Panic ''iunlock''
      | Some i \<Rightarrow>
          bnd (holdingsleep (InodeSL i) s) (\<lambda>h s.
          if \<not> h \<or> sint (i_ref (inodes s i)) < 1 then Panic ''iunlock''
          else releasesleep (InodeSL i) s))"

definition itrunc :: "nat \<Rightarrow> 'x fs_state_scheme \<Rightarrow> (unit, 'x fs_state_scheme) outcome" where
  "itrunc i s =
     bnd (forn NDIRECT 0 (\<lambda>k s.
       if i_addrs (inodes s i) k \<noteq> 0 then
         bnd (bfree (i_dev (inodes s i)) (i_addrs (inodes s i) k) s) (\<lambda>_ s.
         Ret () (upd_inode i (\<lambda>x. x\<lparr>i_addrs := (i_addrs x)(k := 0)\<rparr>) s))
       else Ret () s) s) (\<lambda>_ s.
     bnd (if i_addrs (inodes s i) NDIRECT \<noteq> 0 then
            bnd (bread (i_dev (inodes s i)) (i_addrs (inodes s i) NDIRECT) s) (\<lambda>bp s.
            bnd (forn NINDIRECT 0 (\<lambda>j s.
              let a = get32 (b_data (bufs s bp)) (4 * j)
              in if a \<noteq> 0 then bfree (i_dev (inodes s i)) a s else Ret () s) s) (\<lambda>_ s.
            bnd (brelse bp s) (\<lambda>_ s.
            bnd (bfree (i_dev (inodes s i)) (i_addrs (inodes s i) NDIRECT) s) (\<lambda>_ s.
            Ret () (upd_inode i (\<lambda>x. x\<lparr>i_addrs := (i_addrs x)(NDIRECT := 0)\<rparr>) s)))))
          else Ret () s) (\<lambda>_ s.
     iupdate i (upd_inode i (i_size_update (\<lambda>_. 0)) s)))"

definition iput :: "nat \<Rightarrow> 'x fs_state_scheme \<Rightarrow> (unit, 'x fs_state_scheme) outcome" where
  "iput i s =
     bnd (acquire ItableLock s) (\<lambda>_ s.
     bnd (if i_ref (inodes s i) = 1 \<and> i_valid (inodes s i) \<and> i_nlink (inodes s i) = 0 then
            bnd (acquiresleep (InodeSL i) s) (\<lambda>_ s.
            bnd (release ItableLock s) (\<lambda>_ s.
            bnd (itrunc i s) (\<lambda>_ s.
            bnd (iupdate i (upd_inode i (i_type_update (\<lambda>_. 0)) s)) (\<lambda>_ s.
            bnd (releasesleep (InodeSL i) (upd_inode i (i_valid_update (\<lambda>_. False)) s)) (\<lambda>_ s.
            acquire ItableLock s)))))
          else Ret () s) (\<lambda>_ s.
     release ItableLock (upd_inode i (\<lambda>x. x\<lparr>i_ref := i_ref x - 1\<rparr>) s)))"

definition iunlockput :: "nat \<Rightarrow> 'x fs_state_scheme \<Rightarrow> (unit, 'x fs_state_scheme) outcome" where
  "iunlockput i s = bnd (iunlock (Some i) s) (\<lambda>_ s. iput i s)"

section \<open>Inode content\<close>

definition bmap :: "nat \<Rightarrow> nat \<Rightarrow> 'x fs_state_scheme \<Rightarrow> (uint32, 'x fs_state_scheme) outcome" where
  "bmap i bn s =
     (if bn < NDIRECT then
        if i_addrs (inodes s i) bn = 0 then
          bnd (balloc (i_dev (inodes s i)) s) (\<lambda>addr s.
          if addr = 0 then Ret 0 s
          else Ret addr (upd_inode i (\<lambda>x. x\<lparr>i_addrs := (i_addrs x)(bn := addr)\<rparr>) s))
        else Ret (i_addrs (inodes s i) bn) s
      else if bn - NDIRECT < NINDIRECT then
        bnd (if i_addrs (inodes s i) NDIRECT = 0 then
               bnd (balloc (i_dev (inodes s i)) s) (\<lambda>addr s.
               if addr = 0 then Ret 0 s
               else Ret addr (upd_inode i (\<lambda>x. x\<lparr>i_addrs := (i_addrs x)(NDIRECT := addr)\<rparr>) s))
             else Ret (i_addrs (inodes s i) NDIRECT) s) (\<lambda>addr s.
        if addr = 0 then Ret 0 s
        else
          bnd (bread (i_dev (inodes s i)) addr s) (\<lambda>bp s.
          let a = get32 (b_data (bufs s bp)) (4 * (bn - NDIRECT))
          in bnd (if a = 0 then
                    bnd (balloc (i_dev (inodes s i)) s) (\<lambda>a s.
                    if a \<noteq> 0 then
                      bnd (log_write bp (set_data bp (put32 (b_data (bufs s bp)) (4 * (bn - NDIRECT)) a) s)) (\<lambda>_ s. Ret a s)
                    else Ret a s)
                  else Ret a s) (\<lambda>a s.
             bnd (brelse bp s) (\<lambda>_ s. Ret a s))))
      else Panic ''bmap: out of range'')"

definition stati :: "nat \<Rightarrow> 'x fs_state_scheme \<Rightarrow> stat" where
  "stati i s =
     (let ip = inodes s i
      in \<lparr>st_dev = i_dev ip, st_ino = i_inum ip, st_type = i_type ip, st_nlink = i_nlink ip,
          st_size = ucast (i_size ip)\<rparr>)"

text \<open>The loops of \<open>readi\<close> and \<open>writei\<close>; \<open>rm\<close> is \<open>n - tot\<close>. \<open>off + n\<close> does not wrap
  there, so offsets are natural numbers. \<open>readi\<close> also returns the bytes it copied.\<close>

function readi_loop :: "nat \<Rightarrow> dst \<Rightarrow> nat \<Rightarrow> nat \<Rightarrow> uint8 list \<Rightarrow> 'x fs_state_scheme \<Rightarrow>
    (int \<times> uint8 list, 'x fs_state_scheme) outcome" where
  "readi_loop i d off rm acc s =
     (if rm = 0 then Ret (int (length acc), acc) s
      else
        bnd (bmap i (off div BSIZE) s) (\<lambda>addr s.
        if addr = 0 then Ret (int (length acc), acc) s
        else
          bnd (bread (i_dev (inodes s i)) addr s) (\<lambda>bp s.
          let m = min rm (BSIZE - off mod BSIZE);
              bs = slice (b_data (bufs s bp)) (off mod BSIZE) m
          in bnd (either_copyout d bs s) (\<lambda>r s.
             if r = - 1 then bnd (brelse bp s) (\<lambda>_ s. Ret (- 1, acc) s)
             else bnd (brelse bp s) (\<lambda>_ s.
                  readi_loop i (dst_add d m) (off + m) (rm - m) (acc @ bs) s)))))"
  by pat_completeness auto
termination by (relation "measure (\<lambda>(i, d, off, rm, acc, s). rm)") auto

definition readi :: "nat \<Rightarrow> dst \<Rightarrow> uint32 \<Rightarrow> uint32 \<Rightarrow> 'x fs_state_scheme \<Rightarrow>
    (int \<times> uint8 list, 'x fs_state_scheme) outcome" where
  "readi i d off n s =
     (let sz = i_size (inodes s i)
      in if off > sz \<or> off + n < off then Ret (0, []) s
         else
           let n = (if off + n > sz then sz - off else n)
           in readi_loop i d (unat off) (unat n) [] s)"

text \<open>The result is the number of bytes written and the final offset.\<close>

function writei_loop :: "nat \<Rightarrow> src \<Rightarrow> nat \<Rightarrow> nat \<Rightarrow> nat \<Rightarrow> 'x fs_state_scheme \<Rightarrow>
    (nat \<times> nat, 'x fs_state_scheme) outcome" where
  "writei_loop i sr off rm tot s =
     (if rm = 0 then Ret (tot, off) s
      else
        bnd (bmap i (off div BSIZE) s) (\<lambda>addr s.
        if addr = 0 then Ret (tot, off) s
        else
          bnd (bread (i_dev (inodes s i)) addr s) (\<lambda>bp s.
          let m = min rm (BSIZE - off mod BSIZE)
          in bnd (either_copyin sr m s) (\<lambda>r s.
             case r of
               None \<Rightarrow> bnd (brelse bp s) (\<lambda>_ s. Ret (tot, off) s)
             | Some bs \<Rightarrow>
                 bnd (log_write bp (set_data bp (overwrite (b_data (bufs s bp)) (off mod BSIZE) bs) s)) (\<lambda>_ s.
                 bnd (brelse bp s) (\<lambda>_ s.
                 writei_loop i (src_add sr m) (off + m) (rm - m) (tot + m) s))))))"
  by pat_completeness auto
termination by (relation "measure (\<lambda>(i, sr, off, rm, tot, s). rm)") auto

definition writei :: "nat \<Rightarrow> src \<Rightarrow> uint32 \<Rightarrow> uint32 \<Rightarrow> 'x fs_state_scheme \<Rightarrow> (int, 'x fs_state_scheme) outcome" where
  "writei i sr off n s =
     (if off > i_size (inodes s i) \<or> off + n < off then Ret (- 1) s
      else if unat (off + n) > MAXFILE * BSIZE then Ret (- 1) s
      else
        bnd (writei_loop i sr (unat off) (unat n) 0 s) (\<lambda>r s.
        let s = (if of_nat (snd r) > i_size (inodes s i)
                 then upd_inode i (i_size_update (\<lambda>_. of_nat (snd r))) s else s)
        in bnd (iupdate i s) (\<lambda>_ s. Ret (int (fst r)) s)))"

section \<open>Directories\<close>

definition namecmp :: "uint8 list \<Rightarrow> uint8 list \<Rightarrow> int" where
  "namecmp n t = strncmp n t DIRSIZ"

text \<open>\<open>struct dirent\<close>: a 16-bit inode number and fourteen characters. The loops below go
  through the entries of a directory of \<open>sz\<close> bytes; \<open>readi\<close> does not change the size.\<close>

function dirlookup_loop :: "nat \<Rightarrow> uint8 list \<Rightarrow> nat \<Rightarrow> nat \<Rightarrow> 'x fs_state_scheme \<Rightarrow>
    ((nat \<times> nat) option, 'x fs_state_scheme) outcome" where
  "dirlookup_loop dp name sz off s =
     (if off \<ge> sz then Ret None s
      else
        bnd (readi dp DObj (of_nat off) 16 s) (\<lambda>r s.
        if fst r \<noteq> 16 then Panic ''dirlookup read''
        else if get16 (snd r) 0 \<noteq> 0 \<and> namecmp name (drop 2 (snd r)) = 0 then
          bnd (iget (i_dev (inodes s dp)) (ucast (get16 (snd r) 0)) s) (\<lambda>i s. Ret (Some (i, off)) s)
        else dirlookup_loop dp name sz (off + 16) s))"
  by pat_completeness auto
termination by (relation "measure (\<lambda>(dp, name, sz, off, s). sz - off)") auto

definition dirlookup :: "nat \<Rightarrow> uint8 list \<Rightarrow> 'x fs_state_scheme \<Rightarrow> ((nat \<times> nat) option, 'x fs_state_scheme) outcome" where
  "dirlookup dp name s =
     (if i_type (inodes s dp) \<noteq> T_DIR then Panic ''dirlookup not DIR''
      else dirlookup_loop dp name (unat (i_size (inodes s dp))) 0 s)"

function dirlink_slot :: "nat \<Rightarrow> nat \<Rightarrow> nat \<Rightarrow> 'x fs_state_scheme \<Rightarrow> (nat, 'x fs_state_scheme) outcome" where
  "dirlink_slot dp sz off s =
     (if off \<ge> sz then Ret off s
      else
        bnd (readi dp DObj (of_nat off) 16 s) (\<lambda>r s.
        if fst r \<noteq> 16 then Panic ''dirlink read''
        else if get16 (snd r) 0 = 0 then Ret off s
        else dirlink_slot dp sz (off + 16) s))"
  by pat_completeness auto
termination by (relation "measure (\<lambda>(dp, sz, off, s). sz - off)") auto

definition dirent_bytes :: "uint32 \<Rightarrow> uint8 list \<Rightarrow> uint8 list" where
  "dirent_bytes inum name = bytes16 (ucast inum) @ strncpy (replicate DIRSIZ 0) name DIRSIZ"

definition dirlink :: "nat \<Rightarrow> uint8 list \<Rightarrow> uint32 \<Rightarrow> 'x fs_state_scheme \<Rightarrow> (int, 'x fs_state_scheme) outcome" where
  "dirlink dp name inum s =
     bnd (dirlookup dp name s) (\<lambda>r s.
     case r of
       Some (ip, _) \<Rightarrow> bnd (iput ip s) (\<lambda>_ s. Ret (- 1) s)
     | None \<Rightarrow>
         bnd (dirlink_slot dp (unat (i_size (inodes s dp))) 0 s) (\<lambda>off s.
         bnd (writei dp (SObj (dirent_bytes inum name)) (of_nat off) 16 s) (\<lambda>w s.
         Ret (if w \<noteq> 16 then - 1 else 0) s)))"

section \<open>Path names\<close>

text \<open>The result of \<open>skipelem\<close> is the rest of the path and the new contents of the name
  buffer; \<open>None\<close> when there is no element.\<close>

definition skipelem :: "uint8 list \<Rightarrow> uint8 list \<Rightarrow> (uint8 list \<times> uint8 list) option" where
  "skipelem path name =
     (let path = dropWhile (\<lambda>c. c = 47) path
      in if chd path = 0 then None
         else
           let s = takeWhile (\<lambda>c. c \<noteq> 47 \<and> c \<noteq> 0) path;
               path = dropWhile (\<lambda>c. c \<noteq> 47 \<and> c \<noteq> 0) path;
               name = (if length s \<ge> DIRSIZ then overwrite name 0 (take DIRSIZ s) else overwrite name 0 (s @ [0]))
           in Some (dropWhile (\<lambda>c. c = 47) path, name))"

lemma skipelem_shorter:
  assumes "skipelem path name = Some (p, n)"
  shows "length p < length path"
proof -
  let ?q = "dropWhile (\<lambda>c. c = 47) path"
  from assms have c: "chd ?q \<noteq> 0" and p: "p = dropWhile (\<lambda>c. c = 47) (dropWhile (\<lambda>c. c \<noteq> 47 \<and> c \<noteq> 0) ?q)"
    by (auto simp: skipelem_def Let_def split: if_splits)
  obtain x xs where q: "?q = x # xs" using c by (cases ?q) auto
  have "x \<noteq> 47" using hd_dropWhile [of "\<lambda>c. c = 47" path] q by auto
  moreover have "x \<noteq> 0" using c q by simp
  ultimately have "p = dropWhile (\<lambda>c. c = 47) (dropWhile (\<lambda>c. c \<noteq> 47 \<and> c \<noteq> 0) xs)"
    by (simp add: p q)
  then have "length p \<le> length xs"
    using order.trans [OF length_dropWhile_le length_dropWhile_le] by simp
  moreover have "length ?q \<le> length path" by (rule length_dropWhile_le)
  ultimately show ?thesis by (simp add: q)
qed

function namex_loop :: "nat \<Rightarrow> bool \<Rightarrow> uint8 list \<Rightarrow> uint8 list \<Rightarrow> 'x fs_state_scheme \<Rightarrow>
    (nat option \<times> uint8 list, 'x fs_state_scheme) outcome" where
  "namex_loop ip parent path name s =
     (case skipelem path name of
        None \<Rightarrow> if parent then bnd (iput ip s) (\<lambda>_ s. Ret (None, name) s) else Ret (Some ip, name) s
      | Some (path', name') \<Rightarrow>
          bnd (ilock (Some ip) s) (\<lambda>_ s.
          if i_type (inodes s ip) \<noteq> T_DIR then bnd (iunlockput ip s) (\<lambda>_ s. Ret (None, name') s)
          else if parent \<and> chd path' = 0 then bnd (iunlock (Some ip) s) (\<lambda>_ s. Ret (Some ip, name') s)
          else
            bnd (dirlookup ip name' s) (\<lambda>r s.
            case r of
              None \<Rightarrow> bnd (iunlockput ip s) (\<lambda>_ s. Ret (None, name') s)
            | Some (next, _) \<Rightarrow> bnd (iunlockput ip s) (\<lambda>_ s. namex_loop next parent path' name' s))))"
  by pat_completeness auto
termination
  by (relation "measure (\<lambda>(ip, parent, path, name, s). length path)") (auto dest: skipelem_shorter)

definition namex :: "uint8 list \<Rightarrow> bool \<Rightarrow> uint8 list \<Rightarrow> 'x fs_state_scheme \<Rightarrow>
    (nat option \<times> uint8 list, 'x fs_state_scheme) outcome" where
  "namex path parent name s =
     bnd (if chd path = 47 then iget ROOTDEV ROOTINO s
          else bnd (curproc s) (\<lambda>p s. bnd (deref (p_cwd (procs s p)) s) (\<lambda>c s. idup c s))) (\<lambda>ip s.
     namex_loop ip parent path name s)"

definition namei :: "uint8 list \<Rightarrow> 'x fs_state_scheme \<Rightarrow> (nat option, 'x fs_state_scheme) outcome" where
  "namei path s = bnd (namex path False (replicate DIRSIZ 0) s) (\<lambda>r s. Ret (fst r) s)"

definition nameiparent :: "uint8 list \<Rightarrow> uint8 list \<Rightarrow> 'x fs_state_scheme \<Rightarrow>
    (nat option \<times> uint8 list, 'x fs_state_scheme) outcome" where
  "nameiparent path name s = namex path True name s"

end
