(* ===== verification/Pipe.thy ===== *)
theory Pipe
  imports Fs
begin

text \<open>
  Pipes: \<open>src/kernel/pipe.c\<close>, but for \<open>pipealloc\<close>, which is in \<open>File\<close>. \<open>struct pipe\<close>
  lives in an allocated page; \<open>pipes\<close> is indexed by the address of the page. Blocking on a
  full or an empty pipe is the outcome \<open>Wait\<close>.
\<close>

section \<open>Operations\<close>

definition PIPESIZE :: nat where [simp]: "PIPESIZE = 512"

record pipe =
  pi_data :: "nat \<Rightarrow> uint8"
  pi_nread :: uint32
  pi_nwrite :: uint32
  pi_readopen :: bool
  pi_writeopen :: bool

datatype ftype = FD_NONE | FD_PIPE | FD_INODE | FD_DEVICE

record struct_file =
  f_type :: ftype
  f_ref :: uint32
  f_readable :: bool
  f_writable :: bool
  f_pipe :: uint64
  f_ip :: "nat option"
  f_off :: uint32
  f_major :: uint16

record file_state = fs_state +
  ftable :: "nat \<Rightarrow> struct_file"
  pipes :: "uint64 \<Rightarrow> pipe"

definition upd_pipe :: "uint64 \<Rightarrow> (pipe \<Rightarrow> pipe) \<Rightarrow> 'x file_state_scheme \<Rightarrow> 'x file_state_scheme" where
  "upd_pipe pi f s = s\<lparr>pipes := (pipes s)(pi := f (pipes s pi))\<rparr>"

definition pipeclose :: "uint64 \<Rightarrow> bool \<Rightarrow> 'x file_state_scheme \<Rightarrow> (unit, 'x file_state_scheme) outcome" where
  "pipeclose pi writable s =
     bnd (acquire (PipeLock pi) s) (\<lambda>_ s.
     bnd (if writable then wakeup (ChPipeR pi) (upd_pipe pi (pi_writeopen_update (\<lambda>_. False)) s)
          else wakeup (ChPipeW pi) (upd_pipe pi (pi_readopen_update (\<lambda>_. False)) s)) (\<lambda>_ s.
     if \<not> pi_readopen (pipes s pi) \<and> \<not> pi_writeopen (pipes s pi)
     then bnd (release (PipeLock pi) s) (\<lambda>_ s. kfree pi s)
     else release (PipeLock pi) s))"

text \<open>\<open>k\<close> more bytes to write, the next one from \<open>addr + i\<close>. The process \<open>pr\<close> is the
  current one.\<close>

fun pipewrite_loop :: "nat \<Rightarrow> uint64 \<Rightarrow> nat \<Rightarrow> uint64 \<Rightarrow> nat \<Rightarrow> 'x file_state_scheme \<Rightarrow>
    (int, 'x file_state_scheme) outcome" where
  "pipewrite_loop pr pi 0 addr i s =
     bnd (wakeup (ChPipeR pi) s) (\<lambda>_ s. bnd (release (PipeLock pi) s) (\<lambda>_ s. Ret (int i) s))"
| "pipewrite_loop pr pi (Suc k) addr i s =
     bnd (if \<not> pi_readopen (pipes s pi) then Ret True s else killed pr s) (\<lambda>stop s.
     if stop then bnd (release (PipeLock pi) s) (\<lambda>_ s. Ret (- 1) s)
     else if pi_nwrite (pipes s pi) = pi_nread (pipes s pi) + 512 then
       bnd (wakeup (ChPipeR pi) s) (\<lambda>_ s. bnd (sleep (ChPipeW pi) (PipeLock pi) s) (\<lambda>_ s. Ret (- 1) s))
     else
       bnd (copyin (p_pagetable (procs s pr)) (addr + of_nat i) 1 s) (\<lambda>r s.
       case r of
         None \<Rightarrow> bnd (wakeup (ChPipeR pi) s) (\<lambda>_ s. bnd (release (PipeLock pi) s) (\<lambda>_ s. Ret (int i) s))
       | Some cs \<Rightarrow>
           pipewrite_loop pr pi k addr (Suc i)
             (upd_pipe pi (\<lambda>p. p\<lparr>pi_data := (pi_data p)(unat (pi_nwrite p) mod PIPESIZE := chd cs),
                pi_nwrite := pi_nwrite p + 1\<rparr>) s)))"

definition pipewrite :: "uint64 \<Rightarrow> uint64 \<Rightarrow> uint32 \<Rightarrow> 'x file_state_scheme \<Rightarrow> (int, 'x file_state_scheme) outcome" where
  "pipewrite pi addr n s =
     bnd (curproc s) (\<lambda>pr s.
     bnd (acquire (PipeLock pi) s) (\<lambda>_ s. pipewrite_loop pr pi (nat (sint n)) addr 0 s))"

fun piperead_loop :: "nat \<Rightarrow> uint64 \<Rightarrow> nat \<Rightarrow> uint64 \<Rightarrow> nat \<Rightarrow> 'x file_state_scheme \<Rightarrow>
    (int, 'x file_state_scheme) outcome" where
  "piperead_loop pr pi 0 addr i s = Ret (int i) s"
| "piperead_loop pr pi (Suc k) addr i s =
     (if pi_nread (pipes s pi) = pi_nwrite (pipes s pi) then Ret (int i) s
      else
        let ch = pi_data (pipes s pi) (unat (pi_nread (pipes s pi)) mod PIPESIZE);
            s = upd_pipe pi (\<lambda>p. p\<lparr>pi_nread := pi_nread p + 1\<rparr>) s
        in bnd (copyout (p_pagetable (procs s pr)) (addr + of_nat i) [ch] s) (\<lambda>r s.
           if r = - 1 then Ret (int i) s else piperead_loop pr pi k addr (Suc i) s))"

definition piperead :: "uint64 \<Rightarrow> uint64 \<Rightarrow> uint32 \<Rightarrow> 'x file_state_scheme \<Rightarrow> (int, 'x file_state_scheme) outcome" where
  "piperead pi addr n s =
     bnd (curproc s) (\<lambda>pr s.
     bnd (acquire (PipeLock pi) s) (\<lambda>_ s.
     if pi_nread (pipes s pi) = pi_nwrite (pipes s pi) \<and> pi_writeopen (pipes s pi) then
       bnd (killed pr s) (\<lambda>k s.
       if k then bnd (release (PipeLock pi) s) (\<lambda>_ s. Ret (- 1) s)
       else bnd (sleep (ChPipeR pi) (PipeLock pi) s) (\<lambda>_ s. Ret (- 1) s))
     else
       bnd (piperead_loop pr pi (nat (sint n)) addr 0 s) (\<lambda>i s.
       bnd (wakeup (ChPipeW pi) s) (\<lambda>_ s.
       bnd (release (PipeLock pi) s) (\<lambda>_ s. Ret i s)))))"

end
