(* ===== verification/File.thy ===== *)
theory File
  imports Pipe
begin

text \<open>
  Open files: \<open>src/kernel/file.c\<close> and \<open>pipealloc\<close> of \<open>pipe.c\<close>.
\<close>

section \<open>Operations\<close>

definition upd_file :: "nat \<Rightarrow> (struct_file \<Rightarrow> struct_file) \<Rightarrow> 'x file_state_scheme \<Rightarrow> 'x file_state_scheme" where
  "upd_file f g s = s\<lparr>ftable := (ftable s)(f := g (ftable s f))\<rparr>"

definition fileinit :: "'x file_state_scheme \<Rightarrow> 'x file_state_scheme" where
  "fileinit s = initlock FtableLock ''ftable'' s"

fun free_file :: "(nat \<Rightarrow> struct_file) \<Rightarrow> nat \<Rightarrow> nat \<Rightarrow> nat option" where
  "free_file t f 0 = None"
| "free_file t f (Suc k) = (if f_ref (t f) = 0 then Some f else free_file t (Suc f) k)"

definition filealloc :: "'x file_state_scheme \<Rightarrow> (nat option, 'x file_state_scheme) outcome" where
  "filealloc s =
     bnd (acquire FtableLock s) (\<lambda>_ s.
     case free_file (ftable s) 0 NFILE of
       Some f \<Rightarrow> bnd (release FtableLock (upd_file f (f_ref_update (\<lambda>_. 1)) s)) (\<lambda>_ s. Ret (Some f) s)
     | None \<Rightarrow> bnd (release FtableLock s) (\<lambda>_ s. Ret None s))"

definition filedup :: "nat \<Rightarrow> 'x file_state_scheme \<Rightarrow> (nat, 'x file_state_scheme) outcome" where
  "filedup f s =
     bnd (acquire FtableLock s) (\<lambda>_ s.
     if sint (f_ref (ftable s f)) < 1 then Panic ''filedup''
     else bnd (release FtableLock (upd_file f (\<lambda>x. x\<lparr>f_ref := f_ref x + 1\<rparr>) s)) (\<lambda>_ s. Ret f s))"

definition fileclose :: "nat \<Rightarrow> 'x file_state_scheme \<Rightarrow> (unit, 'x file_state_scheme) outcome" where
  "fileclose f s =
     bnd (acquire FtableLock s) (\<lambda>_ s.
     if sint (f_ref (ftable s f)) < 1 then Panic ''fileclose''
     else
       let s = upd_file f (\<lambda>x. x\<lparr>f_ref := f_ref x - 1\<rparr>) s
       in if sint (f_ref (ftable s f)) > 0 then release FtableLock s
          else
            let ff = ftable s f;
                s = upd_file f (\<lambda>x. x\<lparr>f_ref := 0, f_type := FD_NONE\<rparr>) s
            in bnd (release FtableLock s) (\<lambda>_ s.
               if f_type ff = FD_PIPE then pipeclose (f_pipe ff) (f_writable ff) s
               else if f_type ff = FD_INODE \<or> f_type ff = FD_DEVICE then
                 bnd (begin_op s) (\<lambda>_ s.
                 bnd (bnd (deref (f_ip ff) s) (\<lambda>ip s. iput ip s)) (\<lambda>_ s. end_op s))
               else Ret () s))"

text \<open>\<open>struct stat\<close> has four bytes of padding before \<open>size\<close>; they are whatever the stack
  held, \<open>pad\<close>.\<close>

definition stat_bytes :: "uint8 list \<Rightarrow> stat \<Rightarrow> uint8 list" where
  "stat_bytes pad st = bytes32 (st_dev st) @ bytes32 (st_ino st) @ bytes16 (st_type st) @
     bytes16 (st_nlink st) @ take 4 pad @ bytes64 (st_size st)"

definition filestat :: "uint8 list \<Rightarrow> nat \<Rightarrow> uint64 \<Rightarrow> 'x file_state_scheme \<Rightarrow> (int, 'x file_state_scheme) outcome" where
  "filestat pad f addr s =
     bnd (curproc s) (\<lambda>p s.
     let ip = f_ip (ftable s f)
     in if f_type (ftable s f) = FD_INODE \<or> f_type (ftable s f) = FD_DEVICE then
          bnd (ilock ip s) (\<lambda>_ s.
          bnd (deref ip s) (\<lambda>i s.
          let st = stati i s
          in bnd (iunlock ip s) (\<lambda>_ s.
             bnd (copyout (p_pagetable (procs s p)) addr (stat_bytes pad st) s) (\<lambda>r s.
             Ret (if r < 0 then - 1 else 0) s))))
        else Ret (- 1) s)"

text \<open>The switch over the device number of \<open>fileread\<close> and \<open>filewrite\<close>.\<close>

definition dev_ok :: "uint16 \<Rightarrow> 'x cons_state_scheme \<Rightarrow> bool" where
  "dev_ok maj s \<longleftrightarrow> 0 \<le> sint maj \<and> sint maj < NDEV \<and> devsw s (unat maj) \<noteq> None"

definition fileread :: "nat \<Rightarrow> uint64 \<Rightarrow> uint32 \<Rightarrow> 'x file_state_scheme \<Rightarrow> (int, 'x file_state_scheme) outcome" where
  "fileread f addr n s =
     (if \<not> f_readable (ftable s f) then Ret (- 1) s
      else case f_type (ftable s f) of
        FD_PIPE \<Rightarrow> piperead (f_pipe (ftable s f)) addr n s
      | FD_DEVICE \<Rightarrow> if \<not> dev_ok (f_major (ftable s f)) s then Ret (- 1) s else consoleread (DUser addr) n s
      | FD_INODE \<Rightarrow>
          let ip = f_ip (ftable s f)
          in bnd (ilock ip s) (\<lambda>_ s.
             bnd (deref ip s) (\<lambda>i s.
             bnd (readi i (DUser addr) (f_off (ftable s f)) n s) (\<lambda>r s.
             let s = (if fst r > 0 then upd_file f (\<lambda>x. x\<lparr>f_off := f_off x + of_int (fst r)\<rparr>) s else s)
             in bnd (iunlock ip s) (\<lambda>_ s. Ret (fst r) s))))
      | FD_NONE \<Rightarrow> Panic ''fileread'')"

text \<open>The loop of \<open>filewrite\<close>: \<open>rm\<close> bytes left, \<open>i\<close> written. The result is the final \<open>i\<close>.\<close>

function filewrite_loop :: "nat \<Rightarrow> uint64 \<Rightarrow> nat \<Rightarrow> nat \<Rightarrow> 'x file_state_scheme \<Rightarrow> (nat, 'x file_state_scheme) outcome" where
  "filewrite_loop f addr rm i s =
     (if rm = 0 then Ret i s
      else
        let n1 = min rm (((10 - 1 - 1 - 2) div 2) * BSIZE);
            ip = f_ip (ftable s f)
        in bnd (begin_op s) (\<lambda>_ s.
           bnd (ilock ip s) (\<lambda>_ s.
           bnd (deref ip s) (\<lambda>j s.
           bnd (writei j (SUser (addr + of_nat i)) (f_off (ftable s f)) (of_nat n1) s) (\<lambda>r s.
           let s = (if r > 0 then upd_file f (\<lambda>x. x\<lparr>f_off := f_off x + of_int r\<rparr>) s else s)
           in bnd (iunlock ip s) (\<lambda>_ s.
              bnd (end_op s) (\<lambda>_ s.
              if r \<noteq> int n1 then Ret i s
              else filewrite_loop f addr (rm - n1) (i + n1) s)))))))"
  by pat_completeness auto
termination by (relation "measure (\<lambda>(f, addr, rm, i, s). rm)") auto

definition filewrite :: "nat \<Rightarrow> uint64 \<Rightarrow> uint32 \<Rightarrow> 'x file_state_scheme \<Rightarrow> (int, 'x file_state_scheme) outcome" where
  "filewrite f addr n s =
     (if \<not> f_writable (ftable s f) then Ret (- 1) s
      else case f_type (ftable s f) of
        FD_PIPE \<Rightarrow> pipewrite (f_pipe (ftable s f)) addr n s
      | FD_DEVICE \<Rightarrow> if \<not> dev_ok (f_major (ftable s f)) s then Ret (- 1) s else consolewrite (SUser addr) n s
      | FD_INODE \<Rightarrow>
          bnd (filewrite_loop f addr (nat (sint n)) 0 s) (\<lambda>i s.
          Ret (if int i = sint n then sint n else - 1) s)
      | FD_NONE \<Rightarrow> Panic ''filewrite'')"

definition pipealloc :: "'x file_state_scheme \<Rightarrow> ((nat \<times> nat) option, 'x file_state_scheme) outcome" where
  "pipealloc s =
     bnd (filealloc s) (\<lambda>f0 s.
     case f0 of
       None \<Rightarrow> Ret None s
     | Some f0 \<Rightarrow>
         bnd (filealloc s) (\<lambda>f1 s.
         case f1 of
           None \<Rightarrow> bnd (fileclose f0 s) (\<lambda>_ s. Ret None s)
         | Some f1 \<Rightarrow>
             bnd (kalloc s) (\<lambda>pi s.
             if pi = 0 then bnd (fileclose f0 s) (\<lambda>_ s. bnd (fileclose f1 s) (\<lambda>_ s. Ret None s))
             else
               let s = upd_pipe pi (\<lambda>p. p\<lparr>pi_readopen := True, pi_writeopen := True, pi_nwrite := 0, pi_nread := 0\<rparr>) s;
                   s = initlock (PipeLock pi) ''pipe'' s;
                   s = upd_file f0 (\<lambda>x. x\<lparr>f_type := FD_PIPE, f_readable := True, f_writable := False, f_pipe := pi\<rparr>) s;
                   s = upd_file f1 (\<lambda>x. x\<lparr>f_type := FD_PIPE, f_readable := False, f_writable := True, f_pipe := pi\<rparr>) s
               in Ret (Some (f0, f1)) s)))"

end
