(* ===== verification/Fork.thy ===== *)
theory Fork
  imports File
begin

text \<open>
  Process creation and termination: \<open>userinit\<close>, \<open>fork\<close>, \<open>reparent\<close>, \<open>exit\<close> and
  \<open>wait\<close> of \<open>src/kernel/proc.c\<close>. Trapframes are in memory at the offsets of \<open>proc.h\<close>.
  \<open>exit\<close> ends in the outcome \<open>Wait\<close>, in the scheduler; so does \<open>wait\<close> when it sleeps.
\<close>

section \<open>Operations\<close>

definition initcode :: "uint8 list" where
  "initcode = [
    0x17, 0x05, 0x00, 0x00, 0x13, 0x05, 0x45, 0x02,
    0x97, 0x05, 0x00, 0x00, 0x93, 0x85, 0x35, 0x02,
    0x93, 0x08, 0x70, 0x00, 0x73, 0x00, 0x00, 0x00,
    0x93, 0x08, 0x20, 0x00, 0x73, 0x00, 0x00, 0x00,
    0xef, 0xf0, 0x9f, 0xff, 0x2f, 0x69, 0x6e, 0x69,
    0x74, 0x00, 0x00, 0x24, 0x00, 0x00, 0x00, 0x00,
    0x00, 0x00, 0x00, 0x00]"

text \<open>Fields of the trapframe at address \<open>tf\<close>.\<close>

definition tf_get :: "uint64 \<Rightarrow> uint64 \<Rightarrow> 'x kmem_state_scheme \<Rightarrow> uint64" where
  "tf_get tf off s = load64 (mem s) (tf + off)"

definition tf_set :: "uint64 \<Rightarrow> uint64 \<Rightarrow> uint64 \<Rightarrow> 'x kmem_state_scheme \<Rightarrow> 'x kmem_state_scheme" where
  "tf_set tf off v s = s\<lparr>mem := store64 (mem s) (tf + off) v\<rparr>"

definition userinit :: "'x file_state_scheme \<Rightarrow> (unit, 'x file_state_scheme) outcome" where
  "userinit s =
     bnd (allocproc s) (\<lambda>p s.
     let s = s\<lparr>initproc := p\<rparr>
     in bnd (deref p s) (\<lambda>i s.
        bnd (uvmfirst (p_pagetable (procs s i)) initcode s) (\<lambda>_ s.
        let s = upd_proc i (p_sz_update (\<lambda>_. PGSIZE)) s
        in bnd (u2kvmcopy (p_pagetable (procs s i)) (p_kpagetable (procs s i)) 0 (p_sz (procs s i)) s) (\<lambda>_ s.
           let s = tf_set (p_trapframe (procs s i)) 24 0 s;
               s = tf_set (p_trapframe (procs s i)) 48 PGSIZE s;
               s = upd_proc i (\<lambda>p. p\<lparr>p_name := safestrcpy (p_name p) (str ''initcode'') 16\<rparr>) s
           in bnd (namei (str ''/'') s) (\<lambda>c s.
              release (ProcLock i) (upd_proc i (\<lambda>p. p\<lparr>p_cwd := c, p_state := RUNNABLE\<rparr>) s))))))"

text \<open>The loop of \<open>fork\<close> that duplicates the open files.\<close>

definition fork_files :: "nat \<Rightarrow> nat \<Rightarrow> 'x file_state_scheme \<Rightarrow> (unit, 'x file_state_scheme) outcome" where
  "fork_files i np s =
     forn NOFILE 0 (\<lambda>fd s.
       case p_ofile (procs s i) fd of
         None \<Rightarrow> Ret () s
       | Some f \<Rightarrow> bnd (filedup f s) (\<lambda>f s.
           Ret () (upd_proc np (\<lambda>p. p\<lparr>p_ofile := (p_ofile p)(fd := Some f)\<rparr>) s))) s"

definition fork :: "'x file_state_scheme \<Rightarrow> (int, 'x file_state_scheme) outcome" where
  "fork s =
     bnd (curproc s) (\<lambda>i s.
     bnd (allocproc s) (\<lambda>r s.
     case r of
       None \<Rightarrow> Ret (- 1) s
     | Some np \<Rightarrow>
         bnd (uvmcopy (p_pagetable (procs s i)) (p_pagetable (procs s np)) (p_sz (procs s i)) s) (\<lambda>r s.
         if r < 0 then
           bnd (freeproc np s) (\<lambda>_ s. bnd (release (ProcLock np) s) (\<lambda>_ s. Ret (- 1) s))
         else
           let s = upd_proc np (p_sz_update (\<lambda>_. p_sz (procs s i))) s
           in bnd (u2kvmcopy (p_pagetable (procs s np)) (p_kpagetable (procs s np)) 0 (p_sz (procs s np)) s) (\<lambda>_ s.
              let ptf = p_trapframe (procs s i); ntf = p_trapframe (procs s np);
                  s = s\<lparr>mem := memmove (mem s) ntf ptf 288\<rparr>;
                  s = tf_set ntf 112 0 s
              in bnd (fork_files i np s) (\<lambda>_ s.
                 bnd (bnd (deref (p_cwd (procs s i)) s) (\<lambda>c s. idup c s)) (\<lambda>c s.
                 let s = upd_proc np (\<lambda>p. p\<lparr>p_cwd := Some c,
                           p_name := safestrcpy (p_name p) (p_name (procs s i)) 16\<rparr>) s;
                     pid = p_pid (procs s np)
                 in bnd (release (ProcLock np) s) (\<lambda>_ s.
                    bnd (acquire WaitLock s) (\<lambda>_ s.
                    bnd (release WaitLock (upd_proc np (p_parent_update (\<lambda>_. Some i)) s)) (\<lambda>_ s.
                    bnd (acquire (ProcLock np) s) (\<lambda>_ s.
                    bnd (release (ProcLock np) (upd_proc np (p_state_update (\<lambda>_. RUNNABLE)) s)) (\<lambda>_ s.
                    Ret (sint pid) s)))))))))))"

definition reparent :: "nat \<Rightarrow> 'x file_state_scheme \<Rightarrow> (unit, 'x file_state_scheme) outcome" where
  "reparent i s =
     forn NPROC 0 (\<lambda>j s.
       if p_parent (procs s j) = Some i then
         wakeup_on (map_option ChProc (initproc s)) (upd_proc j (p_parent_update (\<lambda>_. initproc s)) s)
       else Ret () s) s"

text \<open>The loop of \<open>exit\<close> that closes the open files.\<close>

definition exit_files :: "nat \<Rightarrow> 'x file_state_scheme \<Rightarrow> (unit, 'x file_state_scheme) outcome" where
  "exit_files i s =
     forn NOFILE 0 (\<lambda>fd s.
       case p_ofile (procs s i) fd of
         None \<Rightarrow> Ret () s
       | Some f \<Rightarrow> bnd (fileclose f s) (\<lambda>_ s.
           Ret () (upd_proc i (\<lambda>p. p\<lparr>p_ofile := (p_ofile p)(fd := None)\<rparr>) s))) s"

text \<open>Everything up to the switch to the scheduler.\<close>

definition exit_enter :: "uint32 \<Rightarrow> 'x file_state_scheme \<Rightarrow> (unit, 'x file_state_scheme) outcome" where
  "exit_enter status s =
     bnd (curproc s) (\<lambda>i s.
     if Some i = initproc s then Panic ''init exiting''
     else
       bnd (exit_files i s) (\<lambda>_ s.
       bnd (begin_op s) (\<lambda>_ s.
       bnd (bnd (deref (p_cwd (procs s i)) s) (\<lambda>c s. iput c s)) (\<lambda>_ s.
       bnd (end_op s) (\<lambda>_ s.
       bnd (acquire WaitLock (upd_proc i (p_cwd_update (\<lambda>_. None)) s)) (\<lambda>_ s.
       bnd (reparent i s) (\<lambda>_ s.
       bnd (wakeup_on (map_option ChProc (p_parent (procs s i))) s) (\<lambda>_ s.
       bnd (acquire (ProcLock i) s) (\<lambda>_ s.
       release WaitLock (upd_proc i (\<lambda>p. p\<lparr>p_xstate := status, p_state := ZOMBIE\<rparr>) s))))))))))"

definition exit :: "uint32 \<Rightarrow> 'x file_state_scheme \<Rightarrow> ('r, 'x file_state_scheme) outcome" where
  "exit status s = bnd (exit_enter status s) (\<lambda>_ s. bnd (sched s) (\<lambda>_ s. Panic ''zombie exit''))"

text \<open>One pass over the process table; the result is the return value of \<open>wait\<close> when a
  zombie was found, and whether there are children.\<close>

fun wait_scan :: "nat \<Rightarrow> nat \<Rightarrow> nat \<Rightarrow> uint64 \<Rightarrow> bool \<Rightarrow> 'x file_state_scheme \<Rightarrow>
    (int option \<times> bool, 'x file_state_scheme) outcome" where
  "wait_scan 0 j i addr havekids s = Ret (None, havekids) s"
| "wait_scan (Suc k) j i addr havekids s =
     (if p_parent (procs s j) = Some i then
        bnd (acquire (ProcLock j) s) (\<lambda>_ s.
        if p_state (procs s j) = ZOMBIE then
          let pid = p_pid (procs s j)
          in bnd (if addr \<noteq> 0 then copyout (p_pagetable (procs s i)) addr (bytes32 (p_xstate (procs s j))) s
                  else Ret 0 s) (\<lambda>r s.
             if r < 0 then
               bnd (release (ProcLock j) s) (\<lambda>_ s. bnd (release WaitLock s) (\<lambda>_ s. Ret (Some (- 1), True) s))
             else
               bnd (freeproc j s) (\<lambda>_ s.
               bnd (release (ProcLock j) s) (\<lambda>_ s.
               bnd (release WaitLock s) (\<lambda>_ s. Ret (Some (sint pid), True) s))))
        else bnd (release (ProcLock j) s) (\<lambda>_ s. wait_scan k (Suc j) i addr True s))
      else wait_scan k (Suc j) i addr havekids s)"

definition wait :: "uint64 \<Rightarrow> 'x file_state_scheme \<Rightarrow> (int, 'x file_state_scheme) outcome" where
  "wait addr s =
     bnd (curproc s) (\<lambda>i s.
     bnd (acquire WaitLock s) (\<lambda>_ s.
     bnd (wait_scan NPROC 0 i addr False s) (\<lambda>r s.
     case r of
       (Some v, _) \<Rightarrow> Ret v s
     | (None, havekids) \<Rightarrow>
         bnd (if \<not> havekids then Ret True s else killed i s) (\<lambda>stop s.
         if stop then bnd (release WaitLock s) (\<lambda>_ s. Ret (- 1) s)
         else bnd (sleep (ChProc i) WaitLock s) (\<lambda>_ s. Ret (- 1) s)))))"

end
