(* ===== verification/Exec.thy ===== *)
theory Exec
  imports Fork
begin

text \<open>
  \<open>exec\<close>: \<open>src/kernel/exec.c\<close>, with the ELF structures of \<open>elf.h\<close>. The argument strings
  are given as byte lists; \<open>exec_bad\<close> is the code after the label \<open>bad\<close>.
\<close>

section \<open>Operations\<close>

record proghdr =
  ph_type :: uint32
  ph_flags :: uint32
  ph_off :: uint64
  ph_vaddr :: uint64
  ph_filesz :: uint64
  ph_memsz :: uint64

record elfhdr =
  elf_magic :: uint32
  elf_entry :: uint64
  elf_phoff :: uint64
  elf_phnum :: uint16

definition proghdr_of :: "uint8 list \<Rightarrow> proghdr" where
  "proghdr_of b = \<lparr>ph_type = get32 b 0, ph_flags = get32 b 4, ph_off = get64 b 8, ph_vaddr = get64 b 16,
     ph_filesz = get64 b 32, ph_memsz = get64 b 40\<rparr>"

definition elfhdr_of :: "uint8 list \<Rightarrow> elfhdr" where
  "elfhdr_of b = \<lparr>elf_magic = get32 b 0, elf_entry = get64 b 24, elf_phoff = get64 b 32, elf_phnum = get16 b 56\<rparr>"

definition flags2perm :: "uint32 \<Rightarrow> uint64" where
  "flags2perm flags =
     (let perm = (if flags AND 1 \<noteq> 0 then PTE_X else 0)
      in if flags AND 2 \<noteq> 0 then perm OR PTE_W else perm)"

text \<open>The offset \<open>i\<close> stays below \<open>2 ^ 32\<close>: a segment of that size has no pages mapped, and
  \<open>loadseg\<close> panics.\<close>

function loadseg_loop :: "uint64 \<Rightarrow> uint64 \<Rightarrow> nat \<Rightarrow> uint32 \<Rightarrow> nat \<Rightarrow> nat \<Rightarrow> 'x file_state_scheme \<Rightarrow>
    (int, 'x file_state_scheme) outcome" where
  "loadseg_loop pagetable va ip offset sz i s =
     (if i \<ge> sz then Ret 0 s
      else
        bnd (walkaddr pagetable (va + of_nat i) s) (\<lambda>pa s.
        if pa = 0 then Panic ''loadseg: address should exist''
        else
          let n = (if sz - i < 4096 then sz - i else 4096)
          in bnd (readi ip (DMem pa) (offset + of_nat i) (of_nat n) s) (\<lambda>r s.
             if fst r \<noteq> int n then Ret (- 1) s
             else loadseg_loop pagetable va ip offset sz (i + 4096) s)))"
  by pat_completeness auto
termination by (relation "measure (\<lambda>(pagetable, va, ip, offset, sz, i, s). sz - i)") auto

definition loadseg :: "uint64 \<Rightarrow> uint64 \<Rightarrow> nat \<Rightarrow> uint32 \<Rightarrow> uint32 \<Rightarrow> 'x file_state_scheme \<Rightarrow>
    (int, 'x file_state_scheme) outcome" where
  "loadseg pagetable va ip offset sz s = loadseg_loop pagetable va ip offset (unat sz) 0 s"

definition exec_bad :: "uint64 \<Rightarrow> uint64 \<Rightarrow> bool \<Rightarrow> nat option \<Rightarrow> 'x file_state_scheme \<Rightarrow>
    (int, 'x file_state_scheme) outcome" where
  "exec_bad pagetable sz usyscall_mapped ip s =
     bnd (if pagetable \<noteq> 0 then
            bnd (if usyscall_mapped then uvmunmap pagetable USYSCALL 1 False s else Ret () s) (\<lambda>_ s.
            proc_freepagetable pagetable sz s)
          else Ret () s) (\<lambda>_ s.
     bnd (case ip of
            Some i \<Rightarrow> bnd (iunlockput i s) (\<lambda>_ s. end_op s)
          | None \<Rightarrow> Ret () s) (\<lambda>_ s.
     Ret (- 1) s))"

text \<open>The program headers, \<open>k\<close> of them from offset \<open>off\<close> on. The result is whether all were
  loaded, and \<open>sz\<close>.\<close>

fun load_segments :: "nat \<Rightarrow> uint32 \<Rightarrow> nat \<Rightarrow> uint64 \<Rightarrow> uint64 \<Rightarrow> 'x file_state_scheme \<Rightarrow>
    (bool \<times> uint64, 'x file_state_scheme) outcome" where
  "load_segments 0 off ip pagetable sz s = Ret (True, sz) s"
| "load_segments (Suc k) off ip pagetable sz s =
     bnd (readi ip DObj off 56 s) (\<lambda>r s.
     let ph = proghdr_of (snd r)
     in if fst r \<noteq> 56 then Ret (False, sz) s
        else if ph_type ph \<noteq> 1 then load_segments k (off + 56) ip pagetable sz s
        else if ph_memsz ph < ph_filesz ph then Ret (False, sz) s
        else if ph_vaddr ph + ph_memsz ph < ph_vaddr ph then Ret (False, sz) s
        else if ph_vaddr ph mod PGSIZE \<noteq> 0 then Ret (False, sz) s
        else
          bnd (uvmalloc pagetable sz (ph_vaddr ph + ph_memsz ph) (flags2perm (ph_flags ph)) s) (\<lambda>sz1 s.
          if sz1 = 0 then Ret (False, sz) s
          else
            bnd (loadseg pagetable (ph_vaddr ph) ip (ucast (ph_off ph)) (ucast (ph_filesz ph)) s) (\<lambda>r s.
            if r < 0 then Ret (False, sz1) s
            else load_segments k (off + 56) ip pagetable sz1 s)))"

text \<open>The argument strings: each is copied below the previous one, and \<open>ustack\<close> collects
  the addresses. \<open>None\<close> is \<open>goto bad\<close>.\<close>

fun push_args :: "uint8 list list \<Rightarrow> uint64 \<Rightarrow> uint64 \<Rightarrow> uint64 \<Rightarrow> uint64 list \<Rightarrow> 'x file_state_scheme \<Rightarrow>
    ((uint64 \<times> uint64 list) option, 'x file_state_scheme) outcome" where
  "push_args [] pagetable stackbase sp ustack s = Ret (Some (sp, ustack)) s"
| "push_args (a # argv) pagetable stackbase sp ustack s =
     (if length ustack \<ge> MAXARG then Ret None s
      else
        let sp = sp - of_nat (strlen a + 1);
            sp = sp - sp mod 16
        in if sp < stackbase then Ret None s
           else
             bnd (copyout pagetable sp (take (strlen a + 1) (a @ [0])) s) (\<lambda>r s.
             if r < 0 then Ret None s
             else push_args argv pagetable stackbase sp (ustack @ [sp]) s))"

text \<open>The last path component.\<close>

fun last_elem :: "uint8 list \<Rightarrow> uint8 list \<Rightarrow> uint8 list" where
  "last_elem lst [] = lst"
| "last_elem lst (c # cs) = (if c = 0 then lst else last_elem (if c = 47 then cs else lst) cs)"

definition exec_commit :: "nat \<Rightarrow> uint8 list \<Rightarrow> uint64 \<Rightarrow> uint64 \<Rightarrow> uint64 \<Rightarrow> uint64 \<Rightarrow> uint64 \<Rightarrow> bool \<Rightarrow> nat \<Rightarrow>
    'x file_state_scheme \<Rightarrow> (int, 'x file_state_scheme) outcome" where
  "exec_commit p path pagetable sz oldsz entry sp usyscall_mapped argc s =
     (let tf = p_trapframe (procs s p);
          s = tf_set tf 120 sp s;
          s = upd_proc p (\<lambda>x. x\<lparr>p_name := safestrcpy (p_name x) (last_elem path path) 16\<rparr>) s;
          oldpagetable = p_pagetable (procs s p);
          s = upd_proc p (\<lambda>x. x\<lparr>p_pagetable := pagetable, p_sz := sz\<rparr>) s;
          s = tf_set tf 24 entry s;
          s = tf_set tf 48 sp s
      in bnd (if p_usyscall (procs s p) \<noteq> 0 \<and> usyscall_mapped
              then uvmunmap oldpagetable USYSCALL 1 False s else Ret () s) (\<lambda>_ s.
         bnd (proc_freepagetable oldpagetable oldsz s) (\<lambda>_ s.
         bnd (if p_pid (procs s p) = 1 then vmprint (p_pagetable (procs s p)) s else Ret () s) (\<lambda>_ s.
         Ret (int argc) s))))"

text \<open>From the loaded image on: stack, shadow mappings, system-call page and arguments.\<close>

definition exec_image :: "nat \<Rightarrow> uint8 list \<Rightarrow> uint8 list list \<Rightarrow> uint64 \<Rightarrow> uint64 \<Rightarrow> uint64 \<Rightarrow>
    'x file_state_scheme \<Rightarrow> (int, 'x file_state_scheme) outcome" where
  "exec_image p path argv pagetable sz entry s =
     (let oldsz = p_sz (procs s p);
          sz = PGROUNDUP sz
      in bnd (uvmalloc pagetable sz (sz + 2 * PGSIZE) PTE_W s) (\<lambda>sz1 s.
         if sz1 = 0 then exec_bad pagetable sz False None s
         else
           bnd (uvmclear pagetable (sz1 - 2 * PGSIZE) s) (\<lambda>_ s.
           let stackbase = sz1 - PGSIZE
           in if PGROUNDUP sz1 \<ge> USER_TOP then exec_bad pagetable sz1 False None s
              else
                bnd (kvmdealloc (p_kpagetable (procs s p)) (p_sz (procs s p)) 0 s) (\<lambda>_ s.
                bnd (u2kvmcopy pagetable (p_kpagetable (procs s p)) 0 sz1 s) (\<lambda>_ s.
                let us = p_usyscall (procs s p)
                in bnd (if us \<noteq> 0
                        then mappages pagetable USYSCALL PGSIZE us (PTE_R OR PTE_U)
                               (s\<lparr>mem := store32 (mem s) us (p_pid (procs s p))\<rparr>)
                        else Ret 0 s) (\<lambda>r s.
                   if r < 0 then exec_bad pagetable sz1 False None s
                   else
                     let mapped = (us \<noteq> 0)
                     in bnd (push_args argv pagetable stackbase sz1 [] s) (\<lambda>r s.
                        case r of
                          None \<Rightarrow> exec_bad pagetable sz1 mapped None s
                        | Some (sp, ustack) \<Rightarrow>
                            let argc = length ustack;
                                sp = sp - of_nat ((argc + 1) * 8);
                                sp = sp - sp mod 16
                            in if sp < stackbase then exec_bad pagetable sz1 mapped None s
                               else
                                 bnd (copyout pagetable sp (concat (map bytes64 (ustack @ [0]))) s) (\<lambda>r s.
                                 if r < 0 then exec_bad pagetable sz1 mapped None s
                                 else exec_commit p path pagetable sz1 oldsz entry sp mapped argc s))))))))"

definition exec :: "uint8 list \<Rightarrow> uint8 list list \<Rightarrow> 'x file_state_scheme \<Rightarrow> (int, 'x file_state_scheme) outcome" where
  "exec path argv s =
     bnd (curproc s) (\<lambda>p s.
     bnd (begin_op s) (\<lambda>_ s.
     bnd (namei path s) (\<lambda>r s.
     case r of
       None \<Rightarrow> bnd (end_op s) (\<lambda>_ s. Ret (- 1) s)
     | Some ip \<Rightarrow>
         bnd (ilock (Some ip) s) (\<lambda>_ s.
         bnd (readi ip DObj 0 64 s) (\<lambda>r s.
         let elf = elfhdr_of (snd r)
         in if fst r \<noteq> 64 then exec_bad 0 0 False (Some ip) s
            else if elf_magic elf \<noteq> 0x464C457F then exec_bad 0 0 False (Some ip) s
            else
              bnd (proc_pagetable p s) (\<lambda>pagetable s.
              if pagetable = 0 then exec_bad 0 0 False (Some ip) s
              else
                bnd (load_segments (unat (elf_phnum elf)) (ucast (elf_phoff elf)) ip pagetable 0 s) (\<lambda>r s.
                if \<not> fst r then exec_bad pagetable (snd r) False (Some ip) s
                else
                  bnd (iunlockput ip s) (\<lambda>_ s.
                  bnd (end_op s) (\<lambda>_ s.
                  exec_image p path argv pagetable (snd r) (elf_entry elf) s)))))))))"

end
