(* ===== verification/Sysproc.thy ===== *)
theory Sysproc
  imports Exec
begin

text \<open>
  System-call arguments, \<open>src/kernel/syscall.c\<close>, and the process system calls,
  \<open>src/kernel/sysproc.c\<close>. Results are the values stored in \<open>a0\<close>.
\<close>

section \<open>Arguments\<close>

definition fetchaddr :: "uint64 \<Rightarrow> 'x proc_state_scheme \<Rightarrow> (uint64 option, 'x proc_state_scheme) outcome" where
  "fetchaddr addr s =
     bnd (curproc s) (\<lambda>i s.
     let sz = p_sz (procs s i)
     in if addr \<ge> sz \<or> addr + 8 > sz then Ret None s
        else bnd (copyin (p_pagetable (procs s i)) addr 8 s) (\<lambda>r s.
             Ret (map_option (\<lambda>bs. get64 bs 0) r) s))"

text \<open>The string, its NUL included; the return value of the code is its length.\<close>

definition fetchstr :: "uint64 \<Rightarrow> nat \<Rightarrow> 'x proc_state_scheme \<Rightarrow> (uint8 list option, 'x proc_state_scheme) outcome" where
  "fetchstr addr mx s =
     bnd (curproc s) (\<lambda>i s. copyinstr (p_pagetable (procs s i)) addr mx s)"

definition argraw :: "nat \<Rightarrow> 'x proc_state_scheme \<Rightarrow> (uint64, 'x proc_state_scheme) outcome" where
  "argraw n s =
     bnd (curproc s) (\<lambda>i s.
     if n \<le> 5 then Ret (tf_get (p_trapframe (procs s i)) (112 + 8 * of_nat n) s) s
     else Panic ''argraw'')"

definition argint :: "nat \<Rightarrow> 'x proc_state_scheme \<Rightarrow> (uint32, 'x proc_state_scheme) outcome" where
  "argint n s = bnd (argraw n s) (\<lambda>v s. Ret (ucast v) s)"

definition argaddr :: "nat \<Rightarrow> 'x proc_state_scheme \<Rightarrow> (uint64, 'x proc_state_scheme) outcome" where
  "argaddr n s = argraw n s"

definition argstr :: "nat \<Rightarrow> nat \<Rightarrow> 'x proc_state_scheme \<Rightarrow> (uint8 list option, 'x proc_state_scheme) outcome" where
  "argstr n mx s = bnd (argaddr n s) (\<lambda>addr s. fetchstr addr mx s)"

definition ret_int :: "int \<Rightarrow> 's \<Rightarrow> (uint64, 's) outcome" where
  "ret_int r s = Ret (of_int r) s"

section \<open>Process system calls\<close>

definition sys_exit :: "'x file_state_scheme \<Rightarrow> (uint64, 'x file_state_scheme) outcome" where
  "sys_exit s = bnd (argint 0 s) (\<lambda>n s. exit n s)"

definition sys_getpid :: "'x file_state_scheme \<Rightarrow> (uint64, 'x file_state_scheme) outcome" where
  "sys_getpid s = bnd (curproc s) (\<lambda>i s. Ret (scast (p_pid (procs s i))) s)"

definition sys_fork :: "'x file_state_scheme \<Rightarrow> (uint64, 'x file_state_scheme) outcome" where
  "sys_fork s = bnd (fork s) ret_int"

definition sys_wait :: "'x file_state_scheme \<Rightarrow> (uint64, 'x file_state_scheme) outcome" where
  "sys_wait s = bnd (argaddr 0 s) (\<lambda>p s. bnd (wait p s) ret_int)"

definition sys_sbrk :: "'x file_state_scheme \<Rightarrow> (uint64, 'x file_state_scheme) outcome" where
  "sys_sbrk s =
     bnd (argint 0 s) (\<lambda>n s.
     bnd (curproc s) (\<lambda>i s.
     let addr = p_sz (procs s i)
     in bnd (growproc n s) (\<lambda>r s. if r < 0 then ret_int (- 1) s else Ret addr s)))"

definition sys_sleep :: "'x file_state_scheme \<Rightarrow> (uint64, 'x file_state_scheme) outcome" where
  "sys_sleep s =
     bnd (argint 0 s) (\<lambda>n s.
     bnd (acquire TicksLock s) (\<lambda>_ s.
     let ticks0 = ticks s
     in if ticks s - ticks0 < n then
          bnd (curproc s) (\<lambda>i s.
          bnd (killed i s) (\<lambda>k s.
          if k then bnd (release TicksLock s) (\<lambda>_ s. ret_int (- 1) s)
          else bnd (sleep ChTicks TicksLock s) (\<lambda>_ s. ret_int (- 1) s)))
        else bnd (release TicksLock s) (\<lambda>_ s. Ret 0 s)))"

text \<open>The loop of \<open>sys_pgaccess\<close>; \<open>None\<close> when it returns -1.\<close>

fun pgaccess_loop :: "nat \<Rightarrow> nat \<Rightarrow> nat \<Rightarrow> uint64 \<Rightarrow> uint64 \<Rightarrow> 'x proc_state_scheme \<Rightarrow>
    (uint64 option, 'x proc_state_scheme) outcome" where
  "pgaccess_loop p 0 i base bitmask s = Ret (Some bitmask) s"
| "pgaccess_loop p (Suc k) i base bitmask s =
     (let va = base + of_nat i * PGSIZE
      in if va \<ge> p_sz (procs s p) then Ret None s
         else
           bnd (walk (p_pagetable (procs s p)) va False s) (\<lambda>pte s.
           if pte = 0 then Ret None s
           else if load64 (mem s) pte AND PTE_A \<noteq> 0 then
             pgaccess_loop p k (Suc i) base (bitmask OR push_bit i 1)
               (s\<lparr>mem := store64 (mem s) pte (load64 (mem s) pte AND NOT PTE_A)\<rparr>)
           else pgaccess_loop p k (Suc i) base bitmask s))"

definition sys_pgaccess :: "'x file_state_scheme \<Rightarrow> (uint64, 'x file_state_scheme) outcome" where
  "sys_pgaccess s =
     bnd (curproc s) (\<lambda>p s.
     bnd (argaddr 0 s) (\<lambda>base s.
     bnd (argint 1 s) (\<lambda>len s.
     bnd (argaddr 2 s) (\<lambda>mask s.
     if sint len > 64 then ret_int (- 1) s
     else
       bnd (pgaccess_loop p (nat (sint len)) 0 base 0 s) (\<lambda>r s.
       case r of
         None \<Rightarrow> ret_int (- 1) s
       | Some bitmask \<Rightarrow>
           bnd (copyout (p_pagetable (procs s p)) mask (bytes64 bitmask) s) (\<lambda>r s.
           ret_int (if r < 0 then - 1 else 0) s))))))"

definition sys_kill :: "'x file_state_scheme \<Rightarrow> (uint64, 'x file_state_scheme) outcome" where
  "sys_kill s = bnd (argint 0 s) (\<lambda>pid s. bnd (kill pid s) ret_int)"

definition sys_uptime :: "'x file_state_scheme \<Rightarrow> (uint64, 'x file_state_scheme) outcome" where
  "sys_uptime s =
     bnd (acquire TicksLock s) (\<lambda>_ s.
     let xticks = ticks s
     in bnd (release TicksLock s) (\<lambda>_ s. Ret (ucast xticks) s))"

end
