(* ===== verification/Sysfile.thy ===== *)
theory Sysfile
  imports Sysproc
begin

text \<open>
  The file system calls: \<open>src/kernel/sysfile.c\<close>, and the dispatcher \<open>syscall\<close> of
  \<open>syscall.c\<close>. An uninitialized name buffer is modelled as zeros; no result depends on the
  bytes after its NUL.
\<close>

section \<open>Descriptors\<close>

definition argfd :: "nat \<Rightarrow> 'x file_state_scheme \<Rightarrow> ((nat \<times> nat) option, 'x file_state_scheme) outcome" where
  "argfd n s =
     bnd (argint n s) (\<lambda>fd s.
     if sint fd < 0 \<or> sint fd \<ge> int NOFILE then Ret None s
     else bnd (curproc s) (\<lambda>i s.
       Ret (map_option (\<lambda>f. (unat fd, f)) (p_ofile (procs s i) (unat fd))) s))"

fun free_fd :: "(nat \<Rightarrow> nat option) \<Rightarrow> nat \<Rightarrow> nat \<Rightarrow> nat option" where
  "free_fd ofile fd 0 = None"
| "free_fd ofile fd (Suc k) = (if ofile fd = None then Some fd else free_fd ofile (Suc fd) k)"

definition set_ofile :: "nat \<Rightarrow> nat \<Rightarrow> nat option \<Rightarrow> 'x proc_state_scheme \<Rightarrow> 'x proc_state_scheme" where
  "set_ofile i fd f s = upd_proc i (\<lambda>p. p\<lparr>p_ofile := (p_ofile p)(fd := f)\<rparr>) s"

definition fdalloc :: "nat \<Rightarrow> 'x file_state_scheme \<Rightarrow> (nat option, 'x file_state_scheme) outcome" where
  "fdalloc f s =
     bnd (curproc s) (\<lambda>i s.
     case free_fd (p_ofile (procs s i)) 0 NOFILE of
       None \<Rightarrow> Ret None s
     | Some fd \<Rightarrow> Ret (Some fd) (set_ofile i fd (Some f) s))"

definition sys_dup :: "'x file_state_scheme \<Rightarrow> (uint64, 'x file_state_scheme) outcome" where
  "sys_dup s =
     bnd (argfd 0 s) (\<lambda>r s.
     case r of
       None \<Rightarrow> ret_int (- 1) s
     | Some (_, f) \<Rightarrow>
         bnd (fdalloc f s) (\<lambda>fd s.
         case fd of
           None \<Rightarrow> ret_int (- 1) s
         | Some fd \<Rightarrow> bnd (filedup f s) (\<lambda>_ s. ret_int (int fd) s)))"

definition sys_read :: "'x file_state_scheme \<Rightarrow> (uint64, 'x file_state_scheme) outcome" where
  "sys_read s =
     bnd (argaddr 1 s) (\<lambda>p s.
     bnd (argint 2 s) (\<lambda>n s.
     bnd (argfd 0 s) (\<lambda>r s.
     case r of None \<Rightarrow> ret_int (- 1) s | Some (_, f) \<Rightarrow> bnd (fileread f p n s) ret_int)))"

definition sys_write :: "'x file_state_scheme \<Rightarrow> (uint64, 'x file_state_scheme) outcome" where
  "sys_write s =
     bnd (argaddr 1 s) (\<lambda>p s.
     bnd (argint 2 s) (\<lambda>n s.
     bnd (argfd 0 s) (\<lambda>r s.
     case r of None \<Rightarrow> ret_int (- 1) s | Some (_, f) \<Rightarrow> bnd (filewrite f p n s) ret_int)))"

definition sys_close :: "'x file_state_scheme \<Rightarrow> (uint64, 'x file_state_scheme) outcome" where
  "sys_close s =
     bnd (argfd 0 s) (\<lambda>r s.
     case r of
       None \<Rightarrow> ret_int (- 1) s
     | Some (fd, f) \<Rightarrow>
         bnd (curproc s) (\<lambda>i s.
         bnd (fileclose f (set_ofile i fd None s)) (\<lambda>_ s. Ret 0 s)))"

definition sys_fstat :: "uint8 list \<Rightarrow> 'x file_state_scheme \<Rightarrow> (uint64, 'x file_state_scheme) outcome" where
  "sys_fstat pad s =
     bnd (argaddr 1 s) (\<lambda>st s.
     bnd (argfd 0 s) (\<lambda>r s.
     case r of None \<Rightarrow> ret_int (- 1) s | Some (_, f) \<Rightarrow> bnd (filestat pad f st s) ret_int))"

section \<open>Links and directories\<close>

definition no_name :: "uint8 list" where
  "no_name = replicate DIRSIZ 0"

text \<open>\<open>end_op\<close> and return -1.\<close>

definition op_fail :: "'x file_state_scheme \<Rightarrow> (uint64, 'x file_state_scheme) outcome" where
  "op_fail s = bnd (end_op s) (\<lambda>_ s. ret_int (- 1) s)"

text \<open>The label \<open>bad\<close> of \<open>sys_link\<close>.\<close>

definition link_bad :: "nat \<Rightarrow> 'x file_state_scheme \<Rightarrow> (uint64, 'x file_state_scheme) outcome" where
  "link_bad ip s =
     bnd (ilock (Some ip) s) (\<lambda>_ s.
     bnd (iupdate ip (upd_inode ip (\<lambda>x. x\<lparr>i_nlink := i_nlink x - 1\<rparr>) s)) (\<lambda>_ s.
     bnd (iunlockput ip s) (\<lambda>_ s. op_fail s)))"

definition sys_link :: "'x file_state_scheme \<Rightarrow> (uint64, 'x file_state_scheme) outcome" where
  "sys_link s =
     bnd (argstr 0 MAXPATH s) (\<lambda>old s.
     case old of
       None \<Rightarrow> ret_int (- 1) s
     | Some old \<Rightarrow>
     bnd (argstr 1 MAXPATH s) (\<lambda>new s.
     case new of
       None \<Rightarrow> ret_int (- 1) s
     | Some new \<Rightarrow>
     bnd (begin_op s) (\<lambda>_ s.
     bnd (namei old s) (\<lambda>r s.
     case r of
       None \<Rightarrow> op_fail s
     | Some ip \<Rightarrow>
     bnd (ilock (Some ip) s) (\<lambda>_ s.
     if i_type (inodes s ip) = T_DIR then bnd (iunlockput ip s) (\<lambda>_ s. op_fail s)
     else
     bnd (iupdate ip (upd_inode ip (\<lambda>x. x\<lparr>i_nlink := i_nlink x + 1\<rparr>) s)) (\<lambda>_ s.
     bnd (iunlock (Some ip) s) (\<lambda>_ s.
     bnd (nameiparent new no_name s) (\<lambda>r s.
     case fst r of
       None \<Rightarrow> link_bad ip s
     | Some dp \<Rightarrow>
     bnd (ilock (Some dp) s) (\<lambda>_ s.
     bnd (if i_dev (inodes s dp) \<noteq> i_dev (inodes s ip) then Ret (- 1) s
          else dirlink dp (snd r) (i_inum (inodes s ip)) s) (\<lambda>d s.
     bnd (iunlockput dp s) (\<lambda>_ s.
     if d < 0 then link_bad ip s
     else bnd (iput ip s) (\<lambda>_ s. bnd (end_op s) (\<lambda>_ s. Ret 0 s)))))))))))))"

function isdirempty_loop :: "nat \<Rightarrow> nat \<Rightarrow> nat \<Rightarrow> 'x fs_state_scheme \<Rightarrow> (bool, 'x fs_state_scheme) outcome" where
  "isdirempty_loop dp sz off s =
     (if off \<ge> sz then Ret True s
      else
        bnd (readi dp DObj (of_nat off) 16 s) (\<lambda>r s.
        if fst r \<noteq> 16 then Panic ''isdirempty: readi''
        else if get16 (snd r) 0 \<noteq> 0 then Ret False s
        else isdirempty_loop dp sz (off + 16) s))"
  by pat_completeness auto
termination by (relation "measure (\<lambda>(dp, sz, off, s). sz - off)") auto

definition isdirempty :: "nat \<Rightarrow> 'x fs_state_scheme \<Rightarrow> (bool, 'x fs_state_scheme) outcome" where
  "isdirempty dp s = isdirempty_loop dp (unat (i_size (inodes s dp))) 32 s"

text \<open>The label \<open>bad\<close> of \<open>sys_unlink\<close>.\<close>

definition unlink_bad :: "nat \<Rightarrow> 'x file_state_scheme \<Rightarrow> (uint64, 'x file_state_scheme) outcome" where
  "unlink_bad dp s = bnd (iunlockput dp s) (\<lambda>_ s. op_fail s)"

definition sys_unlink :: "'x file_state_scheme \<Rightarrow> (uint64, 'x file_state_scheme) outcome" where
  "sys_unlink s =
     bnd (argstr 0 MAXPATH s) (\<lambda>path s.
     case path of
       None \<Rightarrow> ret_int (- 1) s
     | Some path \<Rightarrow>
     bnd (begin_op s) (\<lambda>_ s.
     bnd (nameiparent path no_name s) (\<lambda>r s.
     case fst r of
       None \<Rightarrow> op_fail s
     | Some dp \<Rightarrow>
     bnd (ilock (Some dp) s) (\<lambda>_ s.
     if namecmp (snd r) (str ''.'') = 0 \<or> namecmp (snd r) (str ''..'') = 0 then unlink_bad dp s
     else
     bnd (dirlookup dp (snd r) s) (\<lambda>e s.
     case e of
       None \<Rightarrow> unlink_bad dp s
     | Some (ip, off) \<Rightarrow>
     bnd (ilock (Some ip) s) (\<lambda>_ s.
     if sint (i_nlink (inodes s ip)) < 1 then Panic ''unlink: nlink < 1''
     else
     bnd (if i_type (inodes s ip) = T_DIR then isdirempty ip s else Ret True s) (\<lambda>emp s.
     if \<not> emp then bnd (iunlockput ip s) (\<lambda>_ s. unlink_bad dp s)
     else
     bnd (writei dp (SObj (replicate 16 0)) (of_nat off) 16 s) (\<lambda>w s.
     if w \<noteq> 16 then Panic ''unlink: writei''
     else
     bnd (if i_type (inodes s ip) = T_DIR
          then iupdate dp (upd_inode dp (\<lambda>x. x\<lparr>i_nlink := i_nlink x - 1\<rparr>) s) else Ret () s) (\<lambda>_ s.
     bnd (iunlockput dp s) (\<lambda>_ s.
     bnd (iupdate ip (upd_inode ip (\<lambda>x. x\<lparr>i_nlink := i_nlink x - 1\<rparr>) s)) (\<lambda>_ s.
     bnd (iunlockput ip s) (\<lambda>_ s.
     bnd (end_op s) (\<lambda>_ s. Ret 0 s)))))))))))))"

text \<open>The label \<open>fail\<close> of \<open>create\<close>.\<close>

definition create_fail :: "nat \<Rightarrow> nat \<Rightarrow> 'x file_state_scheme \<Rightarrow> (nat option, 'x file_state_scheme) outcome" where
  "create_fail ip dp s =
     bnd (iupdate ip (upd_inode ip (i_nlink_update (\<lambda>_. 0)) s)) (\<lambda>_ s.
     bnd (iunlockput ip s) (\<lambda>_ s.
     bnd (iunlockput dp s) (\<lambda>_ s. Ret None s)))"

definition create :: "uint8 list \<Rightarrow> uint16 \<Rightarrow> uint16 \<Rightarrow> uint16 \<Rightarrow> 'x file_state_scheme \<Rightarrow>
    (nat option, 'x file_state_scheme) outcome" where
  "create path ty maj mnr s =
     bnd (nameiparent path no_name s) (\<lambda>r s.
     case fst r of
       None \<Rightarrow> Ret None s
     | Some dp \<Rightarrow>
     bnd (ilock (Some dp) s) (\<lambda>_ s.
     bnd (dirlookup dp (snd r) s) (\<lambda>e s.
     case e of
       Some (ip, _) \<Rightarrow>
         bnd (iunlockput dp s) (\<lambda>_ s.
         bnd (ilock (Some ip) s) (\<lambda>_ s.
         if ty = T_FILE \<and> (i_type (inodes s ip) = T_FILE \<or> i_type (inodes s ip) = T_DEVICE) then Ret (Some ip) s
         else bnd (iunlockput ip s) (\<lambda>_ s. Ret None s)))
     | None \<Rightarrow>
     bnd (ialloc (i_dev (inodes s dp)) ty s) (\<lambda>a s.
     case a of
       None \<Rightarrow> bnd (iunlockput dp s) (\<lambda>_ s. Ret None s)
     | Some ip \<Rightarrow>
     bnd (ilock (Some ip) s) (\<lambda>_ s.
     bnd (iupdate ip (upd_inode ip (\<lambda>x. x\<lparr>i_major := maj, i_minor := mnr, i_nlink := 1\<rparr>) s)) (\<lambda>_ s.
     bnd (if ty = T_DIR then
            bnd (dirlink ip (str ''.'') (i_inum (inodes s ip)) s) (\<lambda>d s.
            if d < 0 then Ret d s else dirlink ip (str ''..'') (i_inum (inodes s dp)) s)
          else Ret 0 s) (\<lambda>d s.
     if d < 0 then create_fail ip dp s
     else
     bnd (dirlink dp (snd r) (i_inum (inodes s ip)) s) (\<lambda>d s.
     if d < 0 then create_fail ip dp s
     else
     bnd (if ty = T_DIR then iupdate dp (upd_inode dp (\<lambda>x. x\<lparr>i_nlink := i_nlink x + 1\<rparr>) s) else Ret () s) (\<lambda>_ s.
     bnd (iunlockput dp s) (\<lambda>_ s. Ret (Some ip) s))))))))))"

text \<open>\<open>sys_open\<close> once the inode is locked.\<close>

definition open_inode :: "nat \<Rightarrow> uint32 \<Rightarrow> 'x file_state_scheme \<Rightarrow> (uint64, 'x file_state_scheme) outcome" where
  "open_inode ip omode s =
     (if i_type (inodes s ip) = T_DEVICE \<and> (sint (i_major (inodes s ip)) < 0 \<or> sint (i_major (inodes s ip)) \<ge> NDEV)
      then bnd (iunlockput ip s) (\<lambda>_ s. op_fail s)
      else
        bnd (filealloc s) (\<lambda>f s.
        case f of
          None \<Rightarrow> bnd (iunlockput ip s) (\<lambda>_ s. op_fail s)
        | Some f \<Rightarrow>
            bnd (fdalloc f s) (\<lambda>fd s.
            case fd of
              None \<Rightarrow> bnd (fileclose f s) (\<lambda>_ s. bnd (iunlockput ip s) (\<lambda>_ s. op_fail s))
            | Some fd \<Rightarrow>
                let s = upd_file f (\<lambda>x.
                      if i_type (inodes s ip) = T_DEVICE then x\<lparr>f_type := FD_DEVICE, f_major := i_major (inodes s ip)\<rparr>
                      else x\<lparr>f_type := FD_INODE, f_off := 0\<rparr>) s;
                    s = upd_file f (\<lambda>x. x\<lparr>f_ip := Some ip, f_readable := (omode AND 1 = 0),
                      f_writable := (omode AND 1 \<noteq> 0 \<or> omode AND 2 \<noteq> 0)\<rparr>) s
                in bnd (if omode AND 0x400 \<noteq> 0 \<and> i_type (inodes s ip) = T_FILE then itrunc ip s else Ret () s) (\<lambda>_ s.
                   bnd (iunlock (Some ip) s) (\<lambda>_ s.
                   bnd (end_op s) (\<lambda>_ s. ret_int (int fd) s))))))"

definition sys_open :: "'x file_state_scheme \<Rightarrow> (uint64, 'x file_state_scheme) outcome" where
  "sys_open s =
     bnd (argint 1 s) (\<lambda>omode s.
     bnd (argstr 0 MAXPATH s) (\<lambda>path s.
     case path of
       None \<Rightarrow> ret_int (- 1) s
     | Some path \<Rightarrow>
     bnd (begin_op s) (\<lambda>_ s.
     if omode AND 0x200 \<noteq> 0 then
       bnd (create path T_FILE 0 0 s) (\<lambda>ip s.
       case ip of None \<Rightarrow> op_fail s | Some ip \<Rightarrow> open_inode ip omode s)
     else
       bnd (namei path s) (\<lambda>ip s.
       case ip of
         None \<Rightarrow> op_fail s
       | Some ip \<Rightarrow>
           bnd (ilock (Some ip) s) (\<lambda>_ s.
           if i_type (inodes s ip) = T_DIR \<and> omode \<noteq> 0 then bnd (iunlockput ip s) (\<lambda>_ s. op_fail s)
           else open_inode ip omode s)))))"

definition sys_mkdir :: "'x file_state_scheme \<Rightarrow> (uint64, 'x file_state_scheme) outcome" where
  "sys_mkdir s =
     bnd (begin_op s) (\<lambda>_ s.
     bnd (argstr 0 MAXPATH s) (\<lambda>path s.
     case path of
       None \<Rightarrow> op_fail s
     | Some path \<Rightarrow>
         bnd (create path T_DIR 0 0 s) (\<lambda>ip s.
         case ip of
           None \<Rightarrow> op_fail s
         | Some ip \<Rightarrow> bnd (iunlockput ip s) (\<lambda>_ s. bnd (end_op s) (\<lambda>_ s. Ret 0 s)))))"

definition sys_mknod :: "'x file_state_scheme \<Rightarrow> (uint64, 'x file_state_scheme) outcome" where
  "sys_mknod s =
     bnd (begin_op s) (\<lambda>_ s.
     bnd (argint 1 s) (\<lambda>maj s.
     bnd (argint 2 s) (\<lambda>mnr s.
     bnd (argstr 0 MAXPATH s) (\<lambda>path s.
     case path of
       None \<Rightarrow> op_fail s
     | Some path \<Rightarrow>
         bnd (create path T_DEVICE (ucast maj) (ucast mnr) s) (\<lambda>ip s.
         case ip of
           None \<Rightarrow> op_fail s
         | Some ip \<Rightarrow> bnd (iunlockput ip s) (\<lambda>_ s. bnd (end_op s) (\<lambda>_ s. Ret 0 s)))))))"

definition sys_chdir :: "'x file_state_scheme \<Rightarrow> (uint64, 'x file_state_scheme) outcome" where
  "sys_chdir s =
     bnd (curproc s) (\<lambda>p s.
     bnd (begin_op s) (\<lambda>_ s.
     bnd (argstr 0 MAXPATH s) (\<lambda>path s.
     case path of
       None \<Rightarrow> op_fail s
     | Some path \<Rightarrow>
     bnd (namei path s) (\<lambda>ip s.
     case ip of
       None \<Rightarrow> op_fail s
     | Some ip \<Rightarrow>
     bnd (ilock (Some ip) s) (\<lambda>_ s.
     if i_type (inodes s ip) \<noteq> T_DIR then bnd (iunlockput ip s) (\<lambda>_ s. op_fail s)
     else
     bnd (iunlock (Some ip) s) (\<lambda>_ s.
     bnd (bnd (deref (p_cwd (procs s p)) s) (\<lambda>c s. iput c s)) (\<lambda>_ s.
     bnd (end_op s) (\<lambda>_ s.
     Ret 0 (upd_proc p (p_cwd_update (\<lambda>_. Some ip)) s)))))))))"

section \<open>exec and pipe\<close>

text \<open>The argument loop of \<open>sys_exec\<close>, \<open>k\<close> entries of \<open>argv\<close> left: whether it succeeded, the
  pages allocated, and the strings.\<close>

fun exec_args :: "nat \<Rightarrow> uint64 \<Rightarrow> nat \<Rightarrow> uint64 list \<Rightarrow> uint8 list list \<Rightarrow> 'x file_state_scheme \<Rightarrow>
    (bool \<times> uint64 list \<times> uint8 list list, 'x file_state_scheme) outcome" where
  "exec_args 0 uargv i pgl strs s = Ret (False, pgl, strs) s"
| "exec_args (Suc k) uargv i pgl strs s =
     bnd (fetchaddr (uargv + 8 * of_nat i) s) (\<lambda>uarg s.
     case uarg of
       None \<Rightarrow> Ret (False, pgl, strs) s
     | Some uarg \<Rightarrow>
         if uarg = 0 then Ret (True, pgl, strs) s
         else
           bnd (kalloc s) (\<lambda>pg s.
           if pg = 0 then Ret (False, pgl, strs) s
           else
             bnd (fetchstr uarg 4096 s) (\<lambda>bs s.
             case bs of
               None \<Rightarrow> Ret (False, pgl @ [pg], strs) s
             | Some bs \<Rightarrow> exec_args k uargv (Suc i) (pgl @ [pg]) (strs @ [bs])
                 (s\<lparr>mem := put_bytes (mem s) pg bs\<rparr>))))"

fun kfree_all :: "uint64 list \<Rightarrow> 'x kmem_state_scheme \<Rightarrow> (unit, 'x kmem_state_scheme) outcome" where
  "kfree_all [] s = Ret () s"
| "kfree_all (pg # pgs) s = bnd (kfree pg s) (\<lambda>_ s. kfree_all pgs s)"

definition sys_exec :: "'x file_state_scheme \<Rightarrow> (uint64, 'x file_state_scheme) outcome" where
  "sys_exec s =
     bnd (argaddr 1 s) (\<lambda>uargv s.
     bnd (argstr 0 MAXPATH s) (\<lambda>path s.
     case path of
       None \<Rightarrow> ret_int (- 1) s
     | Some path \<Rightarrow>
         bnd (exec_args MAXARG uargv 0 [] [] s) (\<lambda>r s.
         case r of
           (ok, pgl, strs) \<Rightarrow>
             bnd (if ok then exec path strs s else Ret (- 1) s) (\<lambda>ret s.
             bnd (kfree_all pgl s) (\<lambda>_ s. ret_int ret s)))))"

definition sys_pipe :: "'x file_state_scheme \<Rightarrow> (uint64, 'x file_state_scheme) outcome" where
  "sys_pipe s =
     bnd (curproc s) (\<lambda>p s.
     bnd (argaddr 0 s) (\<lambda>fdarray s.
     bnd (pipealloc s) (\<lambda>r s.
     case r of
       None \<Rightarrow> ret_int (- 1) s
     | Some (rfl, wfl) \<Rightarrow>
         let bad = (\<lambda>s. bnd (fileclose rfl s) (\<lambda>_ s. bnd (fileclose wfl s) (\<lambda>_ s. ret_int (- 1) s)))
         in bnd (fdalloc rfl s) (\<lambda>fd0 s.
            case fd0 of
              None \<Rightarrow> bad s
            | Some fd0 \<Rightarrow>
                bnd (fdalloc wfl s) (\<lambda>fd1 s.
                case fd1 of
                  None \<Rightarrow> bad (set_ofile p fd0 None s)
                | Some fd1 \<Rightarrow>
                    bnd (copyout (p_pagetable (procs s p)) fdarray (bytes32 (of_nat fd0)) s) (\<lambda>r s.
                    bnd (if r < 0 then Ret r s
                         else copyout (p_pagetable (procs s p)) (fdarray + 4) (bytes32 (of_nat fd1)) s) (\<lambda>r s.
                    if r < 0 then bad (set_ofile p fd1 None (set_ofile p fd0 None s))
                    else Ret 0 s)))))))"

section \<open>Dispatch\<close>

text \<open>The table \<open>syscalls\<close>; \<open>pad\<close> is the padding \<open>sys_fstat\<close> copies out.\<close>

definition syscalls :: "uint8 list \<Rightarrow> int \<Rightarrow> ('x file_state_scheme \<Rightarrow> (uint64, 'x file_state_scheme) outcome) option" where
  "syscalls pad num =
     (if num = 1 then Some sys_fork else if num = 2 then Some sys_exit else if num = 3 then Some sys_wait
      else if num = 4 then Some sys_pipe else if num = 5 then Some sys_read else if num = 6 then Some sys_kill
      else if num = 7 then Some sys_exec else if num = 8 then Some (sys_fstat pad)
      else if num = 9 then Some sys_chdir else if num = 10 then Some sys_dup
      else if num = 11 then Some sys_getpid else if num = 12 then Some sys_sbrk
      else if num = 13 then Some sys_sleep else if num = 14 then Some sys_uptime
      else if num = 15 then Some sys_open else if num = 16 then Some sys_write
      else if num = 17 then Some sys_mknod else if num = 18 then Some sys_unlink
      else if num = 19 then Some sys_link else if num = 20 then Some sys_mkdir
      else if num = 21 then Some sys_close else if num = 30 then Some sys_pgaccess else None)"

definition syscall :: "uint8 list \<Rightarrow> 'x file_state_scheme \<Rightarrow> (unit, 'x file_state_scheme) outcome" where
  "syscall pad s =
     bnd (curproc s) (\<lambda>i s.
     let tf = p_trapframe (procs s i);
         num = ucast (tf_get tf 168 s) :: uint32
     in case syscalls pad (sint num) of
          Some f \<Rightarrow> bnd (f s) (\<lambda>r s. Ret () (tf_set (p_trapframe (procs s i)) 112 r s))
        | None \<Rightarrow>
            bnd (printf (''%d %s: unknown sys call %d'' @ [CHR 10])
              [AInt (p_pid (procs s i)), AStr (Some (p_name (procs s i))), AInt num] s) (\<lambda>_ s.
            Ret () (tf_set (p_trapframe (procs s i)) 112 (- 1) s)))"

end
