(* ===== verification/Trap.thy ===== *)
theory Trap
  imports Sysfile
begin

text \<open>
  Traps and interrupts: \<open>src/kernel/trap.c\<close>, \<open>plic.c\<close>, and \<open>forkret\<close> of \<open>proc.c\<close>.
  Control and status registers are kept per hart. \<open>plic_pending\<close> is the value the claim
  register of a hart reads next. \<open>usertrapret\<close> ends in the jump to the trampoline, whose
  argument is its result.
\<close>

section \<open>Registers and the interrupt controller\<close>

record trap_state = file_state +
  stvec :: "nat \<Rightarrow> uint64"
  sepc :: "nat \<Rightarrow> uint64"
  scause :: "nat \<Rightarrow> uint64"
  stval :: "nat \<Rightarrow> uint64"
  sip :: "nat \<Rightarrow> uint64"
  plic_regs :: "(uint64 \<times> uint32) list"
  plic_pending :: "nat \<Rightarrow> uint32"
  first_fork :: bool

definition w_stvec :: "uint64 \<Rightarrow> 'x trap_state_scheme \<Rightarrow> 'x trap_state_scheme" where
  "w_stvec v s = s\<lparr>stvec := (stvec s)(tp s := v)\<rparr>"

definition w_sepc :: "uint64 \<Rightarrow> 'x trap_state_scheme \<Rightarrow> 'x trap_state_scheme" where
  "w_sepc v s = s\<lparr>sepc := (sepc s)(tp s := v)\<rparr>"

definition w_sstatus :: "uint64 \<Rightarrow> 'x machine_scheme \<Rightarrow> 'x machine_scheme" where
  "w_sstatus v s = s\<lparr>sstatus := (sstatus s)(tp s := v)\<rparr>"

definition w_sip :: "uint64 \<Rightarrow> 'x trap_state_scheme \<Rightarrow> 'x trap_state_scheme" where
  "w_sip v s = s\<lparr>sip := (sip s)(tp s := v)\<rparr>"

definition plic_write :: "uint64 \<Rightarrow> uint32 \<Rightarrow> 'x trap_state_scheme \<Rightarrow> 'x trap_state_scheme" where
  "plic_write a v s = s\<lparr>plic_regs := plic_regs s @ [(a, v)]\<rparr>"

definition PLIC_SENABLE :: "nat \<Rightarrow> uint64" where
  "PLIC_SENABLE hart = PLIC + 0x2080 + of_nat hart * 0x100"

definition PLIC_SPRIORITY :: "nat \<Rightarrow> uint64" where
  "PLIC_SPRIORITY hart = PLIC + 0x201000 + of_nat hart * 0x2000"

definition PLIC_SCLAIM :: "nat \<Rightarrow> uint64" where
  "PLIC_SCLAIM hart = PLIC + 0x201004 + of_nat hart * 0x2000"

definition plicinit :: "'x trap_state_scheme \<Rightarrow> 'x trap_state_scheme" where
  "plicinit s = plic_write (PLIC + 1 * 4) 1 (plic_write (PLIC + 10 * 4) 1 s)"

definition plicinithart :: "'x trap_state_scheme \<Rightarrow> 'x trap_state_scheme" where
  "plicinithart s =
     (let hart = cpuid s;
          s = plic_write (PLIC_SENABLE hart) (push_bit 10 1 OR push_bit 1 1) s
      in plic_write (PLIC_SPRIORITY hart) 0 s)"

definition plic_claim :: "'x trap_state_scheme \<Rightarrow> uint32 \<times> 'x trap_state_scheme" where
  "plic_claim s = (plic_pending s (cpuid s), s\<lparr>plic_pending := (plic_pending s)(cpuid s := 0)\<rparr>)"

definition plic_complete :: "uint32 \<Rightarrow> 'x trap_state_scheme \<Rightarrow> 'x trap_state_scheme" where
  "plic_complete irq s = plic_write (PLIC_SCLAIM (cpuid s)) irq s"

section \<open>trap.c\<close>

definition trapinit :: "'x trap_state_scheme \<Rightarrow> 'x trap_state_scheme" where
  "trapinit s = initlock TicksLock ''time'' s"

definition trapinithart :: "'x trap_state_scheme \<Rightarrow> 'x trap_state_scheme" where
  "trapinithart s = w_stvec (sym_kernelvec (syms s)) s"

definition clockintr :: "'x proc_state_scheme \<Rightarrow> (unit, 'x proc_state_scheme) outcome" where
  "clockintr s =
     bnd (acquire TicksLock s) (\<lambda>_ s.
     bnd (wakeup ChTicks (s\<lparr>ticks := ticks s + 1\<rparr>)) (\<lambda>_ s.
     release TicksLock s))"

definition devintr :: "'x trap_state_scheme \<Rightarrow> (nat, 'x trap_state_scheme) outcome" where
  "devintr s =
     (let sc = scause s (tp s)
      in if sc AND 0x8000000000000000 \<noteq> 0 \<and> sc AND 0xff = 9 then
           let (irq, s) = plic_claim s
           in bnd (if irq = 10 then uartintr s
                   else if irq = 1 then virtio_disk_intr s
                   else if irq \<noteq> 0 then printf (''unexpected interrupt irq=%d'' @ [CHR 10]) [AInt irq] s
                   else Ret () s) (\<lambda>_ s.
              Ret 1 (if irq \<noteq> 0 then plic_complete irq s else s))
         else if sc = 0x8000000000000001 then
           bnd (if cpuid s = 0 then clockintr s else Ret () s) (\<lambda>_ s.
           Ret 2 (w_sip (sip s (tp s) AND NOT 2) s))
         else Ret 0 s)"

definition usertrapret :: "'x trap_state_scheme \<Rightarrow> (uint64 \<times> uint64, 'x trap_state_scheme) outcome" where
  "usertrapret s =
     bnd (curproc s) (\<lambda>i s.
     let s = intr_off s;
         s = w_stvec (TRAMPOLINE + (sym_uservec (syms s) - sym_trampoline (syms s))) s;
         tf = p_trapframe (procs s i);
         s = tf_set tf 0 (satp s (tp s)) s;
         s = tf_set tf 8 (p_kstack (procs s i) + PGSIZE) s;
         s = tf_set tf 16 (sym_usertrap (syms s)) s;
         s = tf_set tf 32 (of_nat (tp s)) s;
         x = (sstatus s (tp s) AND NOT SSTATUS_SPP) OR SSTATUS_SPIE;
         s = w_sstatus x s;
         s = w_sepc (tf_get tf 24 s) s
     in Ret (TRAMPOLINE + (sym_userret (syms s) - sym_trampoline (syms s)),
             MAKE_SATP (p_pagetable (procs s i))) s)"

text \<open>\<open>usertrap\<close> up to the last check of \<open>killed\<close>; the result is \<open>which_dev\<close>.\<close>

definition usertrap_handle :: "uint8 list \<Rightarrow> nat \<Rightarrow> 'x trap_state_scheme \<Rightarrow> (nat, 'x trap_state_scheme) outcome" where
  "usertrap_handle pad i s =
     (let tf = p_trapframe (procs s i)
      in if scause s (tp s) = 8 then
           bnd (killed i s) (\<lambda>k s.
           bnd (if k then exit (- 1) s else Ret () s) (\<lambda>_ s.
           let s = tf_set tf 24 (tf_get tf 24 s + 4) s
           in bnd (syscall pad (intr_on s)) (\<lambda>_ s. Ret 0 s)))
         else
           bnd (devintr s) (\<lambda>d s.
           if d \<noteq> 0 then Ret d s
           else
             bnd (printf (''usertrap(): unexpected scause %p pid=%d'' @ [CHR 10])
               [APtr (scause s (tp s)), AInt (p_pid (procs s i))] s) (\<lambda>_ s.
             bnd (printf (''            sepc=%p stval=%p'' @ [CHR 10])
               [APtr (sepc s (tp s)), APtr (stval s (tp s))] s) (\<lambda>_ s.
             bnd (setkilled i s) (\<lambda>_ s. Ret 0 s)))))"

definition usertrap :: "uint8 list \<Rightarrow> 'x trap_state_scheme \<Rightarrow> (uint64 \<times> uint64, 'x trap_state_scheme) outcome" where
  "usertrap pad s =
     (if sstatus s (tp s) AND SSTATUS_SPP \<noteq> 0 then Panic ''usertrap: not from user mode''
      else
        bnd (curproc (w_stvec (sym_kernelvec (syms s)) s)) (\<lambda>i s.
        let s = tf_set (p_trapframe (procs s i)) 24 (sepc s (tp s)) s
        in bnd (usertrap_handle pad i s) (\<lambda>which_dev s.
           bnd (killed i s) (\<lambda>k s.
           bnd (if k then exit (- 1) s else Ret () s) (\<lambda>_ s.
           bnd (if which_dev = 2 then yield s else Ret () s) (\<lambda>_ s.
           usertrapret s))))))"

definition kerneltrap :: "'x trap_state_scheme \<Rightarrow> (unit, 'x trap_state_scheme) outcome" where
  "kerneltrap s =
     (let epc = sepc s (tp s);
          ss = sstatus s (tp s);
          sc = scause s (tp s)
      in if ss AND SSTATUS_SPP = 0 then Panic ''kerneltrap: not from supervisor mode''
         else if intr_get s then Panic ''kerneltrap: interrupts enabled''
         else
           bnd (devintr s) (\<lambda>which_dev s.
           if which_dev = 0 then
             bnd (printf (''scause %p'' @ [CHR 10]) [APtr sc] s) (\<lambda>_ s.
             bnd (printf (''sepc=%p stval=%p'' @ [CHR 10]) [APtr (sepc s (tp s)), APtr (stval s (tp s))] s) (\<lambda>_ s.
             Panic ''kerneltrap''))
           else
             bnd (if which_dev = 2 then
                    bnd (myproc s) (\<lambda>p s.
                    case p of
                      None \<Rightarrow> Ret () s
                    | Some _ \<Rightarrow>
                        bnd (curproc s) (\<lambda>i s.
                        if p_state (procs s i) = RUNNING then yield s else Ret () s))
                  else Ret () s) (\<lambda>_ s.
             Ret () (w_sstatus ss (w_sepc epc s)))))"

section \<open>forkret\<close>

definition forkret :: "'x trap_state_scheme \<Rightarrow> (uint64 \<times> uint64, 'x trap_state_scheme) outcome" where
  "forkret s =
     bnd (curproc s) (\<lambda>i s.
     bnd (release (ProcLock i) s) (\<lambda>_ s.
     bnd (if first_fork s then bnd (fsinit ROOTDEV s) (\<lambda>_ s. Ret () (s\<lparr>first_fork := False\<rparr>)) else Ret () s) (\<lambda>_ s.
     usertrapret s)))"

end
