(* ===== verification/Boot.thy ===== *)
theory Boot
  imports Trap
begin

text \<open>
  Start of the machine: \<open>src/kernel/start.c\<close> and \<open>main.c\<close>. \<open>boot_main\<close> is \<open>main\<close> up to
  the call of \<open>scheduler\<close>; the last step of \<open>start\<close>, the instruction \<open>mret\<close>, continues at
  \<open>mepc\<close> in the mode \<open>mstatus\<close> gives.
\<close>

section \<open>start.c\<close>

record mmode =
  m_hartid :: nat
  m_mstatus :: uint64
  m_mepc :: uint64
  m_satp :: uint64
  m_medeleg :: uint64
  m_mideleg :: uint64
  m_sie :: uint64
  m_pmpaddr0 :: uint64
  m_pmpcfg0 :: uint64
  m_mscratch :: uint64
  m_mtvec :: uint64
  m_mie :: uint64
  m_tp :: uint64
  m_mtime :: uint64
  m_mtimecmp :: "nat \<Rightarrow> uint64"
  m_scratch :: "nat \<Rightarrow> nat \<Rightarrow> uint64"

definition CLINT_MTIMECMP :: "nat \<Rightarrow> uint64" where
  "CLINT_MTIMECMP hartid = CLINT + 0x4000 + 8 * of_nat hartid"

text \<open>\<open>scr\<close> is the address of \<open>timer_scratch\<close>, \<open>vec\<close> that of \<open>timervec\<close>.\<close>

definition timerinit :: "uint64 \<Rightarrow> uint64 \<Rightarrow> mmode \<Rightarrow> mmode" where
  "timerinit scr vec m =
     (let id = m_hartid m;
          interval = 1000000;
          m = m\<lparr>m_mtimecmp := (m_mtimecmp m)(id := m_mtime m + interval)\<rparr>;
          m = m\<lparr>m_scratch := (m_scratch m)(id := (m_scratch m id)(3 := CLINT_MTIMECMP id, 4 := interval))\<rparr>;
          m = m\<lparr>m_mscratch := scr + 40 * of_nat id\<rparr>;
          m = m\<lparr>m_mtvec := vec\<rparr>;
          m = m\<lparr>m_mstatus := m_mstatus m OR push_bit 3 1\<rparr>
      in m\<lparr>m_mie := m_mie m OR push_bit 7 1\<rparr>)"

definition start :: "uint64 \<Rightarrow> uint64 \<Rightarrow> uint64 \<Rightarrow> mmode \<Rightarrow> mmode" where
  "start main_addr scr vec m =
     (let x = (m_mstatus m AND NOT (push_bit 11 3)) OR push_bit 11 1;
          m = m\<lparr>m_mstatus := x, m_mepc := main_addr, m_satp := 0, m_medeleg := 0xffff, m_mideleg := 0xffff\<rparr>;
          m = m\<lparr>m_sie := m_sie m OR push_bit 9 1 OR push_bit 5 1 OR push_bit 1 1\<rparr>;
          m = m\<lparr>m_pmpaddr0 := 0x3fffffffffffff, m_pmpcfg0 := 0xf\<rparr>;
          m = timerinit scr vec m
      in m\<lparr>m_tp := of_nat (m_hartid m)\<rparr>)"

section \<open>main.c\<close>

record boot_state = trap_state +
  started :: bool

definition boot_main :: "'x boot_state_scheme \<Rightarrow> (unit, 'x boot_state_scheme) outcome" where
  "boot_main s =
     (if cpuid s = 0 then
        let s = printfinit (consoleinit s)
        in bnd (printf [CHR 10] [] s) (\<lambda>_ s.
           bnd (printf (''xv6 kernel is booting'' @ [CHR 10]) [] s) (\<lambda>_ s.
           bnd (printf [CHR 10] [] s) (\<lambda>_ s.
           bnd (kinit s) (\<lambda>_ s.
           bnd (kvminit s) (\<lambda>_ s.
           bnd (procinit (kvminithart s)) (\<lambda>_ s.
           let s = trapinithart (trapinit s);
               s = plicinithart (plicinit s)
           in bnd (binit s) (\<lambda>_ s.
              bnd (iinit s) (\<lambda>_ s.
              bnd (virtio_disk_init (fileinit s)) (\<lambda>_ s.
              bnd (userinit s) (\<lambda>_ s.
              Ret () (s\<lparr>started := True\<rparr>)))))))))))
      else if \<not> started s then Wait s
      else
        bnd (printf (''hart %d starting'' @ [CHR 10]) [AInt (of_nat (cpuid s))] s) (\<lambda>_ s.
        Ret () (plicinithart (trapinithart (kvminithart s)))))"

end
