(* ===== verification/Ulib.thy ===== *)
theory Ulib
  imports Printf
begin

text \<open>
  The user library: \<open>src/user/ulib.c\<close> and \<open>src/user/printf.c\<close>, and the system call
  interface that user programs see. A user program is followed along one process. The
  effect of each system call on the world is an argument of the programs, the record
  \<open>sys\<close>; \<open>fork\<close> returns in one of the two processes. C strings are byte lists; their end,
  or a NUL before it, terminates them.
\<close>

section \<open>System calls\<close>

record fstat_info =
  ust_type :: uint16
  ust_ino :: uint32
  ust_size :: uint64

text \<open>\<open>s_read\<close> returns \<open>None\<close> for -1 and the bytes read otherwise; \<open>s_exec\<close> whether the program
  was replaced; \<open>s_sbrk\<close> the old break, or -1.\<close>

record 'w sys =
  s_read :: "int \<Rightarrow> nat \<Rightarrow> 'w \<Rightarrow> uint8 list option \<times> 'w"
  s_write :: "int \<Rightarrow> uint8 list \<Rightarrow> 'w \<Rightarrow> int \<times> 'w"
  s_open :: "uint8 list \<Rightarrow> uint32 \<Rightarrow> 'w \<Rightarrow> int \<times> 'w"
  s_close :: "int \<Rightarrow> 'w \<Rightarrow> int \<times> 'w"
  s_fstat :: "int \<Rightarrow> 'w \<Rightarrow> fstat_info option \<times> 'w"
  s_dup :: "int \<Rightarrow> 'w \<Rightarrow> int \<times> 'w"
  s_pipe :: "'w \<Rightarrow> (int \<times> int) option \<times> 'w"
  s_fork :: "'w \<Rightarrow> int \<times> 'w"
  s_wait :: "'w \<Rightarrow> int \<times> 'w"
  s_exec :: "uint8 list \<Rightarrow> uint8 list list \<Rightarrow> 'w \<Rightarrow> bool \<times> 'w"
  s_chdir :: "uint8 list \<Rightarrow> 'w \<Rightarrow> int \<times> 'w"
  s_unlink :: "uint8 list \<Rightarrow> 'w \<Rightarrow> int \<times> 'w"
  s_mkdir :: "uint8 list \<Rightarrow> 'w \<Rightarrow> int \<times> 'w"
  s_link :: "uint8 list \<Rightarrow> uint8 list \<Rightarrow> 'w \<Rightarrow> int \<times> 'w"
  s_mknod :: "uint8 list \<Rightarrow> nat \<Rightarrow> nat \<Rightarrow> 'w \<Rightarrow> int \<times> 'w"
  s_kill :: "int \<Rightarrow> 'w \<Rightarrow> int \<times> 'w"
  s_sleep :: "nat \<Rightarrow> 'w \<Rightarrow> int \<times> 'w"
  s_sbrk :: "uint32 \<Rightarrow> 'w \<Rightarrow> uint64 \<times> 'w"

text \<open>A program returns, exits with a status, or is replaced by \<open>exec\<close>. \<open>UFuel\<close> is a run past
  the number of rounds given to its loops; it also stands for arguments that do not fit the
  format of a \<open>printf\<close>, which C leaves undefined.\<close>

datatype ('a, 'w) uout = URet 'a 'w | UExit int 'w | UExec 'w | UFuel

fun ubnd :: "('a, 'w) uout \<Rightarrow> ('a \<Rightarrow> 'w \<Rightarrow> ('b, 'w) uout) \<Rightarrow> ('b, 'w) uout" where
  "ubnd (URet x w) f = f x w"
| "ubnd (UExit c w) f = UExit c w"
| "ubnd (UExec w) f = UExec w"
| "ubnd UFuel f = UFuel"

section \<open>Strings and memory\<close>

definition set_at :: "uint8 list \<Rightarrow> nat \<Rightarrow> uint8 \<Rightarrow> uint8 list" where
  "set_at buf i c = buf[i := c]"

fun u_strcpy_loop :: "uint8 list \<Rightarrow> nat \<Rightarrow> uint8 list \<Rightarrow> uint8 list" where
  "u_strcpy_loop s i [] = set_at s i 0"
| "u_strcpy_loop s i (c # t) = (if c = 0 then set_at s i 0 else u_strcpy_loop (set_at s i c) (Suc i) t)"

definition u_strcpy :: "uint8 list \<Rightarrow> uint8 list \<Rightarrow> uint8 list" where
  "u_strcpy s t = u_strcpy_loop s 0 t"

fun u_strcmp :: "uint8 list \<Rightarrow> uint8 list \<Rightarrow> int" where
  "u_strcmp (c # p) q = (if c \<noteq> 0 \<and> c = chd q then u_strcmp p (tl q) else uint c - uint (chd q))"
| "u_strcmp [] q = - uint (chd q)"

fun u_strlen :: "uint8 list \<Rightarrow> nat" where
  "u_strlen [] = 0"
| "u_strlen (c # s) = (if c = 0 then 0 else Suc (u_strlen s))"

fun u_memset_loop :: "uint8 list \<Rightarrow> uint8 \<Rightarrow> nat \<Rightarrow> nat \<Rightarrow> uint8 list" where
  "u_memset_loop dst c i 0 = dst"
| "u_memset_loop dst c i (Suc n) = u_memset_loop (set_at dst i c) c (Suc i) n"

definition u_memset :: "uint8 list \<Rightarrow> uint8 \<Rightarrow> nat \<Rightarrow> uint8 list" where
  "u_memset dst c n = u_memset_loop dst c 0 n"

text \<open>The string from the first occurrence of \<open>c\<close> on.\<close>

fun u_strchr :: "uint8 list \<Rightarrow> uint8 \<Rightarrow> uint8 list option" where
  "u_strchr [] c = None"
| "u_strchr (x # s) c = (if x = 0 then None else if x = c then Some (x # s) else u_strchr s c)"

fun u_atoi_loop :: "uint8 list \<Rightarrow> uint32 \<Rightarrow> uint32" where
  "u_atoi_loop [] n = n"
| "u_atoi_loop (c # s) n = (if 48 \<le> c \<and> c \<le> 57 then u_atoi_loop s (n * 10 + ucast c - 48) else n)"

definition u_atoi :: "uint8 list \<Rightarrow> int" where
  "u_atoi s = sint (u_atoi_loop s 0)"

text \<open>\<open>memmove\<close> compares the pointers, not the ranges.\<close>

definition u_memmove :: "memory \<Rightarrow> uint64 \<Rightarrow> uint64 \<Rightarrow> int \<Rightarrow> memory" where
  "u_memmove m dst src n =
     (if dst < src then copy_up m dst src (nat n)
      else copy_down m (dst + of_int n) (src + of_int n) (nat n))"

fun u_memcmp :: "uint8 list \<Rightarrow> uint8 list \<Rightarrow> nat \<Rightarrow> int" where
  "u_memcmp s1 s2 0 = 0"
| "u_memcmp s1 s2 (Suc n) =
     (if chd s1 \<noteq> chd s2 then uint (chd s1) - uint (chd s2) else u_memcmp (tl s1) (tl s2) n)"

definition u_memcpy :: "memory \<Rightarrow> uint64 \<Rightarrow> uint64 \<Rightarrow> uint32 \<Rightarrow> memory" where
  "u_memcpy m dst src n = u_memmove m dst src (sint n)"

section \<open>Input and file status\<close>

text \<open>\<open>gets(buf, max)\<close>: the characters stored before the NUL.\<close>

fun u_gets_loop :: "'w sys \<Rightarrow> nat \<Rightarrow> uint8 list \<Rightarrow> 'w \<Rightarrow> uint8 list \<times> 'w" where
  "u_gets_loop S 0 got w = (got, w)"
| "u_gets_loop S (Suc k) got w =
     (case s_read S 0 1 w of
        (Some (c # _), w) \<Rightarrow> if c = 10 \<or> c = 13 then (got @ [c], w) else u_gets_loop S k (got @ [c]) w
      | (_, w) \<Rightarrow> (got, w))"

definition u_gets :: "'w sys \<Rightarrow> nat \<Rightarrow> 'w \<Rightarrow> uint8 list \<times> 'w" where
  "u_gets S n w = u_gets_loop S (n - 1) [] w"

definition u_stat :: "'w sys \<Rightarrow> uint8 list \<Rightarrow> 'w \<Rightarrow> fstat_info option \<times> 'w" where
  "u_stat S n w =
     (case s_open S n 0 w of (fd, w) \<Rightarrow>
      if fd < 0 then (None, w)
      else case s_fstat S fd w of (r, w) \<Rightarrow> case s_close S fd w of (_, w) \<Rightarrow> (r, w))"

section \<open>printf\<close>

definition u_putc :: "'w sys \<Rightarrow> int \<Rightarrow> uint8 \<Rightarrow> 'w \<Rightarrow> 'w" where
  "u_putc S fd c w = snd (s_write S fd [c] w)"

definition u_puts :: "'w sys \<Rightarrow> int \<Rightarrow> uint8 list \<Rightarrow> 'w \<Rightarrow> 'w" where
  "u_puts S fd cs w = fold (u_putc S fd) cs w"

definition u_digits :: "uint8 list" where
  "u_digits = str ''0123456789ABCDEF''"

text \<open>The characters that \<open>printint\<close> stores, in the order of the buffer; the base is 10 or 16.\<close>

function u_printint_buf :: "nat \<Rightarrow> nat \<Rightarrow> uint8 list" where
  "u_printint_buf x base =
     u_digits ! (x mod base) # (if x div base \<noteq> 0 \<and> 1 < base then u_printint_buf (x div base) base else [])"
  by pat_completeness auto

termination u_printint_buf
  by (relation "measure fst") (auto intro!: div_less_dividend gr0I)

declare u_printint_buf.simps [simp del]

definition u_printint :: "'w sys \<Rightarrow> int \<Rightarrow> uint32 \<Rightarrow> nat \<Rightarrow> bool \<Rightarrow> 'w \<Rightarrow> 'w" where
  "u_printint S fd xx base sg w =
     (let neg = (sg \<and> sint xx < 0);
          x = (if neg then - xx else xx);
          buf = u_printint_buf (unat x) base @ (if neg then [of_char CHR ''-''] else [])
      in u_puts S fd (rev buf) w)"

fun u_printptr_loop :: "nat \<Rightarrow> uint64 \<Rightarrow> uint8 list" where
  "u_printptr_loop 0 x = []"
| "u_printptr_loop (Suc i) x = u_digits ! unat (drop_bit (64 - 4) x) # u_printptr_loop i (push_bit 4 x)"

definition u_printptr :: "'w sys \<Rightarrow> int \<Rightarrow> uint64 \<Rightarrow> 'w \<Rightarrow> 'w" where
  "u_printptr S fd x w = u_puts S fd (str ''0x'' @ u_printptr_loop 16 x) w"

text \<open>\<open>vprintf\<close>; \<open>percent\<close> is the state after a \<open>%\<close>. \<open>None\<close> stands for arguments that do not
  fit the format, which C leaves undefined.\<close>

fun u_vprintf_loop :: "'w sys \<Rightarrow> int \<Rightarrow> uint8 list \<Rightarrow> bool \<Rightarrow> arg list \<Rightarrow> 'w \<Rightarrow> 'w option" where
  "u_vprintf_loop S fd [] percent args w = Some w"
| "u_vprintf_loop S fd (c # fmt) percent args w =
     (if c = 0 then Some w
      else if \<not> percent then
        if c = of_char CHR ''%'' then u_vprintf_loop S fd fmt True args w
        else u_vprintf_loop S fd fmt False args (u_putc S fd c w)
      else if c = of_char CHR ''d'' then
        (case args of AInt x # args \<Rightarrow> u_vprintf_loop S fd fmt False args (u_printint S fd x 10 True w) | _ \<Rightarrow> None)
      else if c = of_char CHR ''l'' then
        (case args of APtr x # args \<Rightarrow> u_vprintf_loop S fd fmt False args (u_printint S fd (ucast x) 10 False w) | _ \<Rightarrow> None)
      else if c = of_char CHR ''x'' then
        (case args of AInt x # args \<Rightarrow> u_vprintf_loop S fd fmt False args (u_printint S fd x 16 False w) | _ \<Rightarrow> None)
      else if c = of_char CHR ''p'' then
        (case args of APtr x # args \<Rightarrow> u_vprintf_loop S fd fmt False args (u_printptr S fd x w) | _ \<Rightarrow> None)
      else if c = of_char CHR ''s'' then
        (case args of
           AStr t # args \<Rightarrow>
             u_vprintf_loop S fd fmt False args
               (u_puts S fd (case t of None \<Rightarrow> str ''(null)'' | Some s \<Rightarrow> cstr s) w)
         | _ \<Rightarrow> None)
      else if c = of_char CHR ''c'' then
        (case args of AInt x # args \<Rightarrow> u_vprintf_loop S fd fmt False args (u_putc S fd (ucast x) w) | _ \<Rightarrow> None)
      else if c = of_char CHR ''%'' then u_vprintf_loop S fd fmt False args (u_putc S fd c w)
      else u_vprintf_loop S fd fmt False args (u_putc S fd c (u_putc S fd (of_char CHR ''%'') w)))"

definition u_vprintf :: "'w sys \<Rightarrow> int \<Rightarrow> string \<Rightarrow> arg list \<Rightarrow> 'w \<Rightarrow> 'w option" where
  "u_vprintf S fd fmt args w = u_vprintf_loop S fd (str fmt) False args w"

definition u_fprintf :: "'w sys \<Rightarrow> int \<Rightarrow> string \<Rightarrow> arg list \<Rightarrow> 'w \<Rightarrow> (unit, 'w) uout" where
  "u_fprintf S fd fmt args w = (case u_vprintf S fd fmt args w of None \<Rightarrow> UFuel | Some w \<Rightarrow> URet () w)"

definition u_printf :: "'w sys \<Rightarrow> string \<Rightarrow> arg list \<Rightarrow> 'w \<Rightarrow> (unit, 'w) uout" where
  "u_printf S fmt args w = u_fprintf S 1 fmt args w"

text \<open>\<open>_main\<close>: a program that returns exits with status 0.\<close>

definition u_main :: "('w \<Rightarrow> (unit, 'w) uout) \<Rightarrow> 'w \<Rightarrow> (unit, 'w) uout" where
  "u_main prog w = ubnd (prog w) (\<lambda>_ w. UExit 0 w)"

section \<open>Facts about the strings\<close>

lemma u_strlen_eq: "u_strlen s = length (cstr s)"
  by (induction s) (auto simp: cstr_def)

lemma u_strchr_Some:
  assumes "u_strchr s c = Some r"
  shows "s = takeWhile (\<lambda>x. x \<noteq> c) s @ r" "\<exists>r'. r = c # r'" "0 \<notin> set (takeWhile (\<lambda>x. x \<noteq> c) s)"
  using assms by (induction s) (auto split: if_splits)

lemma u_strchr_None: "0 \<notin> set s \<Longrightarrow> u_strchr s c = None \<longleftrightarrow> c \<notin> set s"
  by (induction s) auto

section \<open>Input and output as streams\<close>

text \<open>What the programs rely on of \<open>read\<close> and \<open>write\<close>: reading \<open>fd\<close> delivers a non-empty next piece of the input
  unless it is at its end or nothing is asked for, and writing to descriptor 1 appends to the output.\<close>

definition stream :: "'w sys \<Rightarrow> int \<Rightarrow> ('w \<Rightarrow> uint8 list) \<Rightarrow> ('w \<Rightarrow> uint8 list) \<Rightarrow> bool" where
  "stream S fd inp out \<longleftrightarrow>
     (\<forall>n w. \<exists>bs w'. s_read S fd n w = (Some bs, w') \<and> length bs \<le> n \<and> inp w = bs @ inp w' \<and> out w' = out w \<and>
        (bs = [] \<longrightarrow> n = 0 \<or> inp w = [])) \<and>
     (\<forall>bs w. \<exists>w'. s_write S 1 bs w = (int (length bs), w') \<and> out w' = out w @ bs \<and> inp w' = inp w)"

lemma stream_read:
  assumes "stream S fd inp out" "n \<noteq> 0"
  obtains bs w' where "s_read S fd n w = (Some bs, w')" "inp w = bs @ inp w'" "out w' = out w" "bs = [] \<longrightarrow> inp w = []"
  using assms unfolding stream_def by blast

text \<open>An input delivered two bytes at a time.\<close>

definition two_sys :: "(uint8 list \<times> uint8 list) sys" where
  "two_sys = \<lparr>
     s_read = (\<lambda>fd n w. (Some (take (min 2 n) (fst w)), (drop (min 2 n) (fst w), snd w))),
     s_write = (\<lambda>fd bs w. (int (length bs), (fst w, snd w @ bs))),
     s_open = (\<lambda>_ _ w. (- 1, w)), s_close = (\<lambda>_ w. (0, w)), s_fstat = (\<lambda>_ w. (None, w)),
     s_dup = (\<lambda>_ w. (- 1, w)), s_pipe = (\<lambda>w. (None, w)), s_fork = (\<lambda>w. (- 1, w)), s_wait = (\<lambda>w. (- 1, w)),
     s_exec = (\<lambda>_ _ w. (False, w)), s_chdir = (\<lambda>_ w. (- 1, w)), s_unlink = (\<lambda>_ w. (- 1, w)),
     s_mkdir = (\<lambda>_ w. (- 1, w)), s_link = (\<lambda>_ _ w. (- 1, w)), s_mknod = (\<lambda>_ _ _ w. (- 1, w)),
     s_kill = (\<lambda>_ w. (- 1, w)), s_sleep = (\<lambda>_ w. (0, w)), s_sbrk = (\<lambda>_ w. (- 1, w)) \<rparr>"

lemma two_sys_stream: "stream two_sys 0 fst snd"
  by (auto simp: stream_def two_sys_def min_def)

end
