(* ===== verification/Grep.thy ===== *)
theory Grep
  imports Ulib
begin

text \<open>
  \<open>src/user/grep.c\<close>: the regular expression matcher of Kernighan and Pike and the loop that
  prints the matching lines. The matcher is shown to decide a language given by the
  pattern; the loop to print exactly the matching lines of its input, whatever the sizes of
  the pieces in which \<open>read\<close> delivers it.
\<close>

section \<open>The matcher\<close>

lemma chd_nonempty [dest]: "chd xs \<noteq> 0 \<Longrightarrow> xs \<noteq> []"
  by (cases xs) auto

function matchhere :: "uint8 list \<Rightarrow> uint8 list \<Rightarrow> bool"
  and matchstar :: "uint8 \<Rightarrow> uint8 list \<Rightarrow> uint8 list \<Rightarrow> bool" where
  "matchhere re tx =
     (if chd re = 0 then True
      else if chd (tl re) = of_char CHR ''*'' then matchstar (chd re) (tl (tl re)) tx
      else if chd re = of_char CHR ''$'' \<and> chd (tl re) = 0 then chd tx = 0
      else if chd tx \<noteq> 0 \<and> (chd re = of_char CHR ''.'' \<or> chd re = chd tx) then matchhere (tl re) (tl tx)
      else False)"
| "matchstar c re tx =
     (if matchhere re tx then True
      else if chd tx \<noteq> 0 \<and> (chd tx = c \<or> c = of_char CHR ''.'') then matchstar c re (tl tx)
      else False)"
  by pat_completeness auto

termination
proof (relation "measures [\<lambda>a. case a of Inl (re, _) \<Rightarrow> length re | Inr (_, re, _) \<Rightarrow> length re,
                           \<lambda>a. case a of Inl (_, t) \<Rightarrow> length t | Inr (_, _, t) \<Rightarrow> length t,
                           \<lambda>a. case a of Inl _ \<Rightarrow> 0 | Inr _ \<Rightarrow> 1]", goal_cases)
  case (2 re tx)
  then show ?case by (cases re; cases "tl re") auto
qed (auto dest!: chd_nonempty simp: neq_Nil_conv)

declare matchhere.simps [simp del] matchstar.simps [simp del]

fun match_loop :: "uint8 list \<Rightarrow> uint8 list \<Rightarrow> bool" where
  "match_loop re [] = matchhere re []"
| "match_loop re (c # tx) = (if matchhere re (c # tx) then True else if c = 0 then False else match_loop re tx)"

definition match_re :: "uint8 list \<Rightarrow> uint8 list \<Rightarrow> bool" where
  "match_re re tx = (if chd re = of_char CHR ''^'' then matchhere (tl re) tx else match_loop re tx)"

section \<open>The loop over the input\<close>

text \<open>The lines of the buffer from \<open>p\<close> on; the result is what follows the last newline.\<close>

lemma u_strchr_length: "u_strchr p c = Some q \<Longrightarrow> length q \<le> length p \<and> q \<noteq> []"
  by (induction p) (auto split: if_splits)

function grep_lines :: "'w sys \<Rightarrow> uint8 list \<Rightarrow> uint8 list \<Rightarrow> 'w \<Rightarrow> uint8 list \<times> 'w" where
  "grep_lines S re p w =
     (case u_strchr p 10 of
        None \<Rightarrow> (p, w)
      | Some q \<Rightarrow>
          let line = take (length p - length q) p;
              w = (if match_re re line then snd (s_write S 1 (line @ [10]) w) else w)
          in grep_lines S re (tl q) w)"
  by pat_completeness auto

termination
  by (relation "measure (\<lambda>(S, re, p, w). length p)")
     (auto dest: u_strchr_length simp: less_Suc_eq_le less_diff_conv2 Suc_le_eq
           intro: order.strict_trans2 [of _ "length _"])

declare grep_lines.simps [simp del]

text \<open>\<open>buf\<close> holds the first \<open>m\<close> bytes of the buffer of 1024.\<close>

fun u_grep :: "nat \<Rightarrow> 'w sys \<Rightarrow> uint8 list \<Rightarrow> int \<Rightarrow> uint8 list \<Rightarrow> 'w \<Rightarrow> (unit, 'w) uout" where
  "u_grep 0 S re fd buf w = UFuel"
| "u_grep (Suc fuel) S re fd buf w =
     (case s_read S fd (1024 - length buf - 1) w of
        (Some (b # bs), w) \<Rightarrow>
          (case grep_lines S re (buf @ b # bs) w of (p, w) \<Rightarrow> u_grep fuel S re fd p w)
      | (_, w) \<Rightarrow> URet () w)"

fun grep_files :: "nat \<Rightarrow> 'w sys \<Rightarrow> uint8 list \<Rightarrow> uint8 list list \<Rightarrow> 'w \<Rightarrow> (unit, 'w) uout" where
  "grep_files fuel S re [] w = UExit 0 w"
| "grep_files fuel S re (f # fs) w =
     (case s_open S f 0 w of (fd, w) \<Rightarrow>
      if fd < 0 then ubnd (u_printf S ''grep: cannot open %s\<newline>'' [AStr (Some f)] w) (\<lambda>_ w. UExit 1 w)
      else ubnd (u_grep fuel S re fd [] w) (\<lambda>_ w.
           grep_files fuel S re fs (snd (s_close S fd w))))"

definition grep_main :: "nat \<Rightarrow> 'w sys \<Rightarrow> uint8 list list \<Rightarrow> 'w \<Rightarrow> (unit, 'w) uout" where
  "grep_main fuel S argv w =
     (if length argv \<le> 1 then ubnd (u_fprintf S 2 ''usage: grep pattern [file ...]\<newline>'' [] w) (\<lambda>_ w. UExit 1 w)
      else if length argv \<le> 2 then ubnd (u_grep fuel S (argv ! 1) 0 [] w) (\<lambda>_ w. UExit 0 w)
      else grep_files fuel S (argv ! 1) (drop 2 argv) w)"

section \<open>The language of a pattern\<close>

text \<open>A pattern is a list of characters, each possibly starred, and possibly a final \<open>$\<close>.\<close>

fun compile :: "uint8 list \<Rightarrow> (uint8 \<times> bool) list \<times> bool" where
  "compile [] = ([], False)"
| "compile [c] = (if c = of_char CHR ''$'' then ([], True) else ([(c, False)], False))"
| "compile (c # d # re) =
     (if d = of_char CHR ''*'' then (case compile re of (is, e) \<Rightarrow> ((c, True) # is, e))
      else (case compile (d # re) of (is, e) \<Rightarrow> ((c, False) # is, e)))"

definition char_ok :: "uint8 \<Rightarrow> uint8 \<Rightarrow> bool" where
  "char_ok c x \<longleftrightarrow> c = of_char CHR ''.'' \<or> c = x"

fun lang :: "(uint8 \<times> bool) list \<Rightarrow> uint8 list set" where
  "lang [] = {[]}"
| "lang ((c, False) # is) = {x # s | x s. char_ok c x \<and> s \<in> lang is}"
| "lang ((c, True) # is) = {xs @ s | xs s. (\<forall>x \<in> set xs. char_ok c x) \<and> s \<in> lang is}"

definition begins :: "(uint8 \<times> bool) list \<times> bool \<Rightarrow> uint8 list \<Rightarrow> bool" where
  "begins pat tx \<longleftrightarrow> (\<exists>s rest. tx = s @ rest \<and> s \<in> lang (fst pat) \<and> (snd pat \<longrightarrow> rest = []))"

definition matches :: "uint8 list \<Rightarrow> uint8 list \<Rightarrow> bool" where
  "matches re tx \<longleftrightarrow>
     (if \<exists>re'. re = of_char CHR ''^'' # re' then begins (compile (tl re)) tx
      else \<exists>pre rest. tx = pre @ rest \<and> begins (compile re) rest)"

lemma begins_nil [simp]: "begins ([], e) tx \<longleftrightarrow> (e \<longrightarrow> tx = [])"
  by (auto simp: begins_def)

lemma begins_one: "begins ((c, False) # is, e) tx \<longleftrightarrow> (\<exists>x t. tx = x # t \<and> char_ok c x \<and> begins (is, e) t)"
  (is "?l \<longleftrightarrow> ?r")
proof
  assume ?l
  then obtain s rest where "tx = s @ rest" "s \<in> lang ((c, False) # is)" "e \<longrightarrow> rest = []"
    by (auto simp: begins_def)
  moreover from this obtain x t where "s = x # t" "char_ok c x" "t \<in> lang is" by auto
  ultimately have "tx = x # t @ rest \<and> char_ok c x \<and> begins (is, e) (t @ rest)" unfolding begins_def by auto
  then show ?r by blast
next
  assume ?r
  then obtain x s rest where *: "tx = (x # s) @ rest" "char_ok c x" "s \<in> lang is" "e \<longrightarrow> rest = []"
    by (auto simp: begins_def)
  then show ?l unfolding begins_def by (intro exI [of _ "x # s"] exI [of _ rest]) auto
qed

lemma begins_starD:
  assumes "begins ((c, True) # is, e) tx"
  obtains xs s rest where "tx = (xs @ s) @ rest" "\<forall>x \<in> set xs. char_ok c x" "s \<in> lang is" "e \<longrightarrow> rest = []"
proof -
  from assms obtain s' rest where "tx = s' @ rest" "s' \<in> lang ((c, True) # is)" "e \<longrightarrow> rest = []"
    by (auto simp: begins_def)
  moreover from this obtain xs s where "s' = xs @ s" "\<forall>x \<in> set xs. char_ok c x" "s \<in> lang is" by auto
  ultimately show ?thesis by (intro that [of xs s rest]) auto
qed

lemma begins_starI:
  assumes "tx = (xs @ s) @ rest" "\<forall>x \<in> set xs. char_ok c x" "s \<in> lang is" "e \<longrightarrow> rest = []"
  shows "begins ((c, True) # is, e) tx"
  unfolding begins_def using assms by (intro exI [of _ "xs @ s"] exI [of _ rest]) auto

lemma begins_star:
  "begins ((c, True) # is, e) tx \<longleftrightarrow>
     begins (is, e) tx \<or> (\<exists>x t. tx = x # t \<and> char_ok c x \<and> begins ((c, True) # is, e) t)"
  (is "?l \<longleftrightarrow> ?r")
proof
  assume ?l
  then obtain xs s rest where *: "tx = (xs @ s) @ rest" "\<forall>x \<in> set xs. char_ok c x" "s \<in> lang is" "e \<longrightarrow> rest = []"
    by (rule begins_starD)
  show ?r
  proof (cases xs)
    case Nil
    then show ?thesis using * by (auto simp: begins_def)
  next
    case (Cons x ys)
    then show ?thesis using * begins_starI [of "ys @ s @ rest" ys s rest c "is" e] by auto
  qed
next
  assume ?r
  then show ?l
  proof (elim disjE exE conjE)
    assume "begins (is, e) tx"
    then show ?l by (auto simp: begins_def intro: begins_starI [of _ "[]", unfolded begins_def, simplified])
  next
    fix x t assume a: "tx = x # t" "char_ok c x" "begins ((c, True) # is, e) t"
    from a(3) obtain xs s rest where "t = (xs @ s) @ rest" "\<forall>x \<in> set xs. char_ok c x" "s \<in> lang is" "e \<longrightarrow> rest = []"
      by (rule begins_starD)
    then show ?l using a by (intro begins_starI [of _ "x # xs" s rest]) auto
  qed
qed

lemma of_char_nonzero [simp]: "(of_char CHR ''*'' :: uint8) \<noteq> 0" "(of_char CHR ''$'' :: uint8) \<noteq> 0"
  "(of_char CHR ''^'' :: uint8) \<noteq> 0" "(of_char CHR ''.'' :: uint8) \<noteq> 0"
  by (simp_all add: of_char_def)

lemma chd_zero: "0 \<notin> set xs \<Longrightarrow> chd xs = 0 \<longleftrightarrow> xs = []"
  by (cases xs) auto

lemma matchhere_matchstar:
  "0 \<notin> set re \<Longrightarrow> 0 \<notin> set tx \<Longrightarrow> matchhere re tx = begins (compile re) tx"
  "0 \<notin> set re \<Longrightarrow> 0 \<notin> set tx \<Longrightarrow> matchstar c re tx = begins ((c, True) # fst (compile re), snd (compile re)) tx"
proof (induction re tx and c re tx rule: matchhere_matchstar.induct)
  case (1 re tx)
  consider "re = []" | "\<exists>c d re'. re = c # d # re' \<and> d = of_char CHR ''*''"
    | "re = [of_char CHR ''$'']" | "re \<noteq> []" "chd (tl re) \<noteq> of_char CHR ''*''" "re \<noteq> [of_char CHR ''$'']"
    by (cases re; cases "tl re") auto
  then show ?case
  proof cases
    case 1
    then show ?thesis by (simp add: matchhere.simps [of "[]"])
  next
    case 2
    then obtain c re' where re: "re = c # of_char CHR ''*'' # re'" by auto
    have "matchhere re tx = matchstar c re' tx" using 1(3) by (simp add: re matchhere.simps [of "c # 42 # re'"])
    moreover have "matchstar c re' tx = begins ((c, True) # fst (compile re'), snd (compile re')) tx"
      using 1(1) 1(3,4) re by auto
    ultimately show ?thesis using re by (simp add: split_beta)
  next
    case 3
    then show ?thesis using 1(4) by (simp add: matchhere.simps [of "[36]"] chd_zero)
  next
    case 4
    then obtain c re' where re: "re = c # re'" by (cases re) auto
    then have comp: "compile re = ((c, False) # fst (compile re'), snd (compile re'))"
      using 4 by (cases re') (auto simp: split_beta)
    have mh: "matchhere re tx = (chd tx \<noteq> 0 \<and> char_ok c (chd tx) \<and> matchhere re' (tl tx))"
      unfolding matchhere.simps [of re] using 4 re 1(3) by (cases re') (auto simp: char_ok_def)
    show ?thesis
    proof (cases "chd tx \<noteq> 0 \<and> char_ok c (chd tx)")
      case True
      then have "matchhere re' (tl tx) = begins (compile re') (tl tx)"
        using 1(2) 1(3,4) re 4 by (cases tx; cases re') (auto simp: char_ok_def)
      then show ?thesis using mh comp True 1(4) by (cases tx) (auto simp: begins_one)
    next
      case False
      then show ?thesis using mh comp 1(4) by (cases tx) (auto simp: begins_one)
    qed
  qed
next
  case (2 c re tx)
  have ok: "(chd tx = c \<or> c = of_char CHR ''.'') = char_ok c (chd tx)" by (auto simp: char_ok_def)
  have mh: "matchhere re tx = begins (compile re) tx" using 2 by blast
  show ?case
  proof (cases "\<not> matchhere re tx \<and> chd tx \<noteq> 0 \<and> char_ok c (chd tx)")
    case True
    then have "matchstar c re (tl tx) = begins ((c, True) # fst (compile re), snd (compile re)) (tl tx)"
      using 2(2) 2(3,4) by (cases tx) (auto simp: char_ok_def)
    then show ?thesis using True mh 2(4) unfolding matchstar.simps [of c re tx] begins_star [of c _ _ tx] ok
      by (cases tx) auto
  next
    case False
    then show ?thesis using mh 2(4) unfolding matchstar.simps [of c re tx] begins_star [of c _ _ tx] ok
      by (cases tx) auto
  qed
qed

lemma match_loop_eq:
  assumes "0 \<notin> set re"
  shows "0 \<notin> set tx \<Longrightarrow> match_loop re tx \<longleftrightarrow> (\<exists>pre rest. tx = pre @ rest \<and> begins (compile re) rest)"
proof (induction tx)
  case Nil
  then show ?case using assms by (simp add: matchhere_matchstar)
next
  case (Cons c tx)
  have "(\<exists>pre rest. c # tx = pre @ rest \<and> begins (compile re) rest) \<longleftrightarrow>
        begins (compile re) (c # tx) \<or> (\<exists>pre rest. tx = pre @ rest \<and> begins (compile re) rest)"
    by (metis append_Cons append_Nil Cons_eq_append_conv)
  then show ?case using Cons assms by (auto simp: matchhere_matchstar)
qed

lemma match_re_eq:
  assumes "0 \<notin> set re" "0 \<notin> set tx"
  shows "match_re re tx \<longleftrightarrow> matches re tx"
proof (cases "chd re = of_char CHR ''^''")
  case True
  then obtain re' where "re = of_char CHR ''^'' # re'" by (cases re) auto
  then show ?thesis using assms by (simp add: match_re_def matches_def matchhere_matchstar)
next
  case False
  then have "\<not> (\<exists>re'. re = of_char CHR ''^'' # re')" by auto
  then show ?thesis using False assms by (simp add: match_re_def matches_def match_loop_eq)
qed

text \<open>C9. The matcher of \<open>grep\<close> accepts a line exactly when some part of it lies in the language that
  the pattern denotes (a dot stands for any character, a star for any number of the character
  before it), where \<open>^\<close> anchors that part to the start of the line and a final \<open>$\<close> to its end.\<close>

theorem match_decides_language:
  assumes "0 \<notin> set re" and "0 \<notin> set tx"
  shows "match_re re tx \<longleftrightarrow> matches re tx"
  using assms by (rule match_re_eq)

theorem match_decides_language_witness:
  "match_re (str ''b.*e$'') (str ''abcde'') \<and> matches (str ''b.*e$'') (str ''abcde'') \<and>
   \<not> match_re (str ''^b.*e$'') (str ''abcde'') \<and> \<not> matches (str ''^b.*e$'') (str ''abcde'')"
proof -
  have "match_re (str ''b.*e$'') (str ''abcde'')" by code_simp
  moreover have "\<not> match_re (str ''^b.*e$'') (str ''abcde'')" by code_simp
  moreover have "0 \<notin> set (str ''b.*e$'')" "0 \<notin> set (str ''^b.*e$'')" "0 \<notin> set (str ''abcde'')" by code_simp+
  ultimately show ?thesis using match_decides_language by blast
qed

section \<open>The lines printed\<close>

text \<open>The complete lines of a text, without their newlines, and what follows the last newline.\<close>

fun lines_of :: "uint8 list \<Rightarrow> uint8 list \<Rightarrow> uint8 list list" where
  "lines_of cur [] = []"
| "lines_of cur (c # s) = (if c = 10 then cur # lines_of [] s else lines_of (cur @ [c]) s)"

fun partial_line :: "uint8 list \<Rightarrow> uint8 list \<Rightarrow> uint8 list" where
  "partial_line cur [] = cur"
| "partial_line cur (c # s) = (if c = 10 then partial_line [] s else partial_line (cur @ [c]) s)"

definition printed :: "uint8 list \<Rightarrow> uint8 list list \<Rightarrow> uint8 list" where
  "printed re ls = concat (map (\<lambda>l. l @ [10]) (filter (matches re) ls))"

lemma lines_of_append: "lines_of cur (s @ t) = lines_of cur s @ lines_of (partial_line cur s) t"
  by (induction cur s rule: lines_of.induct) auto

lemma partial_line_append: "partial_line cur (s @ t) = partial_line (partial_line cur s) t"
  by (induction cur s rule: lines_of.induct) auto

lemma no_newline: "10 \<notin> set s \<Longrightarrow> lines_of cur s = [] \<and> partial_line cur s = cur @ s"
  by (induction s arbitrary: cur) auto

lemma lines_of_cur: "10 \<notin> set cur \<Longrightarrow> lines_of cur s = lines_of [] (cur @ s)" "10 \<notin> set cur \<Longrightarrow> partial_line cur s = partial_line [] (cur @ s)"
  using no_newline [of cur "[]"] by (simp_all add: lines_of_append partial_line_append)

lemma exI2: "P x y \<Longrightarrow> \<exists>x y. P x y"
  by blast

lemma u_strchr_split:
  "u_strchr p c = Some q \<Longrightarrow> \<exists>l q'. q = c # q' \<and> p = l @ c # q' \<and> c \<notin> set l \<and> 0 \<notin> set l"
proof (induction p)
  case (Cons x p)
  show ?case
  proof (cases "x = c")
    case True
    then show ?thesis using Cons.prems
      by (intro exI2 [of _ "[]" p]) (auto split: if_splits)
  next
    case False
    then have "x \<noteq> 0" "u_strchr p c = Some q" using Cons.prems by (auto split: if_splits)
    then obtain l q' where "q = c # q'" "p = l @ c # q'" "c \<notin> set l" "0 \<notin> set l" using Cons.IH by blast
    then show ?thesis using False \<open>x \<noteq> 0\<close> by (intro exI2 [of _ "x # l" q']) auto
  qed
qed simp

lemma grep_lines_correct:
  assumes str: "stream S fd inp out" and re: "0 \<notin> set re"
  shows "0 \<notin> set p \<Longrightarrow>
    \<exists>w'. grep_lines S re p w = (partial_line [] p, w') \<and> inp w' = inp w \<and> out w' = out w @ printed re (lines_of [] p)"
proof (induction "length p" arbitrary: p w rule: less_induct)
  case less
  show ?case
  proof (cases "u_strchr p 10")
    case None
    then have "10 \<notin> set p" using less.prems u_strchr_None by blast
    then show ?thesis using None no_newline [of p "[]"] by (simp add: grep_lines.simps [of S re p] printed_def)
  next
    case (Some q)
    then obtain l q' where q: "q = 10 # q'" "p = l @ 10 # q'" "10 \<notin> set l" "0 \<notin> set l" using u_strchr_split by blast
    define w1 where "w1 = (if match_re re l then snd (s_write S 1 (l @ [10]) w) else w)"
    have gl: "grep_lines S re p w = grep_lines S re q' w1"
      unfolding grep_lines.simps [of S re p] Some w1_def using q by simp
    have w1: "inp w1 = inp w" "out w1 = out w @ printed re [l]"
    proof -
      obtain r w' where "s_write S 1 (l @ [10]) w = (r :: int, w')" "out w' = out w @ l @ [10]" "inp w' = inp w"
        using str unfolding stream_def by blast
      then show "inp w1 = inp w" "out w1 = out w @ printed re [l]"
        using q re by (auto simp: w1_def printed_def match_re_eq)
    qed
    obtain w' where "grep_lines S re q' w1 = (partial_line [] q', w')" "inp w' = inp w1"
        "out w' = out w1 @ printed re (lines_of [] q')"
      using less.hyps [of q' w1] less.prems q by auto
    then show ?thesis using gl w1 q no_newline [of l "[]"]
      by (auto simp: lines_of_append partial_line_append printed_def)
  qed
qed

lemma partial_line_set: "set (partial_line cur s) \<subseteq> set cur \<union> set s"
  by (induction cur s rule: lines_of.induct) auto

lemma partial_line_no_newline: "10 \<notin> set cur \<Longrightarrow> 10 \<notin> set (partial_line cur s)"
  by (induction cur s rule: partial_line.induct) auto

text \<open>Every line, the unfinished last one included, fits the buffer.\<close>

definition short_lines :: "uint8 list \<Rightarrow> bool" where
  "short_lines s \<longleftrightarrow> (\<forall>t u. s = t @ u \<longrightarrow> length (partial_line [] t) < 1023)"

lemma partial_line_length: "length (partial_line cur s) \<le> length cur + length s"
  by (induction cur s rule: partial_line.induct) auto

lemma short_linesI: "length s < 1023 \<Longrightarrow> short_lines s"
  unfolding short_lines_def using partial_line_length [of "[]"] by (metis add_0 add_lessD1 le_less_trans length_append list.size(3))

lemma short_lines_tail:
  assumes "short_lines (s @ r)" "10 \<notin> set p" "partial_line [] s = p"
  shows "short_lines (p @ r)"
  unfolding short_lines_def
proof (intro allI impI)
  fix t u assume "p @ r = t @ u"
  then consider v where "p = t @ v" | t' where "t = p @ t'" "r = t' @ u" by (auto simp: append_eq_append_conv2)
  then show "length (partial_line [] t) < 1023"
  proof cases
    case 1
    have "length p < 1023" using assms unfolding short_lines_def by blast
    then show ?thesis using 1 partial_line_length [of "[]" t] by simp
  next
    case 2
    then have "partial_line [] t = partial_line [] (s @ t')"
      using assms(2,3) lines_of_cur(2) [of p t'] by (simp add: partial_line_append)
    moreover have "s @ r = (s @ t') @ u" using 2 by simp
    ultimately show ?thesis using assms(1) unfolding short_lines_def by metis
  qed
qed

lemma printed_append: "printed re (ls @ ms) = printed re ls @ printed re ms"
  by (simp add: printed_def)

lemma u_grep_loop:
  assumes str: "stream S fd inp out" and re: "0 \<notin> set re"
  shows "length (inp w) < fuel \<Longrightarrow> 10 \<notin> set buf \<Longrightarrow> 0 \<notin> set (buf @ inp w) \<Longrightarrow> short_lines (buf @ inp w) \<Longrightarrow>
    \<exists>w'. u_grep fuel S re fd buf w = URet () w' \<and> inp w' = [] \<and>
         out w' = out w @ printed re (lines_of [] (buf @ inp w))"
proof (induction fuel arbitrary: buf w)
  case (Suc fuel)
  have pb: "lines_of [] buf = [] \<and> partial_line [] buf = buf" using no_newline [of buf "[]"] Suc.prems by simp
  then have room: "length buf < 1023" using Suc.prems unfolding short_lines_def by metis
  then have "1024 - length buf - 1 \<noteq> 0" by simp
  then obtain bs w1 where rd: "s_read S fd (1024 - length buf - 1) w = (Some bs, w1)" "inp w = bs @ inp w1"
      "out w1 = out w" "bs = [] \<longrightarrow> inp w = []"
    by (rule stream_read [OF str])
  show ?case
  proof (cases bs)
    case Nil
    then show ?thesis using rd pb by (simp add: printed_def)
  next
    case (Cons b bs')
    obtain w2 where gl: "grep_lines S re (buf @ bs) w1 = (partial_line [] (buf @ bs), w2)" "inp w2 = inp w1"
        "out w2 = out w1 @ printed re (lines_of [] (buf @ bs))"
      using grep_lines_correct [OF str re, of "buf @ bs" w1] Suc.prems rd by auto
    let ?p = "partial_line [] (buf @ bs)"
    have p: "10 \<notin> set ?p" "0 \<notin> set (?p @ inp w2)"
      using partial_line_no_newline [of "[]"] partial_line_set [of "[]" "buf @ bs"] Suc.prems rd gl by auto
    have sl: "short_lines (?p @ inp w2)"
      using short_lines_tail [of "buf @ bs" "inp w2" ?p] Suc.prems rd gl p by simp
    obtain w' where "u_grep fuel S re fd ?p w2 = URet () w'" "inp w' = []"
        "out w' = out w2 @ printed re (lines_of [] (?p @ inp w2))"
      using Suc.IH [of w2 ?p] p sl Suc.prems rd gl Cons by auto
    moreover have "lines_of [] (?p @ inp w2) = lines_of ?p (inp w1)" using p lines_of_cur [of ?p "inp w1"] gl by simp
    moreover have "lines_of [] (buf @ inp w) = lines_of [] (buf @ bs) @ lines_of ?p (inp w1)"
      using lines_of_append [of "[]" "buf @ bs" "inp w1"] rd by simp
    moreover have "u_grep (Suc fuel) S re fd buf w = u_grep fuel S re fd ?p w2" using rd gl Cons by simp
    ultimately show ?thesis using rd gl by (simp add: printed_append)
  qed
qed simp

text \<open>C14. \<open>grep\<close> reads all its input and prints, in order, exactly its complete lines that lie in the language
  of the pattern, however the input is cut into pieces by \<open>read\<close>, provided that the text has no NUL and
  its lines fit the buffer of 1024 bytes; it needs at most one round for every byte of the input.\<close>

theorem grep_prints_matching_lines:
  assumes "stream S fd inp out" and "0 \<notin> set re" and "0 \<notin> set (inp w)" and "short_lines (inp w)"
    and "length (inp w) < fuel"
  shows "\<exists>w'. u_grep fuel S re fd [] w = URet () w' \<and> inp w' = [] \<and>
              out w' = out w @ printed re (lines_of [] (inp w))"
  using u_grep_loop [OF assms(1,2), of w fuel "[]"] assms by simp

theorem grep_prints_matching_lines_witness:
  "\<exists>w'. u_grep 10 two_sys (str ''^a'') 0 [] (str ''ab\<newline>c\<newline>a\<newline>x'', []) = URet () w' \<and> fst w' = [] \<and>
        snd w' = printed (str ''^a'') [str ''ab'', str ''c'', str ''a'']"
proof -
  let ?t = "str ''ab\<newline>c\<newline>a\<newline>x''"
  have "0 \<notin> set (str ''^a'')" "0 \<notin> set ?t" "length ?t < 10" by code_simp+
  moreover have "lines_of [] ?t = [str ''ab'', str ''c'', str ''a'']" by code_simp
  moreover have "short_lines ?t" by (rule short_linesI) code_simp
  ultimately show ?thesis
    using grep_prints_matching_lines [OF two_sys_stream, of "str ''^a''" "(?t, [])" 10] by simp
qed

end
