(* ===== verification/Utils.thy ===== *)
theory Utils
  imports Grep Fs
begin

text \<open>
  The small user programs: \<open>cat\<close>, \<open>wc\<close>, \<open>echo\<close>, \<open>rm\<close>, \<open>mkdir\<close>, \<open>ln\<close>, \<open>kill\<close>, \<open>ls\<close>, \<open>init\<close> and \<open>zombie\<close> of
  \<open>src/user\<close>, over the system calls of \<open>sys\<close>. \<open>cat\<close> is shown to copy its input and \<open>wc\<close> to
  count it, however \<open>read\<close> cuts it into pieces.
\<close>

section \<open>cat\<close>

definition u_die :: "'w sys \<Rightarrow> string \<Rightarrow> arg list \<Rightarrow> 'w \<Rightarrow> (unit, 'w) uout" where
  "u_die S fmt args w = ubnd (u_fprintf S 2 fmt args w) (\<lambda>_ w. UExit 1 w)"

fun u_cat :: "nat \<Rightarrow> 'w sys \<Rightarrow> int \<Rightarrow> 'w \<Rightarrow> (unit, 'w) uout" where
  "u_cat 0 S fd w = UFuel"
| "u_cat (Suc fuel) S fd w =
     (case s_read S fd 512 w of
        (None, w) \<Rightarrow> u_die S ''cat: read error\<newline>'' [] w
      | (Some [], w) \<Rightarrow> URet () w
      | (Some (b # bs), w) \<Rightarrow>
          (case s_write S 1 (b # bs) w of (n, w) \<Rightarrow>
           if n \<noteq> int (length (b # bs)) then u_die S ''cat: write error\<newline>'' [] w
           else u_cat fuel S fd w))"

fun cat_files :: "nat \<Rightarrow> 'w sys \<Rightarrow> uint8 list list \<Rightarrow> 'w \<Rightarrow> (unit, 'w) uout" where
  "cat_files fuel S [] w = UExit 0 w"
| "cat_files fuel S (f # fs) w =
     (case s_open S f 0 w of (fd, w) \<Rightarrow>
      if fd < 0 then u_die S ''cat: cannot open %s\<newline>'' [AStr (Some f)] w
      else ubnd (u_cat fuel S fd w) (\<lambda>_ w. cat_files fuel S fs (snd (s_close S fd w))))"

definition cat_main :: "nat \<Rightarrow> 'w sys \<Rightarrow> uint8 list list \<Rightarrow> 'w \<Rightarrow> (unit, 'w) uout" where
  "cat_main fuel S argv w =
     (if length argv \<le> 1 then ubnd (u_cat fuel S 0 w) (\<lambda>_ w. UExit 0 w)
      else cat_files fuel S (tl argv) w)"

section \<open>wc\<close>

record wc_counts =
  wc_l :: uint32
  wc_w :: uint32
  wc_c :: uint32
  wc_inword :: bool

fun wc_buf :: "uint8 list \<Rightarrow> wc_counts \<Rightarrow> wc_counts" where
  "wc_buf [] k = k"
| "wc_buf (b # bs) k =
     (let k = k\<lparr>wc_c := wc_c k + 1\<rparr>;
          k = (if b = 10 then k\<lparr>wc_l := wc_l k + 1\<rparr> else k);
          k = (if u_strchr [32, 13, 9, 10, 11] b \<noteq> None then k\<lparr>wc_inword := False\<rparr>
               else if \<not> wc_inword k then k\<lparr>wc_w := wc_w k + 1, wc_inword := True\<rparr>
               else k)
      in wc_buf bs k)"

fun wc_loop :: "nat \<Rightarrow> 'w sys \<Rightarrow> int \<Rightarrow> uint8 list \<Rightarrow> wc_counts \<Rightarrow> 'w \<Rightarrow> (unit, 'w) uout" where
  "wc_loop 0 S fd name k w = UFuel"
| "wc_loop (Suc fuel) S fd name k w =
     (case s_read S fd 512 w of
        (None, w) \<Rightarrow> ubnd (u_printf S ''wc: read error\<newline>'' [] w) (\<lambda>_ w. UExit 1 w)
      | (Some [], w) \<Rightarrow>
          u_printf S ''%d %d %d %s\<newline>'' [AInt (wc_l k), AInt (wc_w k), AInt (wc_c k), AStr (Some name)] w
      | (Some (b # bs), w) \<Rightarrow> wc_loop fuel S fd name (wc_buf (b # bs) k) w)"

definition u_wc :: "nat \<Rightarrow> 'w sys \<Rightarrow> int \<Rightarrow> uint8 list \<Rightarrow> 'w \<Rightarrow> (unit, 'w) uout" where
  "u_wc fuel S fd name w =
     wc_loop fuel S fd name \<lparr>wc_l = 0, wc_w = 0, wc_c = 0, wc_inword = False\<rparr> w"

fun wc_files :: "nat \<Rightarrow> 'w sys \<Rightarrow> uint8 list list \<Rightarrow> 'w \<Rightarrow> (unit, 'w) uout" where
  "wc_files fuel S [] w = UExit 0 w"
| "wc_files fuel S (f # fs) w =
     (case s_open S f 0 w of (fd, w) \<Rightarrow>
      if fd < 0 then ubnd (u_printf S ''wc: cannot open %s\<newline>'' [AStr (Some f)] w) (\<lambda>_ w. UExit 1 w)
      else ubnd (u_wc fuel S fd f w) (\<lambda>_ w. wc_files fuel S fs (snd (s_close S fd w))))"

definition wc_main :: "nat \<Rightarrow> 'w sys \<Rightarrow> uint8 list list \<Rightarrow> 'w \<Rightarrow> (unit, 'w) uout" where
  "wc_main fuel S argv w =
     (if length argv \<le> 1 then ubnd (u_wc fuel S 0 [] w) (\<lambda>_ w. UExit 0 w)
      else wc_files fuel S (tl argv) w)"

section \<open>echo, rm, mkdir, ln, kill, zombie\<close>

fun echo_args :: "'w sys \<Rightarrow> uint8 list list \<Rightarrow> 'w \<Rightarrow> 'w" where
  "echo_args S [] w = w"
| "echo_args S (a # as) w =
     (let w = snd (s_write S 1 (take (u_strlen a) a) w);
          w = snd (s_write S 1 (if as \<noteq> [] then str '' '' else str ''\<newline>'') w)
      in echo_args S as w)"

definition echo_main :: "'w sys \<Rightarrow> uint8 list list \<Rightarrow> 'w \<Rightarrow> (unit, 'w) uout" where
  "echo_main S argv w = UExit 0 (echo_args S (tl argv) w)"

fun rm_files :: "'w sys \<Rightarrow> uint8 list list \<Rightarrow> 'w \<Rightarrow> (unit, 'w) uout" where
  "rm_files S [] w = UExit 0 w"
| "rm_files S (f # fs) w =
     (case s_unlink S f w of (r, w) \<Rightarrow>
      if r < 0 then ubnd (u_fprintf S 2 ''rm: %s failed to delete\<newline>'' [AStr (Some f)] w) (\<lambda>_ w. UExit 0 w)
      else rm_files S fs w)"

definition rm_main :: "'w sys \<Rightarrow> uint8 list list \<Rightarrow> 'w \<Rightarrow> (unit, 'w) uout" where
  "rm_main S argv w =
     (if length argv < 2 then u_die S ''Usage: rm files...\<newline>'' [] w else rm_files S (tl argv) w)"

fun mkdir_files :: "'w sys \<Rightarrow> uint8 list list \<Rightarrow> 'w \<Rightarrow> (unit, 'w) uout" where
  "mkdir_files S [] w = UExit 0 w"
| "mkdir_files S (f # fs) w =
     (case s_mkdir S f w of (r, w) \<Rightarrow>
      if r < 0 then ubnd (u_fprintf S 2 ''mkdir: %s failed to create\<newline>'' [AStr (Some f)] w) (\<lambda>_ w. UExit 0 w)
      else mkdir_files S fs w)"

definition mkdir_main :: "'w sys \<Rightarrow> uint8 list list \<Rightarrow> 'w \<Rightarrow> (unit, 'w) uout" where
  "mkdir_main S argv w =
     (if length argv < 2 then u_die S ''Usage: mkdir files...\<newline>'' [] w else mkdir_files S (tl argv) w)"

definition ln_main :: "'w sys \<Rightarrow> uint8 list list \<Rightarrow> 'w \<Rightarrow> (unit, 'w) uout" where
  "ln_main S argv w =
     (if length argv \<noteq> 3 then u_die S ''Usage: ln old new\<newline>'' [] w
      else case s_link S (argv ! 1) (argv ! 2) w of (r, w) \<Rightarrow>
        if r < 0 then
          ubnd (u_fprintf S 2 ''link %s %s: failed\<newline>'' [AStr (Some (argv ! 1)), AStr (Some (argv ! 2))] w)
            (\<lambda>_ w. UExit 0 w)
        else UExit 0 w)"

fun kill_pids :: "'w sys \<Rightarrow> uint8 list list \<Rightarrow> 'w \<Rightarrow> 'w" where
  "kill_pids S [] w = w"
| "kill_pids S (a # as) w = kill_pids S as (snd (s_kill S (u_atoi a) w))"

definition kill_main :: "'w sys \<Rightarrow> uint8 list list \<Rightarrow> 'w \<Rightarrow> (unit, 'w) uout" where
  "kill_main S argv w =
     (if length argv < 2 then u_die S ''usage: kill pid...\<newline>'' [] w else UExit 0 (kill_pids S (tl argv) w))"

definition zombie_main :: "'w sys \<Rightarrow> 'w \<Rightarrow> (unit, 'w) uout" where
  "zombie_main S w =
     (case s_fork S w of (r, w) \<Rightarrow> UExit 0 (if r > 0 then snd (s_sleep S 5 w) else w))"

section \<open>ls\<close>

text \<open>The name after the last slash, padded with blanks to \<open>DIRSIZ\<close> characters if it is shorter.\<close>

definition after_slash :: "uint8 list \<Rightarrow> uint8 list" where
  "after_slash s = rev (takeWhile (\<lambda>c. c \<noteq> of_char CHR ''/'') (rev s))"

definition fmtname :: "uint8 list \<Rightarrow> uint8 list" where
  "fmtname path =
     (let p = after_slash (cstr path)
      in if length p \<ge> DIRSIZ then p else p @ replicate (DIRSIZ - length p) (of_char CHR '' ''))"

text \<open>The loop over the directory entries.\<close>

fun ls_loop :: "nat \<Rightarrow> 'w sys \<Rightarrow> int \<Rightarrow> uint8 list \<Rightarrow> 'w \<Rightarrow> (unit, 'w) uout" where
  "ls_loop 0 S fd path w = UFuel"
| "ls_loop (Suc fuel) S fd path w =
     (case s_read S fd 16 w of
        (None, w) \<Rightarrow> URet () w
      | (Some de, w) \<Rightarrow>
          if length de \<noteq> 16 then URet () w
          else if get16 de 0 = 0 then ls_loop fuel S fd path w
          else
            let buf = cstr path @ of_char CHR ''/'' # cstr (take DIRSIZ (drop 2 de))
            in case u_stat S buf w of
                 (None, w) \<Rightarrow>
                   ubnd (u_printf S ''ls: cannot stat %s\<newline>'' [AStr (Some buf)] w) (\<lambda>_ w. ls_loop fuel S fd path w)
               | (Some st, w) \<Rightarrow>
                   ubnd (u_printf S ''%s %d %d %d\<newline>''
                           [AStr (Some (fmtname buf)), AInt (scast (ust_type st)), AInt (ust_ino st), AInt (ucast (ust_size st))] w)
                     (\<lambda>_ w. ls_loop fuel S fd path w))"

definition u_ls :: "nat \<Rightarrow> 'w sys \<Rightarrow> uint8 list \<Rightarrow> 'w \<Rightarrow> (unit, 'w) uout" where
  "u_ls fuel S path w =
     (case s_open S path 0 w of (fd, w) \<Rightarrow>
      if fd < 0 then u_fprintf S 2 ''ls: cannot open %s\<newline>'' [AStr (Some path)] w
      else case s_fstat S fd w of
        (None, w) \<Rightarrow>
          ubnd (u_fprintf S 2 ''ls: cannot stat %s\<newline>'' [AStr (Some path)] w) (\<lambda>_ w. URet () (snd (s_close S fd w)))
      | (Some st, w) \<Rightarrow>
          ubnd
            (if ust_type st = T_DEVICE \<or> ust_type st = T_FILE then
               u_printf S ''%s %d %d %l\<newline>''
                 [AStr (Some (fmtname path)), AInt (scast (ust_type st)), AInt (ust_ino st), APtr (ust_size st)] w
             else if ust_type st = T_DIR then
               if u_strlen path + 1 + DIRSIZ + 1 > 512 then u_printf S ''ls: path too long\<newline>'' [] w
               else ls_loop fuel S fd path w
             else URet () w)
            (\<lambda>_ w. URet () (snd (s_close S fd w))))"

fun ls_paths :: "nat \<Rightarrow> 'w sys \<Rightarrow> uint8 list list \<Rightarrow> 'w \<Rightarrow> (unit, 'w) uout" where
  "ls_paths fuel S [] w = UExit 0 w"
| "ls_paths fuel S (p # ps) w = ubnd (u_ls fuel S p w) (\<lambda>_ w. ls_paths fuel S ps w)"

definition ls_main :: "nat \<Rightarrow> 'w sys \<Rightarrow> uint8 list list \<Rightarrow> 'w \<Rightarrow> (unit, 'w) uout" where
  "ls_main fuel S argv w =
     (if length argv < 2 then ubnd (u_ls fuel S (str ''.'') w) (\<lambda>_ w. UExit 0 w)
      else ls_paths fuel S (tl argv) w)"

section \<open>init\<close>

fun init_wait :: "nat \<Rightarrow> 'w sys \<Rightarrow> int \<Rightarrow> 'w \<Rightarrow> (unit, 'w) uout" where
  "init_wait 0 S pid w = UFuel"
| "init_wait (Suc fuel) S pid w =
     (case s_wait S w of (wpid, w) \<Rightarrow>
      if wpid = pid then URet () w
      else if wpid < 0 then ubnd (u_printf S ''init: wait returned an error\<newline>'' [] w) (\<lambda>_ w. UExit 1 w)
      else init_wait fuel S pid w)"

fun init_loop :: "nat \<Rightarrow> 'w sys \<Rightarrow> 'w \<Rightarrow> (unit, 'w) uout" where
  "init_loop 0 S w = UFuel"
| "init_loop (Suc fuel) S w =
     ubnd (u_printf S ''init: starting sh\<newline>'' [] w) (\<lambda>_ w.
     case s_fork S w of (pid, w) \<Rightarrow>
     if pid < 0 then ubnd (u_printf S ''init: fork failed\<newline>'' [] w) (\<lambda>_ w. UExit 1 w)
     else if pid = 0 then
       (case s_exec S (str ''sh'') [str ''sh''] w of (ok, w) \<Rightarrow>
        if ok then UExec w
        else ubnd (u_printf S ''init: exec sh failed\<newline>'' [] w) (\<lambda>_ w. UExit 1 w))
     else ubnd (init_wait fuel S pid w) (\<lambda>_ w. init_loop fuel S w))"

definition init_main :: "nat \<Rightarrow> 'w sys \<Rightarrow> 'w \<Rightarrow> (unit, 'w) uout" where
  "init_main fuel S w =
     (case s_open S (str ''console'') 2 w of (fd, w) \<Rightarrow>
      let w = (if fd < 0 then
                 let w = snd (s_mknod S (str ''console'') 1 0 w)
                 in snd (s_open S (str ''console'') 2 w)
               else w);
          w = snd (s_dup S 0 w);
          w = snd (s_dup S 0 w)
      in init_loop fuel S w)"

section \<open>cat copies its input\<close>

lemma stream_write:
  assumes "stream S fd inp out"
  obtains w' where "s_write S 1 bs w = (int (length bs), w')" "out w' = out w @ bs" "inp w' = inp w"
  using assms unfolding stream_def by blast

text \<open>C34. \<open>cat\<close> copies its whole input to descriptor 1 and then returns, however \<open>read\<close> cuts the input into pieces;
  it needs at most one round for every byte.\<close>

theorem cat_copies:
  assumes "stream S fd inp out" and "length (inp w) < fuel"
  shows "\<exists>w'. u_cat fuel S fd w = URet () w' \<and> inp w' = [] \<and> out w' = out w @ inp w"
  using assms(2)
proof (induction fuel arbitrary: w)
  case (Suc fuel)
  have "512 \<noteq> (0 :: nat)" by simp
  then obtain bs w1 where rd: "s_read S fd 512 w = (Some bs, w1)" "inp w = bs @ inp w1" "out w1 = out w" "bs = [] \<longrightarrow> inp w = []"
    by (rule stream_read [OF assms(1)])
  obtain w2 where wr: "s_write S 1 bs w1 = (int (length bs), w2)" "out w2 = out w1 @ bs" "inp w2 = inp w1"
    by (rule stream_write [OF assms(1)])
  show ?case
  proof (cases bs)
    case Nil
    then show ?thesis using rd by simp
  next
    case (Cons b bs')
    then have "length (inp w2) < fuel" using Suc.prems rd wr by simp
    then obtain w' where "u_cat fuel S fd w2 = URet () w'" "inp w' = []" "out w' = out w2 @ inp w2" using Suc.IH by blast
    then show ?thesis using rd wr Cons by auto
  qed
qed simp

theorem cat_copies_witness:
  "\<exists>w'. u_cat 6 two_sys 0 (str ''hello'', str ''$ '') = URet () w' \<and> fst w' = [] \<and> snd w' = str ''$ hello''"
proof -
  have "length (str ''hello'') < 6" "str ''$ '' @ str ''hello'' = str ''$ hello''" by code_simp+
  then show ?thesis using cat_copies [OF two_sys_stream, of "(str ''hello'', str ''$ '')" 6] by simp
qed

section \<open>wc counts its input\<close>

definition blank :: "uint8 \<Rightarrow> bool" where
  "blank b \<longleftrightarrow> b \<in> {32, 13, 9, 10, 11}"

text \<open>The words of a text, by the positions where they start.\<close>

definition word_starts :: "uint8 list \<Rightarrow> nat set" where
  "word_starts t = {i. i < length t \<and> \<not> blank (t ! i) \<and> (i = 0 \<or> blank (t ! (i - 1)))}"

definition wc_of :: "uint8 list \<Rightarrow> wc_counts" where
  "wc_of t = \<lparr>wc_l = of_nat (count_list t 10), wc_w = of_nat (card (word_starts t)), wc_c = of_nat (length t),
     wc_inword = (t \<noteq> [] \<and> \<not> blank (last t))\<rparr>"

lemma strchr_blank: "u_strchr [32, 13, 9, 10, 11] b = None \<longleftrightarrow> \<not> blank b"
  by (auto simp: blank_def)

lemma blank_newline [simp]: "blank 10"
  by (simp add: blank_def)

lemma wc_buf_append: "wc_buf (s @ t) k = wc_buf t (wc_buf s k)"
  by (induction s k rule: wc_buf.induct) (auto simp: Let_def)

lemma word_starts_snoc:
  "word_starts (t @ [b]) =
     (if \<not> blank b \<and> (t = [] \<or> blank (last t)) then insert (length t) (word_starts t) else word_starts t)"
  by (cases t rule: rev_cases) (auto simp: word_starts_def nth_append less_Suc_eq)

lemma word_starts_finite [simp]: "finite (word_starts t)" "length t \<notin> word_starts t"
  by (auto simp: word_starts_def)

lemma wc_of_snoc: "wc_buf [b] (wc_of t) = wc_of (t @ [b])"
  by (auto simp: wc_of_def word_starts_snoc strchr_blank Let_def simp del: u_strchr.simps)

lemma wc_of_append: "wc_buf s (wc_of t) = wc_of (t @ s)"
proof (induction s arbitrary: t)
  case (Cons b s)
  have "wc_buf (b # s) (wc_of t) = wc_buf s (wc_buf [b] (wc_of t))" using wc_buf_append [of "[b]"] by simp
  then show ?case using Cons by (simp only: wc_of_snoc append_assoc append_Cons append_Nil)
qed simp

lemma wc_loop_counts:
  assumes "stream S fd inp out"
  shows "length (inp w) < fuel \<Longrightarrow> \<exists>w'. inp w' = [] \<and> out w' = out w \<and>
    wc_loop fuel S fd name (wc_of t) w =
      (let k = wc_of (t @ inp w)
       in u_printf S ''%d %d %d %s\<newline>'' [AInt (wc_l k), AInt (wc_w k), AInt (wc_c k), AStr (Some name)] w')"
proof (induction fuel arbitrary: w t)
  case (Suc fuel)
  have "512 \<noteq> (0 :: nat)" by simp
  then obtain bs w1 where rd: "s_read S fd 512 w = (Some bs, w1)" "inp w = bs @ inp w1" "out w1 = out w" "bs = [] \<longrightarrow> inp w = []"
    by (rule stream_read [OF assms(1)])
  show ?case
  proof (cases bs)
    case Nil
    then show ?thesis using rd by (intro exI [of _ w1]) (simp add: Let_def)
  next
    case (Cons b bs')
    then have "wc_loop (Suc fuel) S fd name (wc_of t) w = wc_loop fuel S fd name (wc_of (t @ bs)) w1"
      using rd wc_of_append [of bs t] by (simp del: wc_buf.simps)
    moreover have "length (inp w1) < fuel" using Suc.prems rd Cons by simp
    ultimately show ?thesis using Suc.IH [of w1 "t @ bs"] rd by simp
  qed
qed simp

text \<open>C33. \<open>wc\<close> reads all its input and prints the number of its newlines, of its words (maximal runs of
  characters that are not blank, counted by the positions where they start) and of its bytes,
  modulo the width of an \<open>int\<close>, however \<open>read\<close> cuts the input into pieces.\<close>

theorem wc_counts_input:
  assumes "stream S fd inp out" and "length (inp w) < fuel"
  shows "\<exists>w'. inp w' = [] \<and> out w' = out w \<and>
    u_wc fuel S fd name w =
      u_printf S ''%d %d %d %s\<newline>''
        [AInt (of_nat (count_list (inp w) 10)), AInt (of_nat (card (word_starts (inp w)))),
         AInt (of_nat (length (inp w))), AStr (Some name)] w'"
proof -
  have "wc_of [] = \<lparr>wc_l = 0, wc_w = 0, wc_c = 0, wc_inword = False\<rparr>" by (simp add: wc_of_def word_starts_def)
  then show ?thesis using wc_loop_counts [OF assms, of name "[]"] by (simp add: u_wc_def wc_of_def)
qed

theorem wc_counts_input_witness:
  "\<exists>w'. fst w' = [] \<and> snd w' = [] \<and>
    u_wc 9 two_sys 0 [] (str ''a  bc\<newline>d'', []) = u_printf two_sys ''%d %d %d %s\<newline>'' [AInt 1, AInt 3, AInt 7, AStr (Some [])] w'"
proof -
  let ?t = "str ''a  bc\<newline>d''"
  have t: "?t = [97, 32, 32, 98, 99, 10, 100]" by code_simp
  have "word_starts ?t = {0, 3, 6}"
    unfolding t by (auto simp: word_starts_def blank_def less_Suc_eq nth_Cons' split: if_splits)
  then have "card (word_starts ?t) = 3" "count_list ?t 10 = 1" "length ?t = 7" by (simp_all add: t)
  then show ?thesis using wc_counts_input [OF two_sys_stream, of "(?t, [])" 9 "[]"] by simp
qed

end
