(* ===== verification/Shell.thy ===== *)
theory Shell
  imports Ulib "HOL-Library.Sublist"
begin

text \<open>
  The shell, \<open>src/user/sh.c\<close>. The parser moves a pointer through the line; the pointer is
  represented by the text from it on. The tree holds pointers into the line as the number of
  characters from there to the end of the line, and \<open>nulterminate\<close> then ends the words by storing NULs
  in the line itself. Allocation of tree nodes succeeds.
\<close>

section \<open>Commands\<close>

type_synonym token = "nat \<times> nat"

datatype 't cmd =
    EXEC "'t list"
  | REDIR "'t cmd" 't uint32 int
  | PIPE "'t cmd" "'t cmd"
  | LIST "'t cmd" "'t cmd"
  | BACK "'t cmd"

definition MAXARGS :: nat where [simp]: "MAXARGS = 10"

definition execcmd :: "token cmd" where
  "execcmd = EXEC []"

definition redircmd :: "token cmd \<Rightarrow> token \<Rightarrow> uint32 \<Rightarrow> int \<Rightarrow> token cmd" where
  "redircmd subcmd file mode fd = REDIR subcmd file mode fd"

definition pipecmd :: "token cmd \<Rightarrow> token cmd \<Rightarrow> token cmd" where
  "pipecmd left right = PIPE left right"

definition listcmd :: "token cmd \<Rightarrow> token cmd \<Rightarrow> token cmd" where
  "listcmd left right = LIST left right"

definition backcmd :: "token cmd \<Rightarrow> token cmd" where
  "backcmd subcmd = BACK subcmd"

section \<open>Tokens\<close>

definition whitespace :: "uint8 list" where
  "whitespace = [32, 9, 13, 10, 11]"

definition symbols :: "uint8 list" where
  "symbols = str ''<|>&;()''"

definition in_str :: "uint8 list \<Rightarrow> uint8 \<Rightarrow> bool" where
  "in_str s c \<longleftrightarrow> u_strchr s c \<noteq> None"

definition skip_ws :: "uint8 list \<Rightarrow> uint8 list" where
  "skip_ws s = dropWhile (in_str whitespace) s"

text \<open>The kind of token, the pointers to its two ends, and the new position.\<close>

definition gettoken :: "uint8 list \<Rightarrow> uint8 \<times> token \<times> uint8 list" where
  "gettoken s =
     (let s = skip_ws s;
          q = length s;
          (ret, s) =
            (if chd s = 0 then (0, s)
             else if chd s \<in> set (str ''|();&<'') then (chd s, tl s)
             else if chd s = of_char CHR ''>'' then
               let s = tl s in if chd s = of_char CHR ''>'' then (of_char CHR ''+'', tl s) else (of_char CHR ''>'', s)
             else (of_char CHR ''a'', dropWhile (\<lambda>c. \<not> in_str whitespace c \<and> \<not> in_str symbols c) s));
          eq = length s
      in (ret, (q, eq), skip_ws s))"

definition peek :: "uint8 list \<Rightarrow> uint8 list \<Rightarrow> bool \<times> uint8 list" where
  "peek s toks = (let s = skip_ws s in (chd s \<noteq> 0 \<and> in_str toks (chd s), s))"

lemma skip_ws_length: "length (skip_ws s) \<le> length s"
  by (simp add: skip_ws_def length_dropWhile_le)

lemma peek_le: "peek s toks = (b, s') \<Longrightarrow> length s' \<le> length s"
  using skip_ws_length [of s] by (auto simp: peek_def Let_def)

text \<open>Every token but the end of the line takes at least one character.\<close>

lemma gettoken_less:
  assumes "gettoken s = (ret, t, s')" "ret \<noteq> 0"
  shows "length s' < length s"
proof -
  define u where "u = skip_ws s"
  define v where "v = (if chd u \<in> set (str ''|();&<'') then tl u
     else if chd u = of_char CHR ''>'' then (if chd (tl u) = of_char CHR ''>'' then tl (tl u) else tl u)
     else dropWhile (\<lambda>c. \<not> in_str whitespace c \<and> \<not> in_str symbols c) u)"
  have s': "chd u \<noteq> 0" "s' = skip_ws v"
    using assms by (auto simp: gettoken_def Let_def u_def v_def split: if_splits)
  then obtain c u' where u: "u = c # u'" by (cases u) auto
  have c: "\<not> in_str whitespace c" using u unfolding u_def skip_ws_def by (metis dropWhile_eq_Cons_conv)
  have sym: "in_str symbols c \<Longrightarrow> c \<in> set (str ''|();&<'') \<or> c = of_char CHR ''>''"
    by (auto simp: in_str_def symbols_def str_def split: if_splits)
  have "length v < length u"
    using u c sym by (auto simp: v_def less_Suc_eq_le length_dropWhile_le)
  then show ?thesis using s' skip_ws_length [of v] skip_ws_length [of s] by (simp add: u_def)
qed

lemma gettoken_le: "gettoken s = (ret, t, s') \<Longrightarrow> length s' \<le> length s"
proof (cases "ret = 0")
  case True
  assume "gettoken s = (ret, t, s')"
  then have "s' = skip_ws (skip_ws s)" using True by (auto simp: gettoken_def Let_def str_def split: if_splits)
  then show ?thesis using skip_ws_length [of s] skip_ws_length [of "skip_ws s"] by simp
qed (auto dest: gettoken_less)

lemma peek_gettoken:
  assumes "peek s toks = (True, s1)" "gettoken s1 = (ret, t, s2)"
  shows "length s2 < length s"
proof -
  have "s1 = skip_ws s" "chd s1 \<noteq> 0" using assms(1) by (auto simp: peek_def Let_def)
  moreover have "skip_ws (skip_ws s) = skip_ws s" by (simp add: skip_ws_def)
  ultimately have "ret \<noteq> 0" using assms(2) by (auto simp: gettoken_def Let_def str_def split: if_splits)
  then show ?thesis using gettoken_less [OF assms(2)] peek_le [OF assms(1)] by simp
qed

lemma peek_gettoken2:
  "peek s toks = (True, s1) \<Longrightarrow> gettoken s1 = (ret, t, s2) \<Longrightarrow> gettoken s2 = (ret', t', s3) \<Longrightarrow> length s3 < length s"
  using peek_gettoken gettoken_le by (blast intro: order.strict_trans1)

section \<open>Parser\<close>

text \<open>The parser returns a value and the new position, or panics. \<open>PFuel\<close> is a run past the given depth
  of calls.\<close>

datatype 'a pres = POk 'a "uint8 list" | PPanic string | PFuel

fun pbnd :: "'a pres \<Rightarrow> ('a \<Rightarrow> uint8 list \<Rightarrow> 'b pres) \<Rightarrow> 'b pres" where
  "pbnd (POk x s) f = f x s"
| "pbnd (PPanic m) f = PPanic m"
| "pbnd PFuel f = PFuel"

definition redir_of :: "uint8 \<Rightarrow> token \<Rightarrow> token cmd \<Rightarrow> token cmd" where
  "redir_of tok file c =
     (if tok = of_char CHR ''<'' then redircmd c file 0 0
      else if tok = of_char CHR ''>'' then redircmd c file (1 OR 0x200 OR 0x400) 1
      else if tok = of_char CHR ''+'' then redircmd c file (1 OR 0x200) 1
      else c)"

function parseredirs :: "token cmd \<Rightarrow> uint8 list \<Rightarrow> token cmd pres" where
  "parseredirs c s =
     (case peek s (str ''<>'') of (b, s1) \<Rightarrow>
      if \<not> b then POk c s1
      else case gettoken s1 of (tok, _, s2) \<Rightarrow>
        case gettoken s2 of (ret, file, s3) \<Rightarrow>
          if ret \<noteq> of_char CHR ''a'' then PPanic ''missing file for redirection''
          else parseredirs (redir_of tok file c) s3)"
  by pat_completeness auto

termination
  by (relation "measure (\<lambda>(c, s). length s)")
     (auto dest: peek_gettoken2 [OF sym sym sym])

text \<open>The \<open>execcmd\<close> under the redirections gets a new argument.\<close>

fun add_arg :: "token \<Rightarrow> token cmd \<Rightarrow> token cmd" where
  "add_arg t (EXEC as) = EXEC (as @ [t])"
| "add_arg t (REDIR c f m fd) = REDIR (add_arg t c) f m fd"
| "add_arg t c = c"

function parseargs :: "nat \<Rightarrow> token cmd \<Rightarrow> uint8 list \<Rightarrow> token cmd pres" where
  "parseargs argc ret s =
     (case peek s (str ''|)&;'') of (b, s) \<Rightarrow>
      if b then POk ret s
      else case gettoken s of (tok, t, s) \<Rightarrow>
        if tok = 0 then POk ret s
        else if tok \<noteq> of_char CHR ''a'' then PPanic ''syntax''
        else if argc + 1 \<ge> MAXARGS then PPanic ''too many args''
        else pbnd (parseredirs (add_arg t ret) s) (\<lambda>ret s. parseargs (argc + 1) ret s))"
  by pat_completeness auto

termination
  by (relation "measure (\<lambda>(argc, ret, s). MAXARGS - argc)") auto

function parse_back :: "token cmd \<Rightarrow> uint8 list \<Rightarrow> token cmd \<times> uint8 list" where
  "parse_back c s =
     (case peek s (str ''&'') of (b, s1) \<Rightarrow>
      if b then (case gettoken s1 of (_, _, s2) \<Rightarrow> parse_back (backcmd c) s2) else (c, s1))"
  by pat_completeness auto

termination
  by (relation "measure (\<lambda>(c, s). length s)") (auto dest: peek_gettoken [OF sym sym])

declare parseredirs.simps [simp del] parseargs.simps [simp del] parse_back.simps [simp del]

fun parseline :: "nat \<Rightarrow> uint8 list \<Rightarrow> token cmd pres"
  and parsepipe :: "nat \<Rightarrow> uint8 list \<Rightarrow> token cmd pres"
  and parseexec :: "nat \<Rightarrow> uint8 list \<Rightarrow> token cmd pres"
  and parseblock :: "nat \<Rightarrow> uint8 list \<Rightarrow> token cmd pres" where
  "parseline 0 s = PFuel"
| "parseline (Suc d) s =
     pbnd (parsepipe d s) (\<lambda>c s.
     case parse_back c s of (c, s) \<Rightarrow>
     case peek s (str '';'') of (b, s) \<Rightarrow>
     if b then
       case gettoken s of (_, _, s) \<Rightarrow> pbnd (parseline d s) (\<lambda>r s. POk (listcmd c r) s)
     else POk c s)"
| "parsepipe 0 s = PFuel"
| "parsepipe (Suc d) s =
     pbnd (parseexec d s) (\<lambda>c s.
     case peek s (str ''|'') of (b, s) \<Rightarrow>
     if b then
       case gettoken s of (_, _, s) \<Rightarrow> pbnd (parsepipe d s) (\<lambda>r s. POk (pipecmd c r) s)
     else POk c s)"
| "parseexec 0 s = PFuel"
| "parseexec (Suc d) s =
     (case peek s (str ''('') of (b, s) \<Rightarrow>
      if b then parseblock d s
      else pbnd (parseredirs execcmd s) (\<lambda>ret s. parseargs 0 ret s))"
| "parseblock 0 s = PFuel"
| "parseblock (Suc d) s =
     (case peek s (str ''('') of (b, s) \<Rightarrow>
      if \<not> b then PPanic ''parseblock''
      else case gettoken s of (_, _, s) \<Rightarrow>
        pbnd (parseline d s) (\<lambda>c s.
        case peek s (str '')'') of (b, s) \<Rightarrow>
        if \<not> b then PPanic ''syntax - missing )''
        else case gettoken s of (_, _, s) \<Rightarrow> parseredirs c s))"

text \<open>\<open>nulterminate\<close> on the line \<open>buf\<close>.\<close>

definition put_nul :: "token \<Rightarrow> uint8 list \<Rightarrow> uint8 list" where
  "put_nul t buf = buf[length buf - snd t := 0]"

fun nulterminate :: "token cmd \<Rightarrow> uint8 list \<Rightarrow> uint8 list" where
  "nulterminate (EXEC as) buf = fold put_nul as buf"
| "nulterminate (REDIR c f m fd) buf = put_nul f (nulterminate c buf)"
| "nulterminate (PIPE l r) buf = nulterminate r (nulterminate l buf)"
| "nulterminate (LIST l r) buf = nulterminate r (nulterminate l buf)"
| "nulterminate (BACK c) buf = nulterminate c buf"

text \<open>The string that a pointer points to.\<close>

definition arg_str :: "uint8 list \<Rightarrow> token \<Rightarrow> uint8 list" where
  "arg_str buf t = cstr (drop (length buf - fst t) buf)"

definition sh_panic :: "'w sys \<Rightarrow> string \<Rightarrow> 'w \<Rightarrow> ('a, 'w) uout" where
  "sh_panic S m w =
     (case u_fprintf S 2 ''%s\<newline>'' [AStr (Some (str m))] w of
        URet _ w \<Rightarrow> UExit 1 w | UExit c w \<Rightarrow> UExit c w | UExec w \<Rightarrow> UExec w | UFuel \<Rightarrow> UFuel)"

text \<open>\<open>parsecmd\<close> returns the tree and the line with the NULs; the depth of calls is at most four for each
  character and four more.\<close>

definition parsecmd :: "'w sys \<Rightarrow> uint8 list \<Rightarrow> 'w \<Rightarrow> (token cmd \<times> uint8 list, 'w) uout" where
  "parsecmd S buf w =
     (let buf = cstr buf
      in case parseline (4 * length buf + 4) buf of
           PFuel \<Rightarrow> UFuel
         | PPanic m \<Rightarrow> sh_panic S m w
         | POk c s \<Rightarrow>
             (let s = snd (peek s [])
              in if s \<noteq> [] then ubnd (u_fprintf S 2 ''leftovers: %s\<newline>'' [AStr (Some s)] w) (\<lambda>_ w. sh_panic S ''syntax'' w)
                 else URet (c, nulterminate c buf) w))"

section \<open>Execution\<close>

definition fork1 :: "'w sys \<Rightarrow> 'w \<Rightarrow> (int, 'w) uout" where
  "fork1 S w = (case s_fork S w of (pid, w) \<Rightarrow> if pid = - 1 then sh_panic S ''fork'' w else URet pid w)"

definition sh_close :: "'w sys \<Rightarrow> int \<Rightarrow> 'w \<Rightarrow> 'w" where
  "sh_close S fd w = snd (s_close S fd w)"

fun runcmd :: "'w sys \<Rightarrow> uint8 list \<Rightarrow> token cmd \<Rightarrow> 'w \<Rightarrow> (unit, 'w) uout" where
  "runcmd S buf (EXEC as) w =
     (case as of
        [] \<Rightarrow> UExit 1 w
      | a # _ \<Rightarrow>
          (case s_exec S (arg_str buf a) (map (arg_str buf) as) w of (ok, w) \<Rightarrow>
           if ok then UExec w
           else ubnd (u_fprintf S 2 ''exec %s failed\<newline>'' [AStr (Some (arg_str buf a))] w) (\<lambda>_ w. UExit 0 w)))"
| "runcmd S buf (REDIR c f mode fd) w =
     (let w = sh_close S fd w
      in case s_open S (arg_str buf f) mode w of (r, w) \<Rightarrow>
         if r < 0 then ubnd (u_fprintf S 2 ''open %s failed\<newline>'' [AStr (Some (arg_str buf f))] w) (\<lambda>_ w. UExit 1 w)
         else runcmd S buf c w)"
| "runcmd S buf (LIST l r) w =
     ubnd (fork1 S w) (\<lambda>pid w.
     if pid = 0 then runcmd S buf l w else runcmd S buf r (snd (s_wait S w)))"
| "runcmd S buf (PIPE l r) w =
     (case s_pipe S w of
        (None, w) \<Rightarrow> sh_panic S ''pipe'' w
      | (Some (p0, p1), w) \<Rightarrow>
          ubnd (fork1 S w) (\<lambda>pid w.
          if pid = 0 then
            runcmd S buf l (sh_close S p1 (sh_close S p0 (snd (s_dup S p1 (sh_close S 1 w)))))
          else
            ubnd (fork1 S w) (\<lambda>pid w.
            if pid = 0 then
              runcmd S buf r (sh_close S p1 (sh_close S p0 (snd (s_dup S p0 (sh_close S 0 w)))))
            else
              UExit 0 (snd (s_wait S (snd (s_wait S (sh_close S p1 (sh_close S p0 w)))))))))"
| "runcmd S buf (BACK c) w =
     ubnd (fork1 S w) (\<lambda>pid w. if pid = 0 then runcmd S buf c w else UExit 0 w)"

text \<open>\<open>getcmd\<close>: \<open>None\<close> at the end of the input.\<close>

definition getcmd :: "'w sys \<Rightarrow> nat \<Rightarrow> 'w \<Rightarrow> uint8 list option \<times> 'w" where
  "getcmd S nbuf w =
     (let w = snd (s_write S 2 (str ''$ '') w)
      in case u_gets S nbuf w of (buf, w) \<Rightarrow> (if chd buf = 0 then None else Some buf, w))"

fun open_console :: "nat \<Rightarrow> 'w sys \<Rightarrow> 'w \<Rightarrow> (unit, 'w) uout" where
  "open_console 0 S w = UFuel"
| "open_console (Suc k) S w =
     (case s_open S (str ''console'') 2 w of (fd, w) \<Rightarrow>
      if fd < 0 then URet () w
      else if fd \<ge> 3 then URet () (sh_close S fd w)
      else open_console k S w)"

fun sh_loop :: "nat \<Rightarrow> 'w sys \<Rightarrow> 'w \<Rightarrow> (unit, 'w) uout" where
  "sh_loop 0 S w = UFuel"
| "sh_loop (Suc k) S w =
     (case getcmd S 100 w of
        (None, w) \<Rightarrow> UExit 0 w
      | (Some buf, w) \<Rightarrow>
          if take 3 buf = str ''cd '' then
            let dir = drop 3 (butlast (cstr buf))
            in case s_chdir S dir w of (r, w) \<Rightarrow>
               ubnd (if r < 0 then u_fprintf S 2 ''cannot cd %s\<newline>'' [AStr (Some dir)] w else URet () w) (\<lambda>_ w. sh_loop k S w)
          else
            ubnd (fork1 S w) (\<lambda>pid w.
            if pid = 0 then ubnd (parsecmd S buf w) (\<lambda>(c, buf) w. runcmd S buf c w)
            else sh_loop k S (snd (s_wait S w))))"

definition sh_main :: "nat \<Rightarrow> 'w sys \<Rightarrow> 'w \<Rightarrow> (unit, 'w) uout" where
  "sh_main k S w = ubnd (open_console k S w) (\<lambda>_ w. sh_loop k S w)"

section \<open>Words of the line\<close>

definition word_char :: "uint8 \<Rightarrow> bool" where
  "word_char c \<longleftrightarrow> \<not> in_str whitespace c \<and> \<not> in_str symbols c"

text \<open>A pointer pair that spans a whole word of the text \<open>s\<close>, and the word.\<close>

definition tok_ok :: "uint8 list \<Rightarrow> token \<Rightarrow> bool" where
  "tok_ok s t \<longleftrightarrow> fst t \<le> length s \<and> snd t = length (dropWhile word_char (drop (length s - fst t) s))"

definition tok_str :: "uint8 list \<Rightarrow> token \<Rightarrow> uint8 list" where
  "tok_str s t = takeWhile word_char (drop (length s - fst t) s)"

fun cmd_toks :: "token cmd \<Rightarrow> token list" where
  "cmd_toks (EXEC as) = as"
| "cmd_toks (REDIR c f m fd) = cmd_toks c @ [f]"
| "cmd_toks (PIPE l r) = cmd_toks l @ cmd_toks r"
| "cmd_toks (LIST l r) = cmd_toks l @ cmd_toks r"
| "cmd_toks (BACK c) = cmd_toks c"

definition toks_ok :: "uint8 list \<Rightarrow> token cmd \<Rightarrow> bool" where
  "toks_ok s c \<longleftrightarrow> list_all (tok_ok s) (cmd_toks c)"

lemma toks_ok_simps [simp]:
  "toks_ok s execcmd" "toks_ok s (redircmd c f m fd) \<longleftrightarrow> toks_ok s c \<and> tok_ok s f"
  "toks_ok s (pipecmd l r) \<longleftrightarrow> toks_ok s l \<and> toks_ok s r" "toks_ok s (listcmd l r) \<longleftrightarrow> toks_ok s l \<and> toks_ok s r"
  "toks_ok s (backcmd c) \<longleftrightarrow> toks_ok s c"
  by (auto simp: toks_ok_def execcmd_def redircmd_def pipecmd_def listcmd_def backcmd_def)

lemma tok_ok_suffix: "suffix s u \<Longrightarrow> tok_ok s t \<Longrightarrow> tok_ok u t"
  by (auto simp: tok_ok_def suffix_def)

lemma tok_str_suffix: "suffix s u \<Longrightarrow> tok_ok s t \<Longrightarrow> tok_str u t = tok_str s t"
  by (auto simp: tok_ok_def tok_str_def suffix_def)

lemma toks_ok_suffix: "toks_ok s c \<Longrightarrow> suffix s u \<Longrightarrow> toks_ok u c"
  by (auto simp: toks_ok_def list_all_iff tok_ok_suffix)

lemma toks_add_arg: "toks_ok s c \<Longrightarrow> tok_ok s t \<Longrightarrow> toks_ok s (add_arg t c)"
  by (induction t c rule: add_arg.induct) (auto simp: toks_ok_def)

lemma toks_redir_of: "toks_ok s c \<Longrightarrow> tok_ok s t \<Longrightarrow> toks_ok s (redir_of tok t c)"
  by (simp add: redir_of_def)

lemma skip_ws_suffix: "suffix (skip_ws s) s"
  by (simp add: skip_ws_def suffix_dropWhile)

lemma tok_ok_self: "tok_ok u (length u, length (dropWhile word_char u))"
  by (simp add: tok_ok_def)

lemma peek_suffix: "peek s toks = (b, s') \<Longrightarrow> suffix s' s"
  using skip_ws_suffix [of s] by (auto simp: peek_def Let_def)

lemma tl_suffix: "suffix (tl s) s"
  by (cases s) (auto simp: suffix_ConsI)

lemma gettoken_suffix:
  assumes "gettoken s = (ret, t, s')"
  shows "suffix s' s"
proof -
  have "suffix (skip_ws v) s" if "suffix v (skip_ws s)" for v
    using that skip_ws_suffix [of s] skip_ws_suffix [of v] suffix_order.trans by blast
  moreover have "suffix (tl (tl u)) u" for u :: "uint8 list" using tl_suffix suffix_order.trans by blast
  ultimately show ?thesis using assms tl_suffix suffix_dropWhile
    by (auto simp: gettoken_def Let_def split: if_splits)
qed

lemma gettoken_word:
  assumes "gettoken s = (of_char CHR ''a'', t, s')"
  shows "tok_ok s t"
proof -
  define u where "u = skip_ws s"
  have "t = (length u, length (dropWhile word_char u))"
    using assms unfolding word_char_def
    by (auto simp: gettoken_def Let_def u_def str_def split: if_splits)
  then show ?thesis using tok_ok_suffix [OF skip_ws_suffix tok_ok_self, of s] by (simp add: u_def)
qed

section \<open>The parser terminates, and its tree spans words of the line\<close>

lemma token_cases: obtains ret t s' where "gettoken s = (ret, t, s')"
  by (cases "gettoken s") auto

lemma peek_cases: obtains (yes) s' where "peek s toks = (True, s')" | (no) s' where "peek s toks = (False, s')"
  by (cases "peek s toks"; cases "fst (peek s toks)") auto

text \<open>A panic, or a tree over words of \<open>s\<close> and a position further on in \<open>s\<close>.\<close>

fun fits :: "uint8 list \<Rightarrow> token cmd pres \<Rightarrow> bool" where
  "fits u (POk c s) \<longleftrightarrow> suffix s u \<and> toks_ok u c"
| "fits u (PPanic m) \<longleftrightarrow> True"
| "fits u PFuel \<longleftrightarrow> False"

lemma fits_mono: "fits s r \<Longrightarrow> suffix s u \<Longrightarrow> fits u r"
  using suffix_order.trans toks_ok_suffix by (cases r) auto

lemma fits_pbnd:
  "fits u r \<Longrightarrow> (\<And>c s. suffix s u \<Longrightarrow> toks_ok u c \<Longrightarrow> fits v (f c s)) \<Longrightarrow> fits v (pbnd r f)"
  by (cases r) auto

lemma fits_parseredirs: "suffix s u \<Longrightarrow> toks_ok u c \<Longrightarrow> fits u (parseredirs c s)"
proof (induction "length s" arbitrary: c s rule: less_induct)
  case less
  show ?case
  proof (cases s "str ''<>''" rule: peek_cases)
    case (yes s1)
    obtain tok t s2 where t1: "gettoken s1 = (tok, t, s2)" by (rule token_cases)
    obtain ret f s3 where t2: "gettoken s2 = (ret, f, s3)" by (rule token_cases)
    have sf: "suffix s2 u" "suffix s3 u"
      using peek_suffix [OF yes] gettoken_suffix [OF t1] gettoken_suffix [OF t2] less.prems(1)
      by (meson suffix_order.trans)+
    have "fits u (parseredirs (redir_of tok f c) s3)" if "ret = of_char CHR ''a''"
    proof -
      have "tok_ok s2 f" by (rule gettoken_word [OF t2 [unfolded that]])
      then have "toks_ok u (redir_of tok f c)" by (intro toks_redir_of less.prems(2) tok_ok_suffix [OF sf(1)])
      then show ?thesis using less.hyps [of s3] peek_gettoken2 [OF yes t1 t2] sf by simp
    qed
    then show ?thesis by (simp add: parseredirs.simps [of c s] yes t1 t2)
  next
    case (no s1)
    then show ?thesis using peek_suffix [OF no] less.prems suffix_order.trans
      by (auto simp: parseredirs.simps [of c s])
  qed
qed

lemma fits_parseargs: "suffix s u \<Longrightarrow> toks_ok u c \<Longrightarrow> fits u (parseargs argc c s)"
proof (induction "MAXARGS - argc" arbitrary: argc c s rule: less_induct)
  case less
  show ?case
  proof (cases s "str ''|)&;''" rule: peek_cases)
    case (no s1)
    obtain tok t s2 where t1: "gettoken s1 = (tok, t, s2)" by (rule token_cases)
    have sf: "suffix s1 u" "suffix s2 u"
      using peek_suffix [OF no] gettoken_suffix [OF t1] less.prems(1) by (meson suffix_order.trans)+
    have "fits u (pbnd (parseredirs (add_arg t c) s2) (\<lambda>c s. parseargs (argc + 1) c s))"
      if "argc + 1 < MAXARGS" "tok = of_char CHR ''a''"
    proof -
      have "tok_ok s1 t" by (rule gettoken_word [OF t1 [unfolded that]])
      then have "toks_ok u (add_arg t c)" by (intro toks_add_arg less.prems(2) tok_ok_suffix [OF sf(1)])
      then show ?thesis using that sf by (intro fits_pbnd [OF fits_parseredirs] less.hyps) auto
    qed
    then show ?thesis using sf less.prems by (simp add: parseargs.simps [of argc c s] no t1)
  next
    case (yes s1)
    then show ?thesis using peek_suffix [OF yes] less.prems suffix_order.trans
      by (auto simp: parseargs.simps [of argc c s])
  qed
qed

lemma fits_parse_back:
  "suffix s u \<Longrightarrow> toks_ok u c \<Longrightarrow> suffix (snd (parse_back c s)) u \<and> toks_ok u (fst (parse_back c s))"
proof (induction "length s" arbitrary: c s rule: less_induct)
  case less
  show ?case
  proof (cases s "str ''&''" rule: peek_cases)
    case (yes s1)
    obtain tok t s2 where t1: "gettoken s1 = (tok, t, s2)" by (rule token_cases)
    have "suffix s2 u"
      using peek_suffix [OF yes] gettoken_suffix [OF t1] less.prems(1) by (meson suffix_order.trans)
    then show ?thesis using less.hyps [of s2 "backcmd c"] less.prems peek_gettoken [OF yes t1]
      by (simp add: parse_back.simps [of c s] yes t1)
  next
    case (no s1)
    then show ?thesis using peek_suffix [OF no] less.prems suffix_order.trans
      by (auto simp: parse_back.simps [of c s])
  qed
qed

text \<open>The steps of the mutual recursion; \<open>u\<close> is the text from some earlier position on.\<close>

lemma peek_token:
  assumes "peek s ts = (True, s1)" "gettoken s1 = (tok, t, s2)"
  shows "suffix s2 s" "length s2 < length s"
  using peek_suffix [OF assms(1)] gettoken_suffix [OF assms(2)] peek_gettoken [OF assms]
  by (auto intro: suffix_order.trans)

lemma fits_parseline_Suc:
  assumes pipe: "fits s (parsepipe d s)"
    and line: "\<And>v. length v < length s \<Longrightarrow> fits v (parseline d v)"
  shows "fits s (parseline (Suc d) s)"
  unfolding parseline.simps
proof (rule fits_pbnd [OF pipe])
  fix c u assume u: "suffix u s" "toks_ok s c"
  obtain c' v where pb: "parse_back c u = (c', v)" by fastforce
  then have v: "suffix v s" "toks_ok s c'" using fits_parse_back [OF u] by auto
  show "fits s (case parse_back c u of (c, s) \<Rightarrow> case peek s (str '';'') of (b, s) \<Rightarrow>
     if b then case gettoken s of (_, _, s) \<Rightarrow> pbnd (parseline d s) (\<lambda>r s. POk (listcmd c r) s) else POk c s)"
  proof (cases v "str '';''" rule: peek_cases)
    case (yes v1)
    obtain tok t v2 where t1: "gettoken v1 = (tok, t, v2)" by (rule token_cases)
    have v2: "suffix v2 s" "length v2 < length s"
      using peek_token [OF yes t1] v(1) suffix_length_le [OF v(1)] by (auto intro: suffix_order.trans)
    have "fits s (pbnd (parseline d v2) (\<lambda>r s. POk (listcmd c' r) s))"
      using v2 v by (auto intro!: fits_pbnd [OF line] intro: suffix_order.trans toks_ok_suffix)
    then show ?thesis by (simp add: pb yes t1)
  next
    case (no v1)
    then show ?thesis using peek_suffix [OF no] v suffix_order.trans by (auto simp: pb)
  qed
qed

lemma fits_parsepipe_Suc:
  assumes exc: "fits s (parseexec d s)"
    and pipe: "\<And>v. length v < length s \<Longrightarrow> fits v (parsepipe d v)"
  shows "fits s (parsepipe (Suc d) s)"
  unfolding parsepipe.simps
proof (rule fits_pbnd [OF exc])
  fix c v assume v: "suffix v s" "toks_ok s c"
  show "fits s (case peek v (str ''|'') of (b, s) \<Rightarrow>
     if b then case gettoken s of (_, _, s) \<Rightarrow> pbnd (parsepipe d s) (\<lambda>r s. POk (pipecmd c r) s) else POk c s)"
  proof (cases v "str ''|''" rule: peek_cases)
    case (yes v1)
    obtain tok t v2 where t1: "gettoken v1 = (tok, t, v2)" by (rule token_cases)
    have v2: "suffix v2 s" "length v2 < length s"
      using peek_token [OF yes t1] v(1) suffix_length_le [OF v(1)] by (auto intro: suffix_order.trans)
    have "fits s (pbnd (parsepipe d v2) (\<lambda>r s. POk (pipecmd c r) s))"
      using v2 v by (auto intro!: fits_pbnd [OF pipe] intro: suffix_order.trans toks_ok_suffix)
    then show ?thesis by (simp add: yes t1)
  next
    case (no v1)
    then show ?thesis using peek_suffix [OF no] v suffix_order.trans by auto
  qed
qed

lemma fits_parseexec_Suc:
  assumes block: "\<And>u. length u \<le> length s \<Longrightarrow> fits u (parseblock d u)"
  shows "fits s (parseexec (Suc d) s)"
proof (cases s "str ''(''" rule: peek_cases)
  case (yes s1)
  have "fits s (parseblock d s1)"
    using peek_suffix [OF yes] by (intro fits_mono [OF block]) (auto simp: suffix_length_le)
  then show ?thesis by (simp add: yes)
next
  case (no s1)
  have "fits s (pbnd (parseredirs execcmd s1) (\<lambda>ret s. parseargs 0 ret s))"
    using peek_suffix [OF no] by (intro fits_pbnd [OF fits_parseredirs] fits_parseargs) auto
  then show ?thesis by (simp add: no)
qed

lemma fits_parseblock_Suc:
  assumes line: "\<And>u. length u < length s \<Longrightarrow> fits u (parseline d u)"
  shows "fits s (parseblock (Suc d) s)"
proof (cases s "str ''(''" rule: peek_cases)
  case (yes s1)
  obtain tok t s2 where t1: "gettoken s1 = (tok, t, s2)" by (rule token_cases)
  have s2: "fits s (parseline d s2)"
    using peek_token [OF yes t1] by (intro fits_mono [OF line])
  have "fits s (pbnd (parseline d s2) (\<lambda>c s. case peek s (str '')'') of (b, s) \<Rightarrow>
      if \<not> b then PPanic ''syntax - missing )''
      else case gettoken s of (_, _, s) \<Rightarrow> parseredirs c s))"
  proof (rule fits_pbnd [OF s2])
    fix c v assume v: "suffix v s" "toks_ok s c"
    show "fits s (case peek v (str '')'') of (b, s) \<Rightarrow> if \<not> b then PPanic ''syntax - missing )''
      else case gettoken s of (_, _, s) \<Rightarrow> parseredirs c s)"
    proof (cases v "str '')''" rule: peek_cases)
      case (yes v1)
      obtain tok t v2 where t2: "gettoken v1 = (tok, t, v2)" by (rule token_cases)
      have "suffix v2 s" using peek_token [OF yes t2] v(1) by (auto intro: suffix_order.trans)
      then show ?thesis using v by (simp add: yes t2 fits_parseredirs)
    qed simp
  qed
  then show ?thesis by (simp add: yes t1)
qed simp

lemma fits_parse:
  "(\<forall>s. 4 * length s + 4 \<le> d \<longrightarrow> fits s (parseline d s)) \<and>
   (\<forall>s. 4 * length s + 3 \<le> d \<longrightarrow> fits s (parsepipe d s)) \<and>
   (\<forall>s. 4 * length s + 2 \<le> d \<longrightarrow> fits s (parseexec d s)) \<and>
   (\<forall>s. 4 * length s + 1 \<le> d \<longrightarrow> fits s (parseblock d s))"
proof (induction d)
  case (Suc d)
  then show ?case
    by (intro conjI allI impI fits_parseline_Suc fits_parsepipe_Suc fits_parseexec_Suc fits_parseblock_Suc) simp_all
qed simp

lemma parseline_fits: "fits s (parseline (4 * length s + 4) s)"
  using fits_parse [of "4 * length s + 4"] by simp

lemma u_fprintf_s: "\<exists>w'. u_fprintf S fd ''%s\<newline>'' [AStr t] w = URet () w'"
  by (simp add: u_fprintf_def u_vprintf_def str_def)

lemma u_fprintf_leftovers: "\<exists>w'. u_fprintf S fd ''leftovers: %s\<newline>'' [AStr t] w = URet () w'"
  by (simp add: u_fprintf_def u_vprintf_def str_def)

lemma sh_panic_exits: "\<exists>w'. sh_panic S m w = UExit 1 w'"
  using u_fprintf_s [of S 2 "Some (str m)" w] by (auto simp: sh_panic_def)

lemma sh_panic_not_ret [simp]: "sh_panic S m w \<noteq> URet x w'"
  by (simp add: sh_panic_def split: uout.split)

text \<open>C16. The parser of the shell terminates on every line: \<open>parsecmd\<close> returns a command, or reports a syntax error and
  exits with status 1. The recursion of \<open>parseline\<close>, \<open>parsepipe\<close>, \<open>parseexec\<close> and \<open>parseblock\<close> is never deeper than four
  calls for each character of the line and four more.\<close>

theorem parsecmd_terminates:
  "(\<exists>r w'. parsecmd S buf w = URet r w') \<or> (\<exists>w'. parsecmd S buf w = UExit 1 w')"
proof (cases "parseline (4 * length (cstr buf) + 4) (cstr buf)")
  case (POk c s)
  obtain w' where "u_fprintf S 2 ''leftovers: %s\<newline>'' [AStr (Some (snd (peek s [])))] w = URet () w'"
    using u_fprintf_leftovers [of S 2 "Some (snd (peek s []))" w] by blast
  then show ?thesis using sh_panic_exits [of S "''syntax''" w'] POk by (auto simp: parsecmd_def Let_def)
next
  case (PPanic m)
  then show ?thesis using sh_panic_exits [of S m w] by (auto simp: parsecmd_def Let_def)
next
  case PFuel
  then show ?thesis using parseline_fits [of "cstr buf"] by simp
qed

section \<open>The words are terminated\<close>

lemma nulterminate_fold: "nulterminate c buf = fold put_nul (cmd_toks c) buf"
  by (induction c arbitrary: buf) auto

definition keeps_words :: "uint8 list \<Rightarrow> uint8 list \<Rightarrow> bool" where
  "keeps_words s buf \<longleftrightarrow> length buf = length s \<and> (\<forall>i < length s. word_char (s ! i) \<longrightarrow> buf ! i = s ! i)"

lemma takeWhile_dropWhile_length: "length (takeWhile P u) + length (dropWhile P u) = length u"
  by (metis length_append takeWhile_dropWhile_id)

lemma dropWhile_drop: "dropWhile P u = drop (length u - length (dropWhile P u)) u"
  using takeWhile_dropWhile_length [of P u] dropWhile_eq_drop [of P u] by (metis add_diff_cancel_right')

lemma nth_update_if: "i < length xs \<Longrightarrow> xs[j := v] ! i = (if i = j then v else xs ! i)"
  by auto

lemma tok_ok_end:
  assumes "tok_ok s t" "0 < snd t"
  shows "length s - snd t < length s" "\<not> word_char (s ! (length s - snd t))"
proof -
  define u where "u = drop (length s - fst t) s"
  have u: "length u = fst t" "fst t \<le> length s" "snd t = length (dropWhile word_char u)"
    using assms(1) by (auto simp: tok_ok_def u_def)
  have le: "snd t \<le> length s" using u length_dropWhile_le [of word_char u] by simp
  have "length u - snd t + (length s - fst t) = length s - snd t"
    using u length_dropWhile_le [of word_char u] by simp
  then have "drop (length u - snd t) u = drop (length s - snd t) s" by (simp add: u_def add.commute)
  then have dw: "dropWhile word_char u = drop (length s - snd t) s"
    using dropWhile_drop [of word_char u] u(3) by simp
  show less: "length s - snd t < length s" using le assms(2) by simp
  have "dropWhile word_char u \<noteq> []" using assms(2) u(3) by auto
  then have "\<not> word_char (hd (dropWhile word_char u))" by (rule hd_dropWhile)
  then show "\<not> word_char (s ! (length s - snd t))" using less by (simp add: dw hd_drop_conv_nth)
qed

lemma put_nul_keeps: "tok_ok s t \<Longrightarrow> keeps_words s buf \<Longrightarrow> keeps_words s (put_nul t buf)"
  using tok_ok_end [of s t] by (cases "snd t = 0") (auto simp: keeps_words_def put_nul_def nth_update_if)

lemma put_nuls_keep: "list_all (tok_ok s) ts \<Longrightarrow> keeps_words s buf \<Longrightarrow> keeps_words s (fold put_nul ts buf)"
  by (induction ts arbitrary: buf) (auto simp: put_nul_keeps)

lemma put_nuls_zero:
  "0 < k \<Longrightarrow> k \<le> length buf \<Longrightarrow> k \<in> snd ` set ts \<or> buf ! (length buf - k) = 0 \<Longrightarrow>
   fold put_nul ts buf ! (length buf - k) = 0"
proof (induction ts arbitrary: buf)
  case (Cons t ts)
  have "k \<in> snd ` set ts \<or> put_nul t buf ! (length buf - k) = 0"
    using Cons.prems by (auto simp: put_nul_def nth_update_if)
  then show ?case using Cons.IH [of "put_nul t buf"] Cons.prems by (simp add: put_nul_def)
qed auto

lemma cstr_prefix: "0 \<notin> set w \<Longrightarrow> r = [] \<or> hd r = 0 \<Longrightarrow> cstr (w @ r) = w"
  by (cases r) (auto simp: cstr_def takeWhile_append)

lemma arg_str_words:
  assumes ok: "list_all (tok_ok s) ts" and t: "t \<in> set ts" and nz: "0 \<notin> set s"
  shows "arg_str (fold put_nul ts s) t = tok_str s t"
proof -
  let ?b = "fold put_nul ts s" and ?n = "length s"
  define u where "u = drop (?n - fst t) s"
  define w where "w = takeWhile word_char u"
  have tok: "tok_ok s t" using ok t by (auto simp: list_all_iff)
  then have u: "length u = fst t" "fst t \<le> ?n" "snd t = length (dropWhile word_char u)"
    by (auto simp: tok_ok_def u_def)
  have lw: "length w + snd t = fst t"
    using u takeWhile_dropWhile_length [of word_char u] by (simp add: w_def)
  have kw: "keeps_words s ?b" using put_nuls_keep [OF ok, of s] by (simp add: keeps_words_def)
  then have len: "length ?b = ?n" by (simp add: keeps_words_def)
  have "take (length w) (drop (?n - fst t) ?b) = w"
  proof (rule nth_equalityI)
    fix i assume "i < length (take (length w) (drop (?n - fst t) ?b))"
    then have i: "i < length w" "?n - fst t + i < ?n" using lw u(2) len by auto
    have wi: "w ! i = s ! (?n - fst t + i)" using i u by (simp add: w_def takeWhile_nth u_def)
    moreover have "word_char (w ! i)" using i by (metis nth_mem set_takeWhileD w_def)
    ultimately have "?b ! (?n - fst t + i) = w ! i" using kw i by (auto simp: keeps_words_def)
    then show "take (length w) (drop (?n - fst t) ?b) ! i = w ! i" using i len by simp
  qed (use lw u(2) len in simp)
  moreover have shift: "drop (length w) (drop (?n - fst t) ?b) = drop (?n - snd t) ?b"
  proof -
    have "length w + (?n - fst t) = ?n - snd t" using lw u(2) by simp
    then show ?thesis by simp
  qed
  ultimately have "drop (?n - fst t) ?b = w @ drop (?n - snd t) ?b"
    using append_take_drop_id [of "length w" "drop (?n - fst t) ?b"] shift by simp
  moreover have "drop (?n - snd t) ?b = [] \<or> hd (drop (?n - snd t) ?b) = 0"
    using put_nuls_zero [of "snd t" s ts] t lw u(2) len by (cases "snd t = 0") (auto simp: hd_drop_conv_nth)
  moreover have "0 \<notin> set w" using nz unfolding w_def u_def by (meson in_set_dropD set_takeWhileD)
  ultimately show ?thesis by (simp add: arg_str_def len cstr_prefix tok_str_def w_def u_def)
qed

lemma set_cmd_toks: "set_cmd c = set (cmd_toks c)"
  by (induction c) auto

lemma cstr_nonzero: "0 \<notin> set (cstr s)"
  by (auto simp: cstr_def dest: set_takeWhileD)



end
