(* ===== verification/Shellprint.thy ===== *)
theory Shellprint
  imports Shell
begin

text \<open>
  The parser of the shell against a printer: every command tree over proper words is found
  again from its text.
\<close>

section \<open>Printing\<close>

definition redir_sym :: "uint32 \<Rightarrow> int \<Rightarrow> uint8 list" where
  "redir_sym m fd = (if fd = 0 then str ''<'' else if m = 0x601 then str ''>'' else str ''>>'')"

fun show_cmd :: "uint8 list cmd \<Rightarrow> uint8 list" where
  "show_cmd (EXEC ws) = concat (map (\<lambda>w. w @ str '' '') ws)"
| "show_cmd (REDIR c f m fd) = str ''('' @ show_cmd c @ str '')'' @ redir_sym m fd @ f"
| "show_cmd (PIPE l r) = str ''('' @ show_cmd l @ str '')|('' @ show_cmd r @ str '')''"
| "show_cmd (LIST l r) = str ''('' @ show_cmd l @ str '');('' @ show_cmd r @ str '')''"
| "show_cmd (BACK c) = str ''('' @ show_cmd c @ str '')&''"

definition wf_word :: "uint8 list \<Rightarrow> bool" where
  "wf_word w \<longleftrightarrow> w \<noteq> [] \<and> list_all word_char w \<and> 0 \<notin> set w"

fun wf_cmd :: "uint8 list cmd \<Rightarrow> bool" where
  "wf_cmd (EXEC ws) \<longleftrightarrow> length ws < MAXARGS \<and> list_all wf_word ws"
| "wf_cmd (REDIR c f m fd) \<longleftrightarrow> wf_cmd c \<and> wf_word f \<and> (m, fd) \<in> {(0, 0), (0x601, 1), (0x201, 1)}"
| "wf_cmd (PIPE l r) \<longleftrightarrow> wf_cmd l \<and> wf_cmd r"
| "wf_cmd (LIST l r) \<longleftrightarrow> wf_cmd l \<and> wf_cmd r"
| "wf_cmd (BACK c) \<longleftrightarrow> wf_cmd c"

section \<open>Tokens of printed text\<close>

lemma str_chars [simp]:
  "str ''('' = [40]" "str '')'' = [41]" "str ''|'' = [124]" "str '';'' = [59]" "str ''&'' = [38]"
  "str ''<'' = [60]" "str ''>'' = [62]" "str ''>>'' = [62, 62]" "str '' '' = [32]" "str ''<>'' = [60, 62]"
  "str ''|)&;'' = [124, 41, 38, 59]" "str '')|('' = [41, 124, 40]" "str '');('' = [41, 59, 40]" "str '')&'' = [41, 38]"
  "str ''|();&<'' = [124, 40, 41, 59, 38, 60]" "symbols = [60, 124, 62, 38, 59, 40, 41]"
  by (simp_all add: str_def symbols_def)

definition solid :: "uint8 list \<Rightarrow> bool" where
  "solid s \<longleftrightarrow> s = [] \<or> \<not> in_str whitespace (hd s)"

lemma skip_solid [simp]: "solid s \<Longrightarrow> skip_ws s = s"
  by (cases s) (auto simp: skip_ws_def solid_def)

lemma in_str_simps [simp]: "in_str [] c \<longleftrightarrow> False" "in_str (x # s) c \<longleftrightarrow> x \<noteq> 0 \<and> (x = c \<or> in_str s c)"
  by (simp_all add: in_str_def)

lemma solid_symbol [simp]:
  "x \<in> {40, 41, 124, 59, 38, 60, 62} \<Longrightarrow> solid (x # s)"
  by (auto simp: solid_def whitespace_def)

lemma word_solid: "wf_word w \<Longrightarrow> solid (w @ s)"
  by (cases w) (auto simp: wf_word_def solid_def word_char_def)

lemma peek_solid: "solid s \<Longrightarrow> peek s ts = (chd s \<noteq> 0 \<and> in_str ts (chd s), s)"
  by (simp add: peek_def)

lemma gettoken_symbol:
  "x \<in> {40, 41, 124, 59, 38, 60} \<Longrightarrow> \<exists>t. gettoken (x # s) = (x, t, skip_ws s)"
  by (auto simp: gettoken_def Let_def)

lemma gettoken_gt:
  "chd s \<noteq> 62 \<Longrightarrow> \<exists>t. gettoken (62 # s) = (62, t, skip_ws s)"
  "\<exists>t. gettoken (62 # 62 # s) = (43, t, skip_ws s)"
  by (auto simp: gettoken_def Let_def)

lemma gettoken_word_app:
  assumes "wf_word w" "r = [] \<or> \<not> word_char (hd r)"
  shows "gettoken (w @ r) = (97, (length (w @ r), length r), skip_ws r)"
proof -
  obtain c w' where w: "w = c # w'" using assms(1) by (cases w) (auto simp: wf_word_def)
  have "dropWhile word_char (w @ r) = r"
    using assms by (cases r) (auto simp: wf_word_def list_all_iff dropWhile_append)
  moreover have "word_char c" "c \<noteq> 0" using assms(1) by (auto simp: wf_word_def w)
  ultimately show ?thesis using word_solid [OF assms(1), of r]
    by (auto simp: gettoken_def Let_def w word_char_def [abs_def])
qed

lemma tok_str_word:
  assumes "wf_word w" "r = [] \<or> \<not> word_char (hd r)"
  shows "tok_str (w @ r) (length (w @ r), length r) = w"
  using assms by (cases r) (auto simp: tok_str_def wf_word_def list_all_iff takeWhile_append)

section \<open>Parsing printed text\<close>

declare parseline.simps [simp del] parsepipe.simps [simp del] parseexec.simps [simp del] parseblock.simps [simp del]

text \<open>What follows a line: the end or a closing parenthesis.\<close>

definition clean :: "uint8 list \<Rightarrow> bool" where
  "clean r \<longleftrightarrow> r = [] \<or> hd r = 41"

lemma clean_cases: "clean r \<Longrightarrow> (r = [] \<Longrightarrow> P) \<Longrightarrow> (\<And>r'. r = 41 # r' \<Longrightarrow> P) \<Longrightarrow> P"
  by (cases r) (auto simp: clean_def)

lemma cleanD:
  assumes "clean r"
  shows "solid r" "r = [] \<or> \<not> word_char (hd r)" "peek r [60, 62] = (False, r)" "peek r [124] = (False, r)"
    "peek r [38] = (False, r)" "peek r [59] = (False, r)" "peek r [40] = (False, r)"
  using assms by (auto elim!: clean_cases simp: peek_solid solid_def whitespace_def word_char_def)

lemma parseredirs_none: "peek s [60, 62] = (False, s') \<Longrightarrow> parseredirs c s = POk c s'"
  by (simp add: parseredirs.simps [of c s])

lemma word_head:
  assumes "wf_word w"
  obtains c w' where "w = c # w'" "c \<noteq> 0" "\<not> in_str whitespace c" "c \<notin> {60, 124, 62, 38, 59, 40, 41}"
  using assms that by (cases w) (auto simp: wf_word_def word_char_def)

lemma peek_word:
  assumes "wf_word w" "set ts \<subseteq> {60, 124, 62, 38, 59, 40, 41}"
  shows "peek (w @ r) ts = (False, w @ r)"
proof -
  obtain c w' where w: "w = c # w'" "c \<notin> {60, 124, 62, 38, 59, 40, 41}" using assms(1) by (rule word_head)
  have "\<not> in_str ts c" using assms(2) w(2) by (induction ts) auto
  then show ?thesis using word_solid [OF assms(1), of r] w by (simp add: peek_solid)
qed

lemma show_words:
  assumes "list_all wf_word ws" "clean r"
  defines "s \<equiv> show_cmd (EXEC ws) @ r"
  shows "solid s" "peek s [60, 62] = (False, s)" "peek s [40] = (False, s)"
proof -
  have "solid s \<and> peek s [60, 62] = (False, s) \<and> peek s [40] = (False, s)"
  proof (cases ws)
    case Nil
    then show ?thesis using cleanD [OF assms(2)] by (simp add: s_def)
  next
    case (Cons w ws')
    then show ?thesis using assms(1) word_solid [of w] peek_word [of w "[60, 62]"] peek_word [of w "[40]"] by (simp add: s_def)
  qed
  then show "solid s" "peek s [60, 62] = (False, s)" "peek s [40] = (False, s)" by auto
qed

lemma parse_words:
  "list_all wf_word ws \<Longrightarrow> argc + length ws < MAXARGS \<Longrightarrow> clean r \<Longrightarrow>
   \<exists>tks. parseargs argc (EXEC ts) (show_cmd (EXEC ws) @ r) = POk (EXEC (ts @ tks)) r \<and>
         list_all (tok_ok (show_cmd (EXEC ws) @ r)) tks \<and> map (tok_str (show_cmd (EXEC ws) @ r)) tks = ws"
proof (induction ws arbitrary: argc ts)
  case Nil
  have "gettoken [] = (0, (0, 0), [])" by (simp add: gettoken_def skip_ws_def)
  then show ?case using Nil(3)
    by (auto elim!: clean_cases simp: parseargs.simps [of argc] peek_solid solid_def whitespace_def)
next
  case (Cons w ws)
  define u where "u = show_cmd (EXEC ws) @ r"
  define s where "s = w @ 32 # u"
  define t where "t = (length s, length (32 # u))"
  have w: "wf_word w" and ws: "list_all wf_word ws" using Cons.prems by auto
  have d: "(32 # u) = [] \<or> \<not> word_char (hd (32 # u))" by (simp add: word_char_def whitespace_def)
  have u: "solid u" "parseredirs c u = POk c u" for c
    using show_words [OF ws Cons.prems(3)] parseredirs_none unfolding u_def by blast+
  have "skip_ws (32 # u) = skip_ws u" by (simp add: skip_ws_def whitespace_def)
  then have tok: "gettoken s = (97, t, u)" using gettoken_word_app [OF w d] u(1) by (simp add: s_def t_def)
  obtain tks where tks: "parseargs (Suc argc) (EXEC (ts @ [t])) u = POk (EXEC ((ts @ [t]) @ tks)) r"
      "list_all (tok_ok u) tks" "map (tok_str u) tks = ws"
    using Cons.IH [OF ws _ Cons.prems(3), of "Suc argc" "ts @ [t]"] Cons.prems(2) unfolding u_def by auto
  have "parseargs argc (EXEC ts) s = POk (EXEC (ts @ t # tks)) r"
    using peek_word [OF w, of "[124, 41, 38, 59]" "32 # u"] Cons.prems(2) tks(1) tok u(2) unfolding s_def [symmetric]
    by (simp add: parseargs.simps [of argc])
  moreover have "suffix u s" by (simp add: suffix_def s_def)
  then have "list_all (tok_ok s) tks" "map (tok_str s) tks = ws"
    using tks(2,3) tok_ok_suffix tok_str_suffix by (auto simp: list_all_iff cong: map_cong)
  moreover have "tok_ok s t" using gettoken_word [of s t u] tok by simp
  moreover have "tok_str s t = w" unfolding s_def t_def by (rule tok_str_word [OF w d])
  moreover have "show_cmd (EXEC (w # ws)) @ r = s" by (simp add: s_def u_def)
  ultimately show ?case by (intro exI [of _ "t # tks"]) (simp del: show_cmd.simps)
qed

lemma parse_redir:
  assumes "wf_word f" "clean r" "(m, fd) \<in> {(0, 0), (0x601, 1), (0x201, 1)}"
  shows "parseredirs c (redir_sym m fd @ f @ r) = POk (REDIR c (length (f @ r), length r) m fd) r"
proof -
  note r = cleanD [OF assms(2)]
  have tok: "gettoken (f @ r) = (97, (length (f @ r), length r), r)"
    using gettoken_word_app [OF assms(1) r(2)] r(1) by simp
  have sol: "skip_ws (f @ r) = f @ r" using word_solid [OF assms(1)] by simp
  have hd: "chd (f @ r) \<noteq> 62" using assms(1) by (auto elim!: word_head)
  obtain tok t where "gettoken (redir_sym m fd @ f @ r) = (tok, t, f @ r)"
      "\<forall>c g. redir_of tok g c = REDIR c g m fd"
    using assms(3) gettoken_symbol [of 60 "f @ r"] gettoken_gt(1) [OF hd] gettoken_gt(2) [of "f @ r"] sol
    by (auto simp: redir_sym_def redir_of_def redircmd_def)
  moreover have "peek (redir_sym m fd @ f @ r) [60, 62] = (True, redir_sym m fd @ f @ r)"
    using assms(3) by (auto simp: redir_sym_def peek_solid)
  moreover have "parseredirs c' r = POk c' r" for c' using parseredirs_none [OF r(3)] .
  ultimately show ?thesis by (simp add: parseredirs.simps [of c] tok)
qed

section \<open>Round trip\<close>

text \<open>The text from \<open>s\<close> on parses to the tree \<open>t\<close> and leaves \<open>r\<close>.\<close>

definition gives :: "uint8 list \<Rightarrow> uint8 list cmd \<Rightarrow> uint8 list \<Rightarrow> token cmd pres \<Rightarrow> bool" where
  "gives s t r p \<longleftrightarrow> (\<exists>c. p = POk c r \<and> toks_ok s c \<and> map_cmd (tok_str s) c = t)"

lemma map_tok_suffix: "suffix s u \<Longrightarrow> toks_ok s c \<Longrightarrow> map_cmd (tok_str u) c = map_cmd (tok_str s) c"
  by (rule cmd.map_cong0) (auto simp: set_cmd_toks toks_ok_def list_all_iff tok_str_suffix)

lemma gives_suffix: "gives s t r p \<Longrightarrow> suffix s u \<Longrightarrow> gives u t r p"
  unfolding gives_def using map_tok_suffix toks_ok_suffix by metis

lemma gives_pbnd:
  assumes "gives s t r p"
    and "\<And>c. toks_ok s c \<Longrightarrow> map_cmd (tok_str s) c = t \<Longrightarrow> gives u t' r' (f c r)"
  shows "gives u t' r' (pbnd p f)"
  using assms by (auto simp: gives_def)

lemma show_solid: "wf_cmd t \<Longrightarrow> clean r \<Longrightarrow> solid (show_cmd t @ r)"
  using show_words(1) by (cases t) (auto simp del: show_cmd.simps(1) simp: solid_symbol)

lemma parse_paren:
  assumes line: "gives (show_cmd t @ 41 # r) t (41 # r) (parseline d (show_cmd t @ 41 # r))"
    and t: "wf_cmd t" and r: "solid r"
  shows "\<exists>c. parseexec (Suc (Suc d)) (40 # show_cmd t @ 41 # r) = parseredirs c r \<and>
             toks_ok (40 # show_cmd t @ 41 # r) c \<and> map_cmd (tok_str (40 # show_cmd t @ 41 # r)) c = t"
proof -
  let ?s = "show_cmd t @ 41 # r"
  have sol: "skip_ws ?s = ?s" using show_solid [OF t, of "41 # r"] by (simp add: clean_def)
  obtain t1 where "gettoken (40 # ?s) = (40, t1, ?s)" using gettoken_symbol [of 40 ?s] sol by auto
  moreover obtain t2 where "gettoken (41 # r) = (41, t2, r)" using gettoken_symbol [of 41 r] r by auto
  moreover obtain c where "parseline d ?s = POk c (41 # r)" "toks_ok ?s c" "map_cmd (tok_str ?s) c = t"
    using line by (auto simp: gives_def)
  moreover from this have "toks_ok (40 # ?s) c" "map_cmd (tok_str (40 # ?s)) c = t"
    using map_tok_suffix [of ?s "40 # ?s" c] toks_ok_suffix [of ?s c "40 # ?s"] by (auto simp: suffix_ConsI)
  ultimately show ?thesis by (intro exI [of _ c]) (simp add: peek_solid parseexec.simps parseblock.simps)
qed

lemma parseline_clean:
  assumes "gives s t r (parsepipe d s)" "clean r"
  shows "gives s t r (parseline (Suc d) s)"
proof -
  have "parse_back c r = (c, r)" for c using cleanD(5) [OF assms(2)] by (simp add: parse_back.simps [of c r])
  then show ?thesis using assms(1) cleanD(6) [OF assms(2)] by (auto simp: gives_def parseline.simps)
qed

lemma parsepipe_clean:
  assumes "gives s t r (parseexec d s)" "clean r"
  shows "gives s t r (parsepipe (Suc d) s)"
  using assms(1) cleanD(4) [OF assms(2)] by (auto simp: gives_def parsepipe.simps)

lemma gives_paren:
  assumes "gives (show_cmd t @ 41 # r) t (41 # r) (parseline d (show_cmd t @ 41 # r))" "wf_cmd t" "solid r"
    "peek r [60, 62] = (False, r)"
  shows "gives (40 # show_cmd t @ 41 # r) t r (parseexec (Suc (Suc d)) (40 # show_cmd t @ 41 # r))"
  using parse_paren [OF assms(1-3)] parseredirs_none [OF assms(4)] by (auto simp: gives_def)

lemma parse_exec:
  assumes "wf_cmd (EXEC ws)" "clean r"
  shows "gives (show_cmd (EXEC ws) @ r) (EXEC ws) r (parseexec (Suc d) (show_cmd (EXEC ws) @ r))"
proof -
  have ws: "list_all wf_word ws" "0 + length ws < MAXARGS" using assms by auto
  define s where "s = show_cmd (EXEC ws) @ r"
  note s = show_words [OF ws(1) assms(2), folded s_def]
  obtain tks where "parseargs 0 (EXEC []) s = POk (EXEC ([] @ tks)) r" "list_all (tok_ok s) tks" "map (tok_str s) tks = ws"
    using parse_words [OF ws assms(2), of "[]"] unfolding s_def by blast
  then have "gives s (EXEC ws) r (parseexec (Suc d) s)"
    using s(3) parseredirs_none [OF s(2), of execcmd] by (simp add: gives_def execcmd_def toks_ok_def parseexec.simps)
  then show ?thesis by (simp only: s_def)
qed

lemma peek_symbol:
  "x \<in> {40, 41, 124, 59, 38, 60, 62} \<Longrightarrow> peek (x # s) ts = (in_str ts x, x # s)"
  by (auto simp: peek_solid)

lemma parse_redir_cmd:
  assumes line: "gives (show_cmd t @ 41 # q) t (41 # q) (parseline d (show_cmd t @ 41 # q))"
    and q: "q = redir_sym m fd @ f @ r" and wf: "wf_cmd (REDIR t f m fd)" and r: "clean r"
  shows "gives (40 # show_cmd t @ 41 # q) (REDIR t f m fd) r (parseexec (Suc (Suc d)) (40 # show_cmd t @ 41 # q))"
proof -
  let ?s = "40 # show_cmd t @ 41 # q" and ?t = "(length (f @ r), length r)"
  have f: "wf_word f" "(m, fd) \<in> {(0, 0), (0x601, 1), (0x201, 1)}" "wf_cmd t" using wf by auto
  have "solid q" using f(2) by (auto simp: q redir_sym_def)
  then obtain c where c: "parseexec (Suc (Suc d)) ?s = parseredirs c q" "toks_ok ?s c" "map_cmd (tok_str ?s) c = t"
    using parse_paren [OF line f(3)] by blast
  have tf: "tok_ok (f @ r) ?t" "tok_str (f @ r) ?t = f"
    using gettoken_word [of "f @ r" ?t] gettoken_word_app [OF f(1) cleanD(2) [OF r]] tok_str_word [OF f(1) cleanD(2) [OF r]] by simp_all
  have "suffix (f @ r) ?s" by (simp add: q suffix_def)
  then have "tok_ok ?s ?t" "tok_str ?s ?t = f" using tf tok_ok_suffix tok_str_suffix by metis+
  then show ?thesis using c parse_redir [OF f(1) r f(2), of c] by (simp add: gives_def q toks_ok_def)
qed

lemma parse_pipe_cmd:
  assumes left: "gives (show_cmd t @ 41 # 124 # q) t (41 # 124 # q) (parseline d (show_cmd t @ 41 # 124 # q))"
    and right: "gives q t' r (parsepipe (Suc (Suc d)) q)"
    and wf: "wf_cmd t" and q: "solid q"
  shows "gives (40 # show_cmd t @ 41 # 124 # q) (PIPE t t') r
           (parsepipe (Suc (Suc (Suc d))) (40 # show_cmd t @ 41 # 124 # q))"
proof -
  let ?s = "40 # show_cmd t @ 41 # 124 # q"
  obtain tk where tk: "gettoken (124 # q) = (124, tk, q)" using gettoken_symbol [of 124 q] q by auto
  have suf: "suffix q ?s" by (simp add: suffix_def)
  have "gives ?s t (124 # q) (parseexec (Suc (Suc d)) ?s)"
    by (rule gives_paren [OF left wf]) (simp_all add: peek_symbol)
  then have "gives ?s (PIPE t t') r (pbnd (parseexec (Suc (Suc d)) ?s) (\<lambda>c s.
     case peek s (str ''|'') of (b, s) \<Rightarrow>
     if b then case gettoken s of (_, _, s) \<Rightarrow> pbnd (parsepipe (Suc (Suc d)) s) (\<lambda>r s. POk (pipecmd c r) s) else POk c s))"
  proof (rule gives_pbnd)
    fix c assume "toks_ok ?s c" "map_cmd (tok_str ?s) c = t"
    then show "gives ?s (PIPE t t') r (case peek (124 # q) (str ''|'') of (b, s) \<Rightarrow>
       if b then case gettoken s of (_, _, s) \<Rightarrow> pbnd (parsepipe (Suc (Suc d)) s) (\<lambda>r s. POk (pipecmd c r) s) else POk c s)"
      using gives_suffix [OF right suf] by (auto simp: gives_def peek_symbol tk) (simp add: pipecmd_def)
  qed
  then show ?thesis by (simp only: parsepipe.simps)
qed

lemma parse_list_cmd:
  assumes left: "gives (show_cmd t @ 41 # 59 # q) t (41 # 59 # q) (parseline d (show_cmd t @ 41 # 59 # q))"
    and right: "gives q t' r (parseline (Suc (Suc (Suc d))) q)"
    and wf: "wf_cmd t" and q: "solid q"
  shows "gives (40 # show_cmd t @ 41 # 59 # q) (LIST t t') r
           (parseline (Suc (Suc (Suc (Suc d)))) (40 # show_cmd t @ 41 # 59 # q))"
proof -
  let ?s = "40 # show_cmd t @ 41 # 59 # q"
  obtain tk where tk: "gettoken (59 # q) = (59, tk, q)" using gettoken_symbol [of 59 q] q by auto
  have suf: "suffix q ?s" by (simp add: suffix_def)
  have pb: "parse_back c (59 # q) = (c, 59 # q)" for c by (simp add: parse_back.simps [of c] peek_symbol)
  have "gives ?s t (59 # q) (parseexec (Suc (Suc d)) ?s)"
    by (rule gives_paren [OF left wf]) (simp_all add: peek_symbol)
  then obtain c where c: "parsepipe (Suc (Suc (Suc d))) ?s = POk c (59 # q)" "toks_ok ?s c" "map_cmd (tok_str ?s) c = t"
    by (auto simp: gives_def peek_symbol parsepipe.simps)
  obtain c' where "parseline (Suc (Suc (Suc d))) q = POk c' r" "toks_ok ?s c'" "map_cmd (tok_str ?s) c' = t'"
    using gives_suffix [OF right suf] by (auto simp: gives_def)
  then have "parseline (Suc (Suc (Suc (Suc d)))) ?s = POk (listcmd c c') r"
    by (simp add: parseline.simps(2) [of "Suc (Suc (Suc d))"] c pb peek_symbol tk)
  then show ?thesis using c \<open>toks_ok ?s c'\<close> \<open>map_cmd (tok_str ?s) c' = t'\<close>
    by (simp add: gives_def) (simp add: listcmd_def)
qed

lemma parse_back_cmd:
  assumes line: "gives (show_cmd t @ 41 # 38 # r) t (41 # 38 # r) (parseline d (show_cmd t @ 41 # 38 # r))"
    and wf: "wf_cmd t" and r: "clean r"
  shows "gives (40 # show_cmd t @ 41 # 38 # r) (BACK t) r
           (parseline (Suc (Suc (Suc (Suc d)))) (40 # show_cmd t @ 41 # 38 # r))"
proof -
  let ?s = "40 # show_cmd t @ 41 # 38 # r"
  obtain tk where tk: "gettoken (38 # r) = (38, tk, r)" using gettoken_symbol [of 38 r] cleanD(1) [OF r] by auto
  have pb: "parse_back c (38 # r) = (backcmd c, r)" for c
    using cleanD(5) [OF r] by (simp add: parse_back.simps [of c] parse_back.simps [of _ r] peek_symbol tk)
  have "gives ?s t (38 # r) (parseexec (Suc (Suc d)) ?s)"
    by (rule gives_paren [OF line wf]) (simp_all add: peek_symbol)
  then obtain c where c: "parsepipe (Suc (Suc (Suc d))) ?s = POk c (38 # r)" "toks_ok ?s c" "map_cmd (tok_str ?s) c = t"
    by (auto simp: gives_def peek_symbol parsepipe.simps)
  then have "parseline (Suc (Suc (Suc (Suc d)))) ?s = POk (backcmd c) r"
    using cleanD(6) [OF r] by (simp add: parseline.simps(2) [of "Suc (Suc (Suc d))"] pb)
  then show ?thesis using c by (simp add: gives_def) (simp add: backcmd_def)
qed

lemma paren_pipe:
  assumes "gives (show_cmd t @ 41 # r) t (41 # r) (parseline d (show_cmd t @ 41 # r))" "wf_cmd t" "clean r"
  shows "gives (40 # show_cmd t @ 41 # r) t r (parsepipe (Suc (Suc (Suc d))) (40 # show_cmd t @ 41 # r))"
  by (rule parsepipe_clean [OF gives_paren [OF assms(1,2) cleanD(1,3) [OF assms(3)]] assms(3)])

lemma depth4: "4 \<le> (d :: nat) \<Longrightarrow> \<exists>e. d = Suc (Suc (Suc (Suc e)))"
  by (intro exI [of _ "d - 4"]) simp

lemma parse_show:
  "wf_cmd t \<Longrightarrow> clean r \<Longrightarrow> 4 * length (show_cmd t @ r) + 4 \<le> d \<Longrightarrow>
   gives (show_cmd t @ r) t r (parseline d (show_cmd t @ r))"
proof (induction t arbitrary: r d)
  case (EXEC ws)
  then obtain e where "d = Suc (Suc (Suc (Suc e)))" using depth4 [of d] by auto
  then show ?case using EXEC by (simp only:) (intro parseline_clean parsepipe_clean parse_exec)
next
  case (REDIR t f m fd)
  let ?q = "redir_sym m fd @ f @ r"
  obtain e where d: "d = Suc (Suc (Suc (Suc e)))" using depth4 [of d] REDIR.prems(3) by auto
  have "gives (show_cmd t @ 41 # ?q) t (41 # ?q) (parseline e (show_cmd t @ 41 # ?q))"
    using REDIR.prems d by (intro REDIR.IH) (auto simp: clean_def)
  then have "gives (40 # show_cmd t @ 41 # ?q) (REDIR t f m fd) r (parseline d (40 # show_cmd t @ 41 # ?q))"
    unfolding d by (intro parseline_clean parsepipe_clean parse_redir_cmd refl REDIR.prems)
  then show ?case by simp
next
  case (PIPE t1 t2)
  let ?q = "40 # show_cmd t2 @ 41 # r"
  obtain e where d: "d = Suc (Suc (Suc (Suc e)))" using depth4 [of d] PIPE.prems(3) by auto
  obtain e' where e: "e = Suc (Suc (Suc (Suc e')))" using depth4 [of e] PIPE.prems(3) d by auto
  have "gives (show_cmd t1 @ 41 # 124 # ?q) t1 (41 # 124 # ?q) (parseline e (show_cmd t1 @ 41 # 124 # ?q))"
    using PIPE.prems d by (intro PIPE.IH) (auto simp: clean_def)
  moreover have "gives (show_cmd t2 @ 41 # r) t2 (41 # r) (parseline (Suc (Suc (Suc e'))) (show_cmd t2 @ 41 # r))"
    using PIPE.prems d e by (intro PIPE.IH) (auto simp: clean_def)
  then have "gives ?q t2 r (parsepipe (Suc (Suc e)) ?q)"
    unfolding e using PIPE.prems by (intro paren_pipe) auto
  ultimately have "gives (40 # show_cmd t1 @ 41 # 124 # ?q) (PIPE t1 t2) r (parseline d (40 # show_cmd t1 @ 41 # 124 # ?q))"
    unfolding d using PIPE.prems by (intro parseline_clean [OF parse_pipe_cmd]) auto
  then show ?case by simp
next
  case (LIST t1 t2)
  let ?q = "40 # show_cmd t2 @ 41 # r"
  obtain e where d: "d = Suc (Suc (Suc (Suc e)))" using depth4 [of d] LIST.prems(3) by auto
  obtain e' where e: "e = Suc (Suc (Suc (Suc e')))" using depth4 [of e] LIST.prems(3) d by auto
  have "gives (show_cmd t1 @ 41 # 59 # ?q) t1 (41 # 59 # ?q) (parseline e (show_cmd t1 @ 41 # 59 # ?q))"
    using LIST.prems d by (intro LIST.IH) (auto simp: clean_def)
  moreover have "gives (show_cmd t2 @ 41 # r) t2 (41 # r) (parseline (Suc (Suc (Suc e'))) (show_cmd t2 @ 41 # r))"
    using LIST.prems d e by (intro LIST.IH) (auto simp: clean_def)
  then have "gives ?q t2 r (parseline (Suc (Suc (Suc e))) ?q)"
    unfolding e using LIST.prems by (intro parseline_clean [OF paren_pipe]) auto
  ultimately have "gives (40 # show_cmd t1 @ 41 # 59 # ?q) (LIST t1 t2) r (parseline d (40 # show_cmd t1 @ 41 # 59 # ?q))"
    unfolding d using LIST.prems by (intro parse_list_cmd) auto
  then show ?case by simp
next
  case (BACK t)
  obtain e where d: "d = Suc (Suc (Suc (Suc e)))" using depth4 [of d] BACK.prems(3) by auto
  have "gives (show_cmd t @ 41 # 38 # r) t (41 # 38 # r) (parseline e (show_cmd t @ 41 # 38 # r))"
    using BACK.prems d by (intro BACK.IH) (auto simp: clean_def)
  then have "gives (40 # show_cmd t @ 41 # 38 # r) (BACK t) r (parseline d (40 # show_cmd t @ 41 # 38 # r))"
    unfolding d using BACK.prems by (intro parse_back_cmd) auto
  then show ?case by simp
qed

lemma show_no_nul: "wf_cmd t \<Longrightarrow> 0 \<notin> set (show_cmd t)"
  by (induction t) (auto simp: wf_word_def list_all_iff redir_sym_def)

text \<open>C8. The parser of the shell inverts a printer: for every command tree over proper words, with fewer than ten
  arguments to each command, \<open>parsecmd\<close> accepts the printed text, and the strings behind the pointers of the tree it
  returns make up the printed tree again.\<close>

theorem parsecmd_show:
  assumes "wf_cmd t"
  shows "\<exists>c line. parsecmd S (show_cmd t) w = URet (c, line) w \<and> map_cmd (arg_str line) c = t"
proof -
  let ?s = "show_cmd t"
  have s: "cstr ?s = ?s" using show_no_nul [OF assms] by (simp add: cstr_id)
  obtain c where c: "parseline (4 * length ?s + 4) ?s = POk c []" "toks_ok ?s c" "map_cmd (tok_str ?s) c = t"
    using parse_show [OF assms, of "[]" "4 * length ?s + 4"] by (auto simp: clean_def gives_def)
  then have "parsecmd S ?s w = URet (c, nulterminate c ?s) w"
    by (simp add: parsecmd_def Let_def s peek_def skip_ws_def)
  moreover have "map_cmd (arg_str (nulterminate c ?s)) c = map_cmd (tok_str ?s) c"
    using c(2) show_no_nul [OF assms]
    by (intro cmd.map_cong0) (simp add: nulterminate_fold set_cmd_toks toks_ok_def arg_str_words)
  ultimately show ?thesis using c(3) by auto
qed

theorem parsecmd_show_witness:
  "\<exists>c line. parsecmd two_sys (str ''((cat )<in)|(wc -l )'') ([], []) = URet (c, line) ([], []) \<and>
     map_cmd (arg_str line) c = PIPE (REDIR (EXEC [str ''cat'']) (str ''in'') 0 0) (EXEC [str ''wc'', str ''-l''])"
proof -
  let ?t = "PIPE (REDIR (EXEC [str ''cat'']) (str ''in'') 0 0) (EXEC [str ''wc'', str ''-l''])"
  have "wf_cmd ?t" by code_simp
  moreover have "show_cmd ?t = str ''((cat )<in)|(wc -l )''" by code_simp
  ultimately show ?thesis using parsecmd_show [of ?t two_sys "([], [])"] by simp
qed

end
