(* ===== verification/Spec2Isabelle.thy ===== *)
theory Spec2Isabelle
  imports Boot Utils Shellprint
begin

text \<open>
  A model of xv6 for RISC-V with the changes of the page-table laboratory, and what has been
  proved about it. The sources are under \<open>src/kernel\<close> and \<open>src/user\<close>.

  \<^bold>\<open>How the code is represented.\<close> Every C function is one definition with the same name (user
  programs carry the prefix \<open>u_\<close> or the suffix \<open>_main\<close>; a loop is a recursive function named after its
  function). Kernel functions map a state to an \<open>outcome\<close> (Prelude): \<open>Ret\<close> with a value and the new
  state, \<open>Panic\<close> with the message, \<open>Wait\<close> when the thread gives up the hart or spins on a taken lock, and
  \<open>NoFuel\<close> when a search for which the code has no bound runs past the bound of the model. \<open>bnd\<close>
  sequences them. The state is one extensible record that grows from theory to theory, so that
  a function can be applied to every larger state: \<open>machine\<close> (locks, harts), \<open>console_out\<close>,
  \<open>kmem_state\<close> (physical memory and free list), \<open>vm_state\<close>, \<open>proc_state\<close> (process table), \<open>cons_state\<close>,
  \<open>sleep_state\<close>, \<open>blk_state\<close> (disk device, buffers), \<open>log_state\<close>, \<open>fs_state\<close> (inodes), \<open>file_state\<close>,
  \<open>trap_state\<close>, \<open>boot_state\<close>. Machine integers are words of their width. Physical memory is a function
  from addresses to bytes; page tables live in it.

  \<^bold>\<open>The kernel.\<close>
  \<^item> Prelude, Bytes, Riscv: outcomes, loops, bytes in memory; \<open>riscv.h\<close>, \<open>memlayout.h\<close>, \<open>param.h\<close>. The
    page-table entry macros round-trip and \<open>PX\<close> identifies pages.
  \<^item> Kstring: \<open>string.c\<close>. Overlapping \<open>memmove\<close>, \<open>strncpy\<close> against \<open>strncmp\<close>.
  \<^item> Spinlock: \<open>spinlock.c\<close>. The operations are also cut into their atomic pieces, and an
    inductive relation interleaves the pieces of all harts: mutual exclusion holds in every
    reachable state.
  \<^item> Printf: \<open>printf.c\<close>. The output is the formatted text; numbers can be read back from it.
  \<^item> Kalloc: \<open>kalloc.c\<close>. The free list in memory refines a list of pages.
  \<^item> Vm, Pagetable, Uvm, Uvmalloc: \<open>vm.c\<close>. The three-level tree in memory is abstracted to a
    partial map from pages to entries (\<open>pmap\<close>); \<open>mappages\<close>, \<open>uvmunmap\<close> and \<open>uvmalloc\<close> are shown against it.
  \<^item> Proc, Section, Fork: \<open>proc.c\<close>. Section turns critical sections into closed forms, from which
    the facts about \<open>sleep\<close>, \<open>wakeup\<close>, \<open>kill\<close> and the scheduler follow.
  \<^item> Vmcopyin: \<open>vmcopyin.c\<close>, and \<open>copyin\<close>, \<open>copyout\<close> of \<open>vm.c\<close>.
  \<^item> Console: \<open>uart.c\<close>, \<open>console.c\<close>. Sleeplock: \<open>sleeplock.c\<close>. Virtio: \<open>virtio_disk.c\<close>, with the device as a
    state component whose behaviour is the parameter \<open>dma\<close>.
  \<^item> Bio, Cache: \<open>bio.c\<close>. The ring of buffers is a list in order of use; the cache is a view of the
    disk, with an invariant kept by every operation.
  \<^item> Log, Recovery, Logops: \<open>log.c\<close>. The ghost field \<open>hist\<close> records every contents of the disk. A
    transaction is atomic: recovery from any of these contents gives the old or the new
    blocks, and recovery itself may be interrupted.
  \<^item> Fs, Pipe, File: \<open>fs.c\<close>, \<open>pipe.c\<close>, \<open>file.c\<close>. Exec: \<open>exec.c\<close>. Sysproc, Sysfile: \<open>syscall.c\<close>, \<open>sysproc.c\<close>, \<open>sysfile.c\<close>.
    Trap: \<open>trap.c\<close>, \<open>plic.c\<close>. Boot: \<open>start.c\<close>, \<open>main.c\<close>.

  \<^bold>\<open>The user side.\<close> A program is followed along one process. What the system calls do to the
  world is an argument of the programs, the record \<open>sys\<close> (Ulib).
  \<^item> Ulib: \<open>ulib.c\<close>, \<open>printf.c\<close>.
  \<^item> Grep: \<open>grep.c\<close>. The matcher decides the language of its pattern; the loop prints the matching
    lines.
  \<^item> Shell, Shellprint: \<open>sh.c\<close>. The parser terminates, its tree spans words of the line that the NULs
    of \<open>nulterminate\<close> leave whole, and it inverts a printer of command trees.
  \<^item> Utils: \<open>cat.c\<close>, \<open>wc.c\<close>, \<open>echo.c\<close>, \<open>rm.c\<close>, \<open>mkdir.c\<close>, \<open>ln.c\<close>, \<open>kill.c\<close>, \<open>ls.c\<close>, \<open>init.c\<close>, \<open>zombie.c\<close>.

  \<^bold>\<open>Bounds.\<close> Searches in the ring of buffers are bounded by its length plus one; the loops of the
  user programs take a number of rounds, and the theorems about them state that one more
  than the length of the input is enough.

  \<^bold>\<open>Not modelled.\<close> The assembly files (their effect is part of the definitions that use them), TLB
  flushes and memory barriers, which have no effect on the model; \<open>ramdisk.c\<close>, which is not
  built; the test programs of \<open>src/user\<close>; the scripts that build and grade.
\<close>

end
